(* ===== verification/Prelude.thy ===== *)
theory Prelude
  imports Main "HOL-Library.Char_ord" "HOL-Library.List_Lexorder" "HOL-Library.AList"
begin

text \<open>
  Shared vocabulary of the perchstation development: the result type of fallible
  operations, Rust's fixed-width saturating arithmetic on naturals, wall-clock instants,
  file names with the \<^verbatim>\<open>std::path\<close> notion of an extension, and the generic list lemmas the
  component theories use.
\<close>

section \<open>Fact collections\<close>

text \<open>
  \<open>wlp_simps\<close> holds the rewriting rules of the weakest-precondition calculus of theory
  \<open>Fs\<close>; \<open>name_simps\<close> the equations about the queue's file names; \<open>run_simps\<close> the equations
  that execute a file-system program when no fault is injected; \<open>exec_simps\<close> the definitions
  that evaluate a program on a concrete world and fault schedule.
\<close>

named_theorems wlp_simps "weakest preconditions of file-system programs"
named_theorems wlpf_simps "weakest preconditions under a budget of failed calls"
named_theorems run_simps "execution of file-system programs without faults"
named_theorems name_simps "file names of the queue directories"
named_theorems exec_simps "evaluation of programs on concrete worlds and schedules"

section \<open>Results\<close>

text \<open>
  The result of a fallible operation. \<open>Crashed\<close> is not an error value the program can
  observe: it means that the process died inside the operation, so nothing after that
  point ran.
\<close>

datatype ('e, 'a) res = Ok 'a | Err 'e | Crashed

section \<open>Fixed-width unsigned integers\<close>

text \<open>
  \<^verbatim>\<open>u16\<close>, \<^verbatim>\<open>u32\<close> and \<^verbatim>\<open>u64\<close> values are naturals; the operations the code applies to them
  (\<^verbatim>\<open>saturating_add\<close>, \<^verbatim>\<open>saturating_sub\<close>, wrapping \<^verbatim>\<open>+\<close>) are written out with their width.
\<close>

type_synonym u16 = nat
type_synonym u32 = nat
type_synonym u64 = nat

definition u32_max :: nat where
  "u32_max = 2 ^ 32 - 1"

definition u64_max :: nat where
  "u64_max = 2 ^ 64 - 1"

definition i64_max :: int where
  "i64_max = 2 ^ 63 - 1"

definition sat_add :: "nat \<Rightarrow> nat \<Rightarrow> nat \<Rightarrow> nat" where
  "sat_add m a b = min (a + b) m"

definition sat_sub :: "nat \<Rightarrow> nat \<Rightarrow> nat" where
  "sat_sub a b = (if b \<le> a then a - b else 0)"

definition wrap_u32 :: "nat \<Rightarrow> nat" where
  "wrap_u32 n = n mod 2 ^ 32"

definition wrap_u64 :: "nat \<Rightarrow> nat" where
  "wrap_u64 n = n mod 2 ^ 64"

lemma sat_sub_eq [simp]: "sat_sub a b = a - b"
  by (simp add: sat_sub_def)

lemma sat_add_le_max: "sat_add m a b \<le> m"
  by (simp add: sat_add_def)

lemma sat_add_mono: "a \<le> a' \<Longrightarrow> b \<le> b' \<Longrightarrow> sat_add m a b \<le> sat_add m a' b'"
  by (auto simp: sat_add_def min_def)

lemma sat_add_exact: "a + b \<le> m \<Longrightarrow> sat_add m a b = a + b"
  by (simp add: sat_add_def)

lemma sat_add_le_sum: "sat_add m a b \<le> a + b"
  by (simp add: sat_add_def)

lemma wrap_u64_le: "wrap_u64 n \<le> n"
  by (simp add: wrap_u64_def)

section \<open>Instants and durations\<close>

text \<open>
  A \<^verbatim>\<open>DateTime<Utc>\<close> is its number of nanoseconds since the epoch, a \<^verbatim>\<open>chrono::Duration\<close> (and
  the difference of two instants) a signed number of nanoseconds, a \<^verbatim>\<open>std::time::Duration\<close> an
  unsigned one.
\<close>

type_synonym instant = int
type_synonym delta = int
type_synonym duration = nat

definition ns_per_sec :: int where
  "ns_per_sec = 1000000000"

lemma ns_per_sec_pos [simp]: "0 < ns_per_sec"
  by (simp add: ns_per_sec_def)

section \<open>Paths\<close>

text \<open>
  The directories the queue and the capture subsystem use under \<^verbatim>\<open><data_dir>\<close>, and
  \<^verbatim>\<open><data_dir>\<close> itself. A path is a directory and a name in it.
\<close>

datatype dir = PendingDir | InflightDir | DeliveredDir | CorruptDir | StagingDir | DataDir

type_synonym path = "dir \<times> string"

text \<open>
  \<^verbatim>\<open>Path::extension\<close>, \<^verbatim>\<open>Path::file_stem\<close> and \<^verbatim>\<open>Path::with_extension\<close> on a file name: the name is
  split at its last dot, and a name whose only dot is its first character has no
  extension. (The special name \<open>..\<close> does not occur in a directory listing.)
\<close>

definition after_dot :: "string \<Rightarrow> string" where
  "after_dot n = rev (takeWhile (\<lambda>c. c \<noteq> CHR ''.'') (rev n))"

definition before_dot :: "string \<Rightarrow> string" where
  "before_dot n = rev (tl (dropWhile (\<lambda>c. c \<noteq> CHR ''.'') (rev n)))"

definition extension :: "string \<Rightarrow> string option" where
  "extension n = (if CHR ''.'' \<in> set n \<and> before_dot n \<noteq> [] then Some (after_dot n) else None)"

definition file_stem :: "string \<Rightarrow> string" where
  "file_stem n = (if CHR ''.'' \<in> set n \<and> before_dot n \<noteq> [] then before_dot n else n)"

definition with_extension :: "string \<Rightarrow> string \<Rightarrow> string" where
  "with_extension n ext = file_stem n @ ''.'' @ ext"

definition has_ext :: "string \<Rightarrow> string \<Rightarrow> bool" where
  "has_ext ext n \<longleftrightarrow> extension n = Some ext"

lemmas path_exec [exec_simps] =
  after_dot_def before_dot_def extension_def file_stem_def with_extension_def has_ext_def

lemma after_dot_append:
  "CHR ''.'' \<notin> set ext \<Longrightarrow> after_dot (s @ CHR ''.'' # ext) = ext"
  by (auto simp: after_dot_def takeWhile_append)

lemma before_dot_append:
  "CHR ''.'' \<notin> set ext \<Longrightarrow> before_dot (s @ CHR ''.'' # ext) = s"
  by (auto simp: before_dot_def dropWhile_append)

lemma extension_append [name_simps]:
  "CHR ''.'' \<notin> set ext \<Longrightarrow> s \<noteq> [] \<Longrightarrow> extension (s @ CHR ''.'' # ext) = Some ext"
  by (simp add: extension_def after_dot_append before_dot_append)

lemma file_stem_append [name_simps]:
  "CHR ''.'' \<notin> set ext \<Longrightarrow> s \<noteq> [] \<Longrightarrow> file_stem (s @ CHR ''.'' # ext) = s"
  by (simp add: file_stem_def before_dot_append)

lemma split_at_dot:
  assumes "CHR ''.'' \<in> set n"
  shows "n = before_dot n @ CHR ''.'' # after_dot n"
proof -
  let ?P = "\<lambda>c. c \<noteq> CHR ''.''"
  have "rev n = takeWhile ?P (rev n) @ dropWhile ?P (rev n)"
    by simp
  moreover have "dropWhile ?P (rev n) = CHR ''.'' # tl (dropWhile ?P (rev n))"
  proof (cases "dropWhile ?P (rev n)")
    case Nil
    with assms show ?thesis by (auto simp: dropWhile_eq_Nil_conv)
  next
    case (Cons c cs)
    then have "\<not> ?P c" using hd_dropWhile [of ?P "rev n"] by simp
    with Cons show ?thesis by simp
  qed
  ultimately have "rev n = takeWhile ?P (rev n) @ CHR ''.'' # tl (dropWhile ?P (rev n))"
    by simp
  then have "n = rev (takeWhile ?P (rev n) @ CHR ''.'' # tl (dropWhile ?P (rev n)))"
    by (metis rev_rev_ident)
  then show ?thesis
    by (simp add: before_dot_def after_dot_def)
qed

lemma has_ext_iff:
  assumes "CHR ''.'' \<notin> set ext"
  shows "has_ext ext n \<longleftrightarrow> (\<exists>s. s \<noteq> [] \<and> n = s @ CHR ''.'' # ext)"
proof
  assume "has_ext ext n"
  then have "CHR ''.'' \<in> set n" "before_dot n \<noteq> []" "after_dot n = ext"
    by (auto simp: has_ext_def extension_def split: if_splits)
  then show "\<exists>s. s \<noteq> [] \<and> n = s @ CHR ''.'' # ext"
    using split_at_dot by blast
next
  assume "\<exists>s. s \<noteq> [] \<and> n = s @ CHR ''.'' # ext"
  then show "has_ext ext n"
    using assms by (auto simp: has_ext_def extension_append)
qed

section \<open>Association lists\<close>

text \<open>Lookup after update and delete; membership of a key in a listing.\<close>

lemma map_of_AList_update [simp]:
  "map_of (AList.update k v al) k' = (if k' = k then Some v else map_of al k')"
  by (simp add: update_conv)

lemma map_of_AList_delete [simp]:
  "map_of (AList.delete k al) k' = (if k' = k then None else map_of al k')"
  by (simp add: delete_conv)

end
