(* ===== verification/Queue_Entry.thy ===== *)
theory Queue_Entry
  imports Prelude
begin

text \<open>
  The data of the queue layer: \<^verbatim>\<open>crates/perchstation-core/src/queue/mod.rs\<close> (outcome, last
  error, sidecar record, queue and inbox errors), the classify-task status of
  \<^verbatim>\<open>perchpub/types.rs\<close>, and the structured log events of \<^verbatim>\<open>observability/tracing.rs\<close> at the
  sites the development models.
\<close>

section \<open>Classify-task status\<close>

datatype classify_task_status = Prepared | Queued | Processing | Success | Failed | Unknown

definition is_terminal_status :: "classify_task_status \<Rightarrow> bool" where
  "is_terminal_status s \<longleftrightarrow> s = Success \<or> s = Failed"

type_synonym uuid = nat

text \<open>
  The part of \<^verbatim>\<open>ClassifyTaskPublic\<close> the station reads: the task id, its status and the id of
  the joined observation.
\<close>

record classify_task =
  task_id :: uuid
  task_status :: classify_task_status
  task_observation :: "uuid option"

section \<open>Sidecar records\<close>

datatype outcome = Delivered | Undeliverable

record last_error =
  le_kind :: string
  le_status :: "u16 option"
  le_message :: string

record clip_queue_entry =
  clip_id :: string
  captured_at :: instant
  enqueued_at :: instant
  byte_size :: u64
  attempts :: u32
  first_attempt_at :: "instant option"
  last_attempt_at :: "instant option"
  last_err :: "last_error option"
  next_attempt_after :: "instant option"
  entry_outcome :: "outcome option"
  classify_task_id :: "uuid option"
  delivered_at :: "instant option"
  last_classify_status :: "classify_task_status option"
  classify_lost_at :: "instant option"

definition new_entry :: "string \<Rightarrow> instant \<Rightarrow> instant \<Rightarrow> u64 \<Rightarrow> clip_queue_entry" where
  "new_entry cid cap enq bytes =
     \<lparr> clip_id = cid, captured_at = cap, enqueued_at = enq, byte_size = bytes, attempts = 0,
       first_attempt_at = None, last_attempt_at = None, last_err = None,
       next_attempt_after = None, entry_outcome = None, classify_task_id = None,
       delivered_at = None, last_classify_status = None, classify_lost_at = None \<rparr>"

definition is_terminal :: "clip_queue_entry \<Rightarrow> bool" where
  "is_terminal e \<longleftrightarrow> entry_outcome e \<noteq> None"

lemma new_entry_sel [simp]:
  "clip_id (new_entry cid cap enq b) = cid"
  "captured_at (new_entry cid cap enq b) = cap"
  "byte_size (new_entry cid cap enq b) = b"
  "attempts (new_entry cid cap enq b) = 0"
  "entry_outcome (new_entry cid cap enq b) = None"
  "next_attempt_after (new_entry cid cap enq b) = None"
  by (simp_all add: new_entry_def)

section \<open>Errors\<close>

text \<open>
  \<^verbatim>\<open>std::io::Error\<close> by its kind: the two kinds the code tells apart, and every other one under
  a code of its own.
\<close>

datatype io_error = NotFound | StorageFull | OtherIo nat

datatype queue_error =
    Io path io_error
  | Serialise
  | Deserialise path
  | MissingMedia string
  | DiskFull path

datatype inbox_error =
    QueueFull u32 u32 u64 u64 \<comment> \<open>current clips, max clips, current bytes, max bytes\<close>
  | Queue queue_error

section \<open>Log events\<close>

text \<open>
  One constructor per \<^verbatim>\<open>events::*\<close> code that a modelled site emits, with the fields of the
  site. \<open>Warn\<close> is a log line that carries no event code.
\<close>

datatype queue_event =
    QueueRecoveredInflight string
  | QueueEvicted string string string u32 u64 \<comment> \<open>clip, reason, policy, remaining clips, remaining bytes\<close>
  | QueueZeroLengthSkipped string string
  | QueueOversizeSkipped string string
  | QueueDiskFull path
  | QueueCorruptSidecar path
  | QueueOrphanMedia path
  | QueueMissingMedia string
  | QueuePrunedDelivered string

datatype delivery_event =
    DeliveryAttemptStarted string u32
  | DeliveryUploadSucceeded string uuid u32
  | DeliveryUploadUndecodable string u32 string
  | DeliveryUploadTransient string u32 string "u16 option" instant
  | DeliveryUploadTerminal string u32 string "u16 option" string
  | DeliveryAttemptsExhausted string u32 int string "u16 option" string
  | DeliveryCertExpired instant

datatype classify_event =
    ClassifyPolled string uuid classify_task_status
  | ClassifyTerminal string uuid classify_task_status "uuid option"
  | ClassifyLost string uuid string "u16 option"

datatype capture_event =
    CaptureReady u32
  | CaptureShutdown
  | CaptureInitFailed string
  | CaptureStagingPurged u32 u64
  | CaptureTriggerObserved instant
  | CaptureRecordingStarted string instant
  | CaptureRecordingCompleted string string u64 int
  | CaptureRecordingFailed string string
  | CaptureRecordingHung string int
  | CaptureCooldownSkip instant
  | CaptureDegradedSkip string
  | CaptureDiskPressureSkip u64 u64
  | CaptureStagingProbeFailed
  | CaptureQueueRefused string string
  | CaptureSensorDegraded string instant "string option"
  | CaptureSensorRecovered string

text \<open>\<open>True\<close> stands for a key that was reused, \<open>False\<close> for one that was generated.\<close>

datatype enrollment_event =
    EnrollmentQrDecoded uuid
  | EnrollmentCsrGenerated bool
  | EnrollmentSent uuid string
  | EnrollmentPersisted uuid instant bool
  | EnrollmentOverwritten uuid uuid
  | EnrollmentRefusedOverwrite uuid
  | EnrollmentFailed string
  | EnrollmentSessionInvalid u16

datatype service_event =
    ServiceReady uuid u32 \<comment> \<open>station, clips pending at the start\<close>
  | ServiceShutdown string
  | ServiceConfigInvalid string
  | ServiceCredentialsReloaded

datatype event =
    QueueEv queue_event
  | DeliveryEv delivery_event
  | ClassifyEv classify_event
  | CaptureEv capture_event
  | EnrollmentEv enrollment_event
  | ServiceEv service_event
  | Warn string

fun queue_event_code :: "queue_event \<Rightarrow> string" where
  "queue_event_code (QueueRecoveredInflight _) = ''queue.recovered_inflight''"
| "queue_event_code (QueueEvicted _ _ _ _ _) = ''queue.evicted''"
| "queue_event_code (QueueZeroLengthSkipped _ _) = ''queue.zero_length_skipped''"
| "queue_event_code (QueueOversizeSkipped _ _) = ''queue.oversize_skipped''"
| "queue_event_code (QueueDiskFull _) = ''queue.disk_full''"
| "queue_event_code (QueueCorruptSidecar _) = ''queue.corrupt_sidecar''"
| "queue_event_code (QueueOrphanMedia _) = ''queue.orphan_media''"
| "queue_event_code (QueueMissingMedia _) = ''queue.missing_media''"
| "queue_event_code (QueuePrunedDelivered _) = ''queue.pruned_delivered''"

fun delivery_event_code :: "delivery_event \<Rightarrow> string" where
  "delivery_event_code (DeliveryAttemptStarted _ _) = ''delivery.attempt_started''"
| "delivery_event_code (DeliveryUploadSucceeded _ _ _) = ''delivery.upload_succeeded''"
| "delivery_event_code (DeliveryUploadUndecodable _ _ _) = ''delivery.upload_undecodable''"
| "delivery_event_code (DeliveryUploadTransient _ _ _ _ _) = ''delivery.upload_transient''"
| "delivery_event_code (DeliveryUploadTerminal _ _ _ _ _) = ''delivery.upload_terminal''"
| "delivery_event_code (DeliveryAttemptsExhausted _ _ _ _ _ _) = ''delivery.attempts_exhausted''"
| "delivery_event_code (DeliveryCertExpired _) = ''delivery.cert_expired''"

fun classify_event_code :: "classify_event \<Rightarrow> string" where
  "classify_event_code (ClassifyPolled _ _ _) = ''classify.polled''"
| "classify_event_code (ClassifyTerminal _ _ _ _) = ''classify.terminal''"
| "classify_event_code (ClassifyLost _ _ _ _) = ''classify.lost''"

fun capture_event_code :: "capture_event \<Rightarrow> string" where
  "capture_event_code (CaptureReady _) = ''capture.ready''"
| "capture_event_code CaptureShutdown = ''capture.shutdown''"
| "capture_event_code (CaptureInitFailed _) = ''capture.init_failed''"
| "capture_event_code (CaptureStagingPurged _ _) = ''capture.staging_purged''"
| "capture_event_code (CaptureTriggerObserved _) = ''capture.trigger_observed''"
| "capture_event_code (CaptureRecordingStarted _ _) = ''capture.recording_started''"
| "capture_event_code (CaptureRecordingCompleted _ _ _ _) = ''capture.recording_completed''"
| "capture_event_code (CaptureRecordingFailed _ _) = ''capture.recording_failed''"
| "capture_event_code (CaptureRecordingHung _ _) = ''capture.recording_hung''"
| "capture_event_code (CaptureCooldownSkip _) = ''capture.cooldown_skip''"
| "capture_event_code (CaptureDegradedSkip _) = ''capture.degraded_skip''"
| "capture_event_code (CaptureDiskPressureSkip _ _) = ''capture.disk_pressure_skip''"
| "capture_event_code CaptureStagingProbeFailed = ''capture.staging_probe_failed''"
| "capture_event_code (CaptureQueueRefused _ _) = ''capture.queue_refused''"
| "capture_event_code (CaptureSensorDegraded _ _ _) = ''capture.sensor_degraded''"
| "capture_event_code (CaptureSensorRecovered _) = ''capture.sensor_recovered''"

fun enrollment_event_code :: "enrollment_event \<Rightarrow> string" where
  "enrollment_event_code (EnrollmentQrDecoded _) = ''enrollment.qr_decoded''"
| "enrollment_event_code (EnrollmentCsrGenerated _) = ''enrollment.csr_generated''"
| "enrollment_event_code (EnrollmentSent _ _) = ''enrollment.sent''"
| "enrollment_event_code (EnrollmentPersisted _ _ _) = ''enrollment.persisted''"
| "enrollment_event_code (EnrollmentOverwritten _ _) = ''enrollment.overwritten''"
| "enrollment_event_code (EnrollmentRefusedOverwrite _) = ''enrollment.refused_overwrite''"
| "enrollment_event_code (EnrollmentFailed _) = ''enrollment.failed''"
| "enrollment_event_code (EnrollmentSessionInvalid _) = ''enrollment.session_invalid''"

fun service_event_code :: "service_event \<Rightarrow> string" where
  "service_event_code (ServiceReady _ _) = ''service.ready''"
| "service_event_code (ServiceShutdown _) = ''service.shutdown''"
| "service_event_code (ServiceConfigInvalid _) = ''service.config_invalid''"
| "service_event_code ServiceCredentialsReloaded = ''service.credentials_reloaded''"

fun event_code :: "event \<Rightarrow> string option" where
  "event_code (QueueEv e) = Some (queue_event_code e)"
| "event_code (DeliveryEv e) = Some (delivery_event_code e)"
| "event_code (ClassifyEv e) = Some (classify_event_code e)"
| "event_code (CaptureEv e) = Some (capture_event_code e)"
| "event_code (EnrollmentEv e) = Some (enrollment_event_code e)"
| "event_code (ServiceEv e) = Some (service_event_code e)"
| "event_code (Warn _) = None"

end
