(* ===== verification/Fs.thy ===== *)
theory Fs
  imports Queue_Entry
begin

text \<open>
  The file system the station runs on, as a state monad with three outcomes.

  The world is the set of files (an association list from paths to contents, so that a
  directory can be listed in the order the host happens to give), the process-local clip
  sequence number and the journal of log events. The contents type \<open>'b\<close> stands for byte
  strings. A \<open>codec\<close> is what the code uses of \<^verbatim>\<open>serde_json\<close> and of \<^verbatim>\<open>fs::Metadata::len\<close>:
  \<open>enc\<close> and \<open>dec\<close> turn a sidecar record into bytes and back, \<open>blen\<close> is the length.

  Every system call consumes one element of a fault schedule: it may succeed, fail with an
  error that the host chose (leaving, in the case of a write or a copy, partial contents
  at the target), or be the point where the process dies. \<open>NotFound\<close> is never injected: it
  is what a call on a missing file returns.

  A statement about every schedule is a weakest precondition \<open>wlp m Q E C w\<close>: from world
  \<open>w\<close>, whatever the host injects, \<open>m\<close> ends normally in \<open>Q\<close>, or with an error in \<open>E\<close>, or the
  process dies in a state that satisfies \<open>C\<close>.
\<close>

section \<open>Worlds, faults, programs\<close>

record 'b world =
  files :: "(path \<times> 'b) list"
  seq :: u32
  journal :: "event list"

record 'b codec =
  enc :: "clip_queue_entry \<Rightarrow> 'b option"
  dec :: "'b \<Rightarrow> clip_queue_entry option"
  blen :: "'b \<Rightarrow> u64"

text \<open>
  What the code relies on of \<^verbatim>\<open>serde_json\<close>: a serialised sidecar deserialises to the record
  it was made from, and serialising a sidecar does not fail.
\<close>

definition codec_ok :: "'b codec \<Rightarrow> bool" where
  "codec_ok cd \<longleftrightarrow> (\<forall>e. \<exists>b. enc cd e = Some b \<and> dec cd b = Some e)"

datatype fault_kind = DiskFullFault | OtherFault nat

datatype 'b fault = NoFault | Fail fault_kind "'b option" | Crash "'b option"

fun fault_error :: "fault_kind \<Rightarrow> io_error" where
  "fault_error DiskFullFault = StorageFull"
| "fault_error (OtherFault n) = OtherIo n"

lemma fault_error_not_found [simp]: "fault_error k \<noteq> NotFound"
  by (cases k) auto

type_synonym ('b, 'e, 'a) io =
  "'b world \<Rightarrow> 'b fault list \<Rightarrow> ('e, 'a) res \<times> 'b world \<times> 'b fault list"

definition ret :: "'a \<Rightarrow> ('b, 'e, 'a) io" where
  "ret x w fs = (Ok x, w, fs)"

definition throw :: "'e \<Rightarrow> ('b, 'e, 'a) io" where
  "throw e w fs = (Err e, w, fs)"

text \<open>
  \<open>match_io m f g\<close> runs \<open>m\<close> and goes on with \<open>f\<close> on a value and with \<open>g\<close> on an error; a crash
  ends the program. Sequencing, turning an error into a value and mapping an error are
  instances.
\<close>

definition match_io ::
  "('b, 'e, 'a) io \<Rightarrow> ('a \<Rightarrow> ('b, 'f, 'c) io) \<Rightarrow> ('e \<Rightarrow> ('b, 'f, 'c) io) \<Rightarrow> ('b, 'f, 'c) io" where
  "match_io m f g w fs =
     (case m w fs of
        (Ok x, w', fs') \<Rightarrow> f x w' fs'
      | (Err e, w', fs') \<Rightarrow> g e w' fs'
      | (Crashed, w', fs') \<Rightarrow> (Crashed, w', fs'))"

definition bind_io :: "('b, 'e, 'a) io \<Rightarrow> ('a \<Rightarrow> ('b, 'e, 'c) io) \<Rightarrow> ('b, 'e, 'c) io" where
  "bind_io m f = match_io m f throw"

definition attempt :: "('b, 'e, 'a) io \<Rightarrow> ('b, 'f, 'e + 'a) io" where
  "attempt m = match_io m (\<lambda>x. ret (Inr x)) (\<lambda>e. ret (Inl e))"

definition map_err :: "('e \<Rightarrow> 'f) \<Rightarrow> ('b, 'e, 'a) io \<Rightarrow> ('b, 'f, 'a) io" where
  "map_err h m = match_io m ret (\<lambda>e. throw (h e))"

definition emit :: "event \<Rightarrow> ('b, 'e, unit) io" where
  "emit ev w fs = (Ok (), w\<lparr>journal := journal w @ [ev]\<rparr>, fs)"

text \<open>The process dies: a panic, under the release profile's \<^verbatim>\<open>panic = "abort"\<close>.\<close>

definition crash_now :: "('b, 'e, 'a) io" where
  "crash_now w fs = (Crashed, w, fs)"

section \<open>System calls\<close>

text \<open>
  \<open>prim act part\<close> is a system call that does \<open>act\<close> when the host lets it, and leaves the
  world \<open>part p w\<close> behind when it is made to fail or die with partial contents \<open>p\<close>.
\<close>

definition prim ::
  "('b world \<Rightarrow> (io_error + 'a) \<times> 'b world) \<Rightarrow> ('b option \<Rightarrow> 'b world \<Rightarrow> 'b world)
     \<Rightarrow> ('b, io_error, 'a) io" where
  "prim act part w fs =
     (case fs of
        Fail k p # fs' \<Rightarrow> (Err (fault_error k), part p w, fs')
      | Crash p # fs' \<Rightarrow> (Crashed, part p w, fs')
      | _ \<Rightarrow> (case act w of
                (Inl e, w') \<Rightarrow> (Err e, w', tl fs)
              | (Inr x, w') \<Rightarrow> (Ok x, w', tl fs)))"

abbreviation no_part :: "'b option \<Rightarrow> 'b world \<Rightarrow> 'b world" where
  "no_part p w \<equiv> w"

definition write_part :: "path \<Rightarrow> 'b option \<Rightarrow> 'b world \<Rightarrow> 'b world" where
  "write_part q p w = (case p of None \<Rightarrow> w | Some b \<Rightarrow> w\<lparr>files := AList.update q b (files w)\<rparr>)"

definition fs_read :: "path \<Rightarrow> ('b, io_error, 'b) io" where
  "fs_read p = prim (\<lambda>w. (case map_of (files w) p of None \<Rightarrow> (Inl NotFound, w) | Some b \<Rightarrow> (Inr b, w))) no_part"

definition fs_metadata_len :: "'b codec \<Rightarrow> path \<Rightarrow> ('b, io_error, u64) io" where
  "fs_metadata_len cd p =
     prim (\<lambda>w. (case map_of (files w) p of None \<Rightarrow> (Inl NotFound, w) | Some b \<Rightarrow> (Inr (blen cd b), w))) no_part"

definition fs_rename :: "path \<Rightarrow> path \<Rightarrow> ('b, io_error, unit) io" where
  "fs_rename p q =
     prim (\<lambda>w. (case map_of (files w) p of
                  None \<Rightarrow> (Inl NotFound, w)
                | Some b \<Rightarrow> (Inr (), w\<lparr>files := AList.update q b (AList.delete p (files w))\<rparr>))) no_part"

definition fs_remove_file :: "path \<Rightarrow> ('b, io_error, unit) io" where
  "fs_remove_file p =
     prim (\<lambda>w. (case map_of (files w) p of
                  None \<Rightarrow> (Inl NotFound, w)
                | Some b \<Rightarrow> (Inr (), w\<lparr>files := AList.delete p (files w)\<rparr>))) no_part"

definition fs_write :: "path \<Rightarrow> 'b \<Rightarrow> ('b, io_error, unit) io" where
  "fs_write q b = prim (\<lambda>w. (Inr (), w\<lparr>files := AList.update q b (files w)\<rparr>)) (write_part q)"

definition fs_copy :: "path \<Rightarrow> path \<Rightarrow> ('b, io_error, unit) io" where
  "fs_copy p q =
     prim (\<lambda>w. (case map_of (files w) p of
                  None \<Rightarrow> (Inl NotFound, w)
                | Some b \<Rightarrow> (Inr (), w\<lparr>files := AList.update q b (files w)\<rparr>))) (write_part q)"

text \<open>
  \<^verbatim>\<open>Path::exists\<close> is \<^verbatim>\<open>metadata().is_ok()\<close>: an I/O error reads as ``does not exist''.
\<close>

definition fs_exists :: "path \<Rightarrow> ('b, 'e, bool) io" where
  "fs_exists p = bind_io (attempt (fs_read p)) (\<lambda>r. ret (case r of Inl _ \<Rightarrow> False | Inr _ \<Rightarrow> True))"

text \<open>
  \<^verbatim>\<open>read_dir\<close> opens a directory; the iterator then yields its entries one by one, and each
  step may fail (\<open>fs_next_entry\<close>).
\<close>

definition listing :: "dir \<Rightarrow> (path \<times> 'b) list \<Rightarrow> string list" where
  "listing d F = map (snd \<circ> fst) (filter (\<lambda>x. fst (fst x) = d) F)"

definition fs_read_dir :: "dir \<Rightarrow> ('b, io_error, string list) io" where
  "fs_read_dir d = prim (\<lambda>w. (Inr (listing d (files w)), w)) no_part"

definition fs_next_entry :: "('b, io_error, unit) io" where
  "fs_next_entry = prim (\<lambda>w. (Inr (), w)) no_part"

definition fs_create_dir_all :: "('b, io_error, unit) io" where
  "fs_create_dir_all = prim (\<lambda>w. (Inr (), w)) no_part"

lemmas fs_exec [exec_simps] =
  fs_read_def fs_metadata_len_def fs_rename_def fs_remove_file_def fs_write_def fs_copy_def
  fs_exists_def fs_read_dir_def fs_next_entry_def fs_create_dir_all_def listing_def
  ret_def throw_def match_io_def bind_io_def attempt_def map_err_def emit_def crash_now_def prim_def write_part_def

lemma set_listing: "set (listing d F) = {n. (d, n) \<in> dom (map_of F)}"
proof -
  have "n \<in> set (listing d F) \<longleftrightarrow> (d, n) \<in> fst ` set F" for n
    by (force simp: listing_def image_iff)
  then show ?thesis
    by (auto simp: dom_map_of_conv_image_fst)
qed

section \<open>Weakest preconditions over all fault schedules\<close>

definition wlp ::
  "('b, 'e, 'a) io \<Rightarrow> ('a \<Rightarrow> 'b world \<Rightarrow> bool) \<Rightarrow> ('e \<Rightarrow> 'b world \<Rightarrow> bool) \<Rightarrow> ('b world \<Rightarrow> bool)
     \<Rightarrow> 'b world \<Rightarrow> bool" where
  "wlp m Q E C w \<longleftrightarrow>
     (\<forall>fs. case m w fs of
             (Ok x, w', _) \<Rightarrow> Q x w'
           | (Err e, w', _) \<Rightarrow> E e w'
           | (Crashed, w', _) \<Rightarrow> C w')"

text \<open>
  The calls a schedule makes fail. A program is uniform when what it does depends on the
  schedule only through the part it consumes, and the number of failed calls with it. For
  uniform programs the weakest precondition of a sequence is the composition of the weakest
  preconditions.
\<close>

fun failures :: "'b fault list \<Rightarrow> nat" where
  "failures [] = 0"
| "failures (Fail k p # fs) = Suc (failures fs)"
| "failures (NoFault # fs) = failures fs"
| "failures (Crash p # fs) = failures fs"

definition uniform :: "('b, 'e, 'a) io \<Rightarrow> bool" where
  "uniform m \<longleftrightarrow> (\<forall>w fs r w' fs' gs. m w fs = (r, w', fs') \<longrightarrow>
     (\<exists>hs. m w hs = (r, w', gs) \<and> failures hs + failures fs' = failures fs + failures gs))"

lemma uniformD:
  assumes "uniform m" "m w fs = (r, w', fs')"
  obtains hs where "m w hs = (r, w', gs)" "failures hs + failures fs' = failures fs + failures gs"
  using assms unfolding uniform_def by blast

lemma uniform_failures: "uniform m \<Longrightarrow> m w fs = (r, w', fs') \<Longrightarrow> failures fs' \<le> failures fs"
  using uniformD [of m w fs r w' fs' "[]"] by fastforce

lemma uniform_ret [simp]: "uniform (ret x)"
  by (auto simp: uniform_def ret_def)

lemma uniform_throw [simp]: "uniform (throw e)"
  by (auto simp: uniform_def throw_def)

lemma uniform_emit [simp]: "uniform (emit ev)"
  by (auto simp: uniform_def emit_def)

lemma uniform_crash_now [simp]: "uniform crash_now"
  by (auto simp: uniform_def crash_now_def)

lemma uniform_prim [simp]: "uniform (prim act part)"
  unfolding uniform_def
proof (intro allI impI)
  fix w :: "'a world" and fs r w' fs' gs
  assume m: "prim act part w fs = (r, w', fs')"
  show "\<exists>hs. prim act part w hs = (r, w', gs) \<and> failures hs + failures fs' = failures fs + failures gs"
  proof (cases fs)
    case Nil
    with m show ?thesis
      by (intro exI [of _ "NoFault # gs"]) (auto simp: prim_def split: prod.splits sum.splits)
  next
    case (Cons f rest)
    with m show ?thesis
      by (intro exI [of _ "f # gs"]) (auto simp: prim_def split: prod.splits sum.splits fault.splits)
  qed
qed

lemma uniform_match [simp]:
  assumes m: "uniform m" and f: "\<And>x. uniform (f x)" and g: "\<And>e. uniform (g e)"
  shows "uniform (match_io m f g)"
  unfolding uniform_def
proof (intro allI impI)
  fix w fs r w' fs' gs
  assume run: "match_io m f g w fs = (r, w', fs')"
  obtain r1 w1 fs1 where m1: "m w fs = (r1, w1, fs1)" by (cases "m w fs") auto
  show "\<exists>hs. match_io m f g w hs = (r, w', gs) \<and> failures hs + failures fs' = failures fs + failures gs"
  proof (cases "r1 = Crashed")
    case True
    obtain hs where "m w hs = (Crashed, w1, gs)" "failures hs + failures fs1 = failures fs + failures gs"
      using uniformD [OF m m1 [unfolded True]] .
    then show ?thesis using run m1 True by (intro exI [of _ hs]) (auto simp: match_io_def)
  next
    case False
    define k where "k = (case r1 of Ok x \<Rightarrow> f x | Err e \<Rightarrow> g e | Crashed \<Rightarrow> undefined)"
    have k: "match_io m f g w hs = k w1 hs1" if "m w hs = (r1, w1, hs1)" for hs hs1
      using that False by (cases r1) (auto simp: match_io_def k_def)
    have "uniform k" using f g False by (cases r1) (auto simp: k_def)
    then obtain hs1 where hs1: "k w1 hs1 = (r, w', gs)" "failures hs1 + failures fs' = failures fs1 + failures gs"
      using run k [OF m1] by (auto elim: uniformD)
    obtain hs where "m w hs = (r1, w1, hs1)" "failures hs + failures fs1 = failures fs + failures hs1"
      using uniformD [OF m m1] .
    then show ?thesis using k hs1 by (intro exI [of _ hs]) auto
  qed
qed

lemma uniform_combinators [simp]:
  "uniform m \<Longrightarrow> (\<And>x. uniform (k x)) \<Longrightarrow> uniform (bind_io m k)"
  "uniform m \<Longrightarrow> uniform (attempt m)"
  "uniform m \<Longrightarrow> uniform (map_err h m)"
  by (simp_all add: bind_io_def attempt_def map_err_def)

lemma uniform_calls [simp]:
  "uniform (fs_read p)" "uniform (fs_metadata_len cd p)" "uniform (fs_rename p q)"
  "uniform (fs_remove_file p)" "uniform (fs_write p b)" "uniform (fs_copy p q)"
  "uniform (fs_exists p)" "uniform (fs_read_dir d)" "uniform fs_next_entry"
  "uniform fs_create_dir_all"
  by (simp_all add: fs_read_def fs_metadata_len_def fs_rename_def fs_remove_file_def fs_write_def
      fs_copy_def fs_exists_def fs_read_dir_def fs_next_entry_def fs_create_dir_all_def)

lemma wlp_ret [wlp_simps]: "wlp (ret x) Q E C = Q x"
  by (simp add: wlp_def ret_def fun_eq_iff)

lemma wlp_throw [wlp_simps]: "wlp (throw e) Q E C = E e"
  by (simp add: wlp_def throw_def fun_eq_iff)

lemma wlp_emit [wlp_simps]:
  "wlp (emit ev) Q E C = (\<lambda>w. Q () (w\<lparr>journal := journal w @ [ev]\<rparr>))"
  by (simp add: wlp_def emit_def fun_eq_iff)

lemma wlp_crash_now [wlp_simps]: "wlp crash_now Q E C = C"
  by (simp add: fun_eq_iff wlp_def crash_now_def)

lemma wlp_match:
  assumes "uniform m"
  shows "wlp (match_io m f g) Q E C w \<longleftrightarrow> wlp m (\<lambda>x. wlp (f x) Q E C) (\<lambda>e. wlp (g e) Q E C) C w"
    (is "?l \<longleftrightarrow> ?r")
proof
  assume r: ?r
  show ?l
    unfolding wlp_def
  proof
    fix fs
    show "case match_io m f g w fs of (Ok x, w', _) \<Rightarrow> Q x w' | (Err e, w', _) \<Rightarrow> E e w'
            | (Crashed, w', _) \<Rightarrow> C w'"
      using r [unfolded wlp_def, rule_format, of fs]
      by (auto simp: match_io_def split: prod.splits res.splits)
  qed
next
  assume l: ?l
  have step: "wlp (case r1 of Ok x \<Rightarrow> f x | Err e \<Rightarrow> g e | Crashed \<Rightarrow> (\<lambda>w fs. (Crashed, w, fs))) Q E C w1"
    if m1: "m w fs = (r1, w1, fs1)" for fs r1 w1 fs1
    unfolding wlp_def
  proof
    fix gs
    obtain hs where "m w hs = (r1, w1, gs)" using uniformD [OF assms m1] .
    then show "case (case r1 of Ok x \<Rightarrow> f x | Err e \<Rightarrow> g e | Crashed \<Rightarrow> (\<lambda>w fs. (Crashed, w, fs))) w1 gs
         of (Ok x, w', _) \<Rightarrow> Q x w' | (Err e, w', _) \<Rightarrow> E e w' | (Crashed, w', _) \<Rightarrow> C w'"
      using l [unfolded wlp_def, rule_format, of hs]
      by (auto simp: match_io_def split: prod.splits res.splits)
  qed
  show ?r
    unfolding wlp_def [of m]
  proof
    fix fs
    obtain r1 w1 fs1 where m1: "m w fs = (r1, w1, fs1)" by (cases "m w fs") auto
    from step [OF m1] m1
    show "case m w fs of (Ok x, w', _) \<Rightarrow> wlp (f x) Q E C w' | (Err e, w', _) \<Rightarrow> wlp (g e) Q E C w'
            | (Crashed, w', _) \<Rightarrow> C w'"
      by (cases r1) (auto simp: wlp_def)
  qed
qed

lemma wlp_bind [wlp_simps]:
  "uniform m \<Longrightarrow> wlp (bind_io m k) Q E C = wlp m (\<lambda>x. wlp (k x) Q E C) E C"
  by (simp add: fun_eq_iff bind_io_def wlp_match wlp_throw)

lemma wlp_attempt [wlp_simps]:
  "uniform m \<Longrightarrow> wlp (attempt m) Q E C = wlp m (\<lambda>x. Q (Inr x)) (\<lambda>e. Q (Inl e)) C"
  by (simp add: fun_eq_iff attempt_def wlp_match wlp_ret)

lemma wlp_map_err [wlp_simps]:
  "uniform m \<Longrightarrow> wlp (map_err h m) Q E C = wlp m Q (\<lambda>e. E (h e)) C"
  by (simp add: fun_eq_iff map_err_def wlp_match wlp_ret wlp_throw)

lemma wlp_prim:
  "wlp (prim act part) Q E C w \<longleftrightarrow>
     (\<forall>k p. E (fault_error k) (part p w)) \<and> (\<forall>p. C (part p w)) \<and>
     (case act w of (Inl e, w') \<Rightarrow> E e w' | (Inr x, w') \<Rightarrow> Q x w')"
    (is "?l \<longleftrightarrow> ?r")
proof
  assume l: ?l
  have "E (fault_error k) (part p w)" for k p
    using l [unfolded wlp_def, rule_format, of "[Fail k p]"] by (simp add: prim_def)
  moreover have "C (part p w)" for p
    using l [unfolded wlp_def, rule_format, of "[Crash p]"] by (simp add: prim_def)
  moreover have "case act w of (Inl e, w') \<Rightarrow> E e w' | (Inr x, w') \<Rightarrow> Q x w'"
    using l [unfolded wlp_def, rule_format, of "[]"] by (auto simp: prim_def split: prod.splits sum.splits)
  ultimately show ?r by blast
next
  assume r: ?r
  show ?l
    unfolding wlp_def
  proof
    fix fs
    show "case prim act part w fs of (Ok x, w', _) \<Rightarrow> Q x w' | (Err e, w', _) \<Rightarrow> E e w'
            | (Crashed, w', _) \<Rightarrow> C w'"
      using r by (auto simp: prim_def split: list.splits fault.splits prod.splits sum.splits)
  qed
qed

lemma wlp_calls [wlp_simps]:
  "wlp (fs_read p) Q E C w \<longleftrightarrow> (\<forall>k. E (fault_error k) w) \<and> C w \<and>
     (case map_of (files w) p of None \<Rightarrow> E NotFound w | Some b \<Rightarrow> Q b w)"
  "wlp (fs_metadata_len cd p) Q' E C w \<longleftrightarrow> (\<forall>k. E (fault_error k) w) \<and> C w \<and>
     (case map_of (files w) p of None \<Rightarrow> E NotFound w | Some b \<Rightarrow> Q' (blen cd b) w)"
  "wlp (fs_rename p q) U E C w \<longleftrightarrow> (\<forall>k. E (fault_error k) w) \<and> C w \<and>
     (case map_of (files w) p of None \<Rightarrow> E NotFound w
      | Some b \<Rightarrow> U () (w\<lparr>files := AList.update q b (AList.delete p (files w))\<rparr>))"
  "wlp (fs_remove_file p) U E C w \<longleftrightarrow> (\<forall>k. E (fault_error k) w) \<and> C w \<and>
     (case map_of (files w) p of None \<Rightarrow> E NotFound w
      | Some b \<Rightarrow> U () (w\<lparr>files := AList.delete p (files w)\<rparr>))"
  "wlp (fs_write q b) U E C w \<longleftrightarrow> (\<forall>k x. E (fault_error k) (write_part q x w)) \<and>
     (\<forall>x. C (write_part q x w)) \<and> U () (w\<lparr>files := AList.update q b (files w)\<rparr>)"
  "wlp (fs_copy p q) U E C w \<longleftrightarrow> (\<forall>k x. E (fault_error k) (write_part q x w)) \<and>
     (\<forall>x. C (write_part q x w)) \<and>
     (case map_of (files w) p of None \<Rightarrow> E NotFound w
      | Some b \<Rightarrow> U () (w\<lparr>files := AList.update q b (files w)\<rparr>))"
  "wlp (fs_read_dir d) L E C w \<longleftrightarrow> (\<forall>k. E (fault_error k) w) \<and> C w \<and> L (listing d (files w)) w"
  "wlp fs_next_entry U E C w \<longleftrightarrow> (\<forall>k. E (fault_error k) w) \<and> C w \<and> U () w"
  "wlp fs_create_dir_all U E C w \<longleftrightarrow> (\<forall>k. E (fault_error k) w) \<and> C w \<and> U () w"
  by (auto simp: fs_read_def fs_metadata_len_def fs_rename_def fs_remove_file_def fs_write_def
      fs_copy_def fs_read_dir_def fs_next_entry_def fs_create_dir_all_def wlp_prim split: option.splits)

lemma wlp_exists [wlp_simps]:
  "wlp (fs_exists p) B E C w \<longleftrightarrow> C w \<and> B False w \<and> (map_of (files w) p \<noteq> None \<longrightarrow> B True w)"
  by (auto simp: fs_exists_def wlp_simps split: option.splits)

lemma wlp_mono:
  assumes "wlp m Q E C w"
    and "\<And>x w'. Q x w' \<Longrightarrow> Q' x w'" "\<And>e w'. E e w' \<Longrightarrow> E' e w'" "\<And>w'. C w' \<Longrightarrow> C' w'"
  shows "wlp m Q' E' C' w"
  using assms unfolding wlp_def by (fastforce split: prod.splits res.splits)

lemma wlp_conj:
  "wlp m Q E C w \<Longrightarrow> wlp m Q' E' C' w \<Longrightarrow>
     wlp m (\<lambda>x w'. Q x w' \<and> Q' x w') (\<lambda>e w'. E e w' \<and> E' e w') (\<lambda>w'. C w' \<and> C' w') w"
  unfolding wlp_def by (fastforce split: prod.splits res.splits)

lemma wlp_trivial [simp]: "wlp m (\<lambda>_ _. True) (\<lambda>_ _. True) (\<lambda>_. True) w"
  by (simp add: wlp_def split: prod.split res.split)

text \<open>From a weakest precondition to a run.\<close>

lemma wlp_run:
  assumes "wlp m Q E C w" and "m w fs = (r, w', fs')"
  shows "case r of Ok x \<Rightarrow> Q x w' | Err e \<Rightarrow> E e w' | Crashed \<Rightarrow> C w'"
  using assms(1) [unfolded wlp_def, rule_format, of fs] assms(2) by (auto split: res.splits)

section \<open>Weakest preconditions with a budget of failures\<close>

text \<open>
  \<open>wlpf n m Q E C w\<close> speaks about the schedules that make at most \<open>n\<close> of the calls of \<open>m\<close> fail; the
  conditions on a return are told how many failures are left. It separates what a failed
  program leaves behind from what it leaves when its clean-up fails as well.
\<close>

definition wlpf ::
  "nat \<Rightarrow> ('b, 'e, 'a) io \<Rightarrow> (nat \<Rightarrow> 'a \<Rightarrow> 'b world \<Rightarrow> bool) \<Rightarrow> (nat \<Rightarrow> 'e \<Rightarrow> 'b world \<Rightarrow> bool) \<Rightarrow> ('b world \<Rightarrow> bool)
     \<Rightarrow> 'b world \<Rightarrow> bool" where
  "wlpf n m Q E C w \<longleftrightarrow>
     (\<forall>fs. failures fs = n \<longrightarrow>
        (case m w fs of
           (Ok x, w', fs') \<Rightarrow> Q (failures fs') x w'
         | (Err e, w', fs') \<Rightarrow> E (failures fs') e w'
         | (Crashed, w', _) \<Rightarrow> C w'))"

lemma failures_replicate [simp]: "failures (replicate n (Fail k p)) = n"
  by (induction n) auto

lemma failures_exist: "\<exists>fs. failures fs = n"
  using failures_replicate by blast

lemma wlpf_returns [wlpf_simps]:
  "wlpf n (ret x) Q E C = Q n x" "wlpf n (throw e) Q E C = E n e"
  "wlpf n (emit ev) U E C = (\<lambda>w. U n () (w\<lparr>journal := journal w @ [ev]\<rparr>))"
  using failures_exist by (auto simp: wlpf_def ret_def throw_def emit_def fun_eq_iff)

lemma wlpf_match:
  assumes "uniform m"
  shows "wlpf n (match_io m f g) Q E C w \<longleftrightarrow> wlpf n m (\<lambda>k x. wlpf k (f x) Q E C) (\<lambda>k e. wlpf k (g e) Q E C) C w"
    (is "?l \<longleftrightarrow> ?r")
proof
  assume r: ?r
  show ?l
    unfolding wlpf_def
  proof (intro allI impI)
    fix fs :: "'a fault list"
    assume "failures fs = n"
    with r [unfolded wlpf_def, rule_format, of fs]
    show "case match_io m f g w fs of (Ok x, w', fs') \<Rightarrow> Q (failures fs') x w' | (Err e, w', fs') \<Rightarrow> E (failures fs') e w'
            | (Crashed, w', _) \<Rightarrow> C w'"
      by (auto simp: match_io_def split: prod.splits res.splits)
  qed
next
  assume l: ?l
  show ?r
    unfolding wlpf_def [of n]
  proof (intro allI impI)
    fix fs :: "'a fault list"
    assume fs: "failures fs = n"
    obtain r1 w1 fs1 where m1: "m w fs = (r1, w1, fs1)" by (cases "m w fs") auto
    have step: "case (case r1 of Ok x \<Rightarrow> f x w1 gs | Err e \<Rightarrow> g e w1 gs | Crashed \<Rightarrow> (Crashed, w1, gs)) of
        (Ok x, w', fs') \<Rightarrow> Q (failures fs') x w' | (Err e, w', fs') \<Rightarrow> E (failures fs') e w' | (Crashed, w', _) \<Rightarrow> C w'"
      if gs: "failures gs = failures fs1" for gs
    proof -
      obtain hs where "m w hs = (r1, w1, gs)" "failures hs + failures fs1 = failures fs + failures gs"
        using uniformD [OF assms m1] .
      then show ?thesis
        using l [unfolded wlpf_def, rule_format, of hs] gs fs by (simp add: match_io_def split: res.splits)
    qed
    have "case r1 of Ok x \<Rightarrow> wlpf (failures fs1) (f x) Q E C w1 | Err e \<Rightarrow> wlpf (failures fs1) (g e) Q E C w1 | Crashed \<Rightarrow> C w1"
      using step by (cases r1) (simp_all add: wlpf_def)
    then show "case m w fs of (Ok x, w', fs') \<Rightarrow> wlpf (failures fs') (f x) Q E C w'
        | (Err e, w', fs') \<Rightarrow> wlpf (failures fs') (g e) Q E C w' | (Crashed, w', _) \<Rightarrow> C w'"
      using m1 by (simp split: res.splits)
  qed
qed

lemma wlpf_combinators [wlpf_simps]:
  "uniform m \<Longrightarrow> wlpf n (bind_io m k) Q E C = wlpf n m (\<lambda>i x. wlpf i (k x) Q E C) E C"
  "uniform m' \<Longrightarrow> wlpf n (attempt m') A E C = wlpf n m' (\<lambda>i x. A i (Inr x)) (\<lambda>i e. A i (Inl e)) C"
  "uniform m'' \<Longrightarrow> wlpf n (map_err h m'') Q' E C = wlpf n m'' Q' (\<lambda>i e. E i (h e)) C"
  by (simp_all add: fun_eq_iff bind_io_def attempt_def map_err_def wlpf_match wlpf_returns)

lemma wlpf_prim:
  "wlpf n (prim act part) Q E C w \<longleftrightarrow>
     (0 < n \<longrightarrow> (\<forall>k p. E (n - 1) (fault_error k) (part p w))) \<and> (\<forall>p. C (part p w)) \<and>
     (case act w of (Inl e, w') \<Rightarrow> E n e w' | (Inr x, w') \<Rightarrow> Q n x w')"
    (is "?l \<longleftrightarrow> ?r")
proof
  assume l: ?l
  obtain gs :: "'a fault list" where gs: "failures gs = n" using failures_exist by blast
  have "E (n - 1) (fault_error k) (part p w)" if "0 < n" for k p
    using l [unfolded wlpf_def, rule_format, of "replicate n (Fail k p)"] that by (cases n) (auto simp: prim_def)
  moreover have "C (part p w)" for p
    using l [unfolded wlpf_def, rule_format, of "Crash p # gs"] gs by (simp add: prim_def)
  moreover have "case act w of (Inl e, w') \<Rightarrow> E n e w' | (Inr x, w') \<Rightarrow> Q n x w'"
    using l [unfolded wlpf_def, rule_format, of "NoFault # gs"] gs by (auto simp: prim_def split: prod.splits sum.splits)
  ultimately show ?r by blast
next
  assume r: ?r
  show ?l
    unfolding wlpf_def
  proof (intro allI impI)
    fix fs :: "'a fault list"
    assume "failures fs = n"
    with r show "case prim act part w fs of (Ok x, w', fs') \<Rightarrow> Q (failures fs') x w' | (Err e, w', fs') \<Rightarrow> E (failures fs') e w'
            | (Crashed, w', _) \<Rightarrow> C w'"
      by (auto simp: prim_def split: list.splits fault.splits prod.splits sum.splits)
  qed
qed

lemma wlpf_calls [wlpf_simps]:
  "wlpf n (fs_rename p q) U E C w \<longleftrightarrow> (0 < n \<longrightarrow> (\<forall>k. E (n - 1) (fault_error k) w)) \<and> C w \<and>
     (case map_of (files w) p of None \<Rightarrow> E n NotFound w
      | Some b \<Rightarrow> U n () (w\<lparr>files := AList.update q b (AList.delete p (files w))\<rparr>))"
  "wlpf n (fs_remove_file p) U E C w \<longleftrightarrow> (0 < n \<longrightarrow> (\<forall>k. E (n - 1) (fault_error k) w)) \<and> C w \<and>
     (case map_of (files w) p of None \<Rightarrow> E n NotFound w
      | Some b \<Rightarrow> U n () (w\<lparr>files := AList.delete p (files w)\<rparr>))"
  "wlpf n (fs_write q b) U E C w \<longleftrightarrow> (0 < n \<longrightarrow> (\<forall>k x. E (n - 1) (fault_error k) (write_part q x w))) \<and>
     (\<forall>x. C (write_part q x w)) \<and> U n () (w\<lparr>files := AList.update q b (files w)\<rparr>)"
  "wlpf n (fs_read p) Q E C w \<longleftrightarrow> (0 < n \<longrightarrow> (\<forall>k. E (n - 1) (fault_error k) w)) \<and> C w \<and>
     (case map_of (files w) p of None \<Rightarrow> E n NotFound w | Some b \<Rightarrow> Q n b w)"
  by (auto simp: fs_rename_def fs_remove_file_def fs_write_def fs_read_def wlpf_prim split: option.splits)

lemma wlpf_exists [wlpf_simps]:
  "wlpf n (fs_exists p) B E C w \<longleftrightarrow>
     (0 < n \<longrightarrow> B (n - 1) False w) \<and> C w \<and> B n (map_of (files w) p \<noteq> None) w"
  by (auto simp: fs_exists_def wlpf_simps split: option.splits)

lemma wlpf_mono:
  assumes "wlpf n m Q E C w"
    and "\<And>i x w'. i \<le> n \<Longrightarrow> Q i x w' \<Longrightarrow> Q' i x w'" "\<And>i e w'. i \<le> n \<Longrightarrow> E i e w' \<Longrightarrow> E' i e w'" "\<And>w'. C w' \<Longrightarrow> C' w'"
    and "uniform m"
  shows "wlpf n m Q' E' C' w"
  unfolding wlpf_def
proof (intro allI impI)
  fix fs :: "'a fault list"
  assume fs: "failures fs = n"
  obtain r w' fs' where run: "m w fs = (r, w', fs')" by (cases "m w fs") auto
  have "failures fs' \<le> n" using uniform_failures [OF assms(5) run] fs by simp
  then show "case m w fs of (Ok x, w', fs') \<Rightarrow> Q' (failures fs') x w' | (Err e, w', fs') \<Rightarrow> E' (failures fs') e w'
      | (Crashed, w', _) \<Rightarrow> C' w'"
    using assms(1) [unfolded wlpf_def, rule_format, OF fs] assms(2-4) run by (auto split: res.splits)
qed

text \<open>What holds under every schedule holds under a budget.\<close>

lemma wlp_wlpf: "wlp m Q E C w \<Longrightarrow> wlpf n m (\<lambda>_. Q) (\<lambda>_. E) C w"
  unfolding wlp_def wlpf_def by (fastforce split: prod.splits res.splits)

lemma wlpf_of_wlp:
  assumes "wlp m Q E C w" "uniform m"
    and "\<And>i x w'. i \<le> n \<Longrightarrow> Q x w' \<Longrightarrow> Q' i x w'" "\<And>i e w'. i \<le> n \<Longrightarrow> E e w' \<Longrightarrow> E' i e w'" "\<And>w'. C w' \<Longrightarrow> C' w'"
  shows "wlpf n m Q' E' C' w"
  by (rule wlpf_mono [OF wlp_wlpf [OF assms(1)] assms(3-5,2)])

text \<open>From a budget to a run: the number of calls that failed in it is the failures it consumed.\<close>

lemma wlpf_run:
  assumes "uniform m" "m w fs = (r, w', fs')" "wlpf (failures fs - failures fs') m Q E C w"
  shows "case r of Ok x \<Rightarrow> Q 0 x w' | Err e \<Rightarrow> E 0 e w' | Crashed \<Rightarrow> C w'"
proof -
  obtain hs where hs: "m w hs = (r, w', [])" "failures hs + failures fs' = failures fs + failures ([] :: 'a fault list)"
    using uniformD [OF assms(1,2)] .
  then have "failures hs = failures fs - failures fs'" by simp
  with assms(3) [unfolded wlpf_def, rule_format, of hs] hs(1) show ?thesis by (auto split: res.splits)
qed

section \<open>Footprints\<close>

text \<open>
  A program has footprint \<open>P\<close> when, whatever the host injects, every path outside \<open>P\<close> keeps
  its contents, up to the moment the program ends or dies.
\<close>

abbreviation look :: "'b world \<Rightarrow> path \<Rightarrow> 'b option" where
  "look w \<equiv> map_of (files w)"

definition footprint :: "path set \<Rightarrow> ('b, 'e, 'a) io \<Rightarrow> bool" where
  "footprint P m \<longleftrightarrow> (\<forall>w fs r w' fs' p. m w fs = (r, w', fs') \<longrightarrow> p \<notin> P \<longrightarrow> look w' p = look w p)"

lemma footprintD:
  "footprint P m \<Longrightarrow> m w fs = (r, w', fs') \<Longrightarrow> p \<notin> P \<Longrightarrow> look w' p = look w p"
  unfolding footprint_def by blast

lemma footprint_mono: "footprint P m \<Longrightarrow> P \<subseteq> R \<Longrightarrow> footprint R m"
  unfolding footprint_def by blast

lemma footprint_ret [simp]: "footprint P (ret x)"
  by (simp add: footprint_def ret_def)

lemma footprint_throw [simp]: "footprint P (throw e)"
  by (simp add: footprint_def throw_def)

lemma footprint_emit [simp]: "footprint P (emit ev)"
  by (auto simp: footprint_def emit_def)

lemma footprint_crash_now [simp]: "footprint P crash_now"
  by (auto simp: footprint_def crash_now_def)

lemma footprint_match [simp]:
  assumes "footprint P m" "\<And>x. footprint P (f x)" "\<And>e. footprint P (g e)"
  shows "footprint P (match_io m f g)"
  unfolding footprint_def
proof (intro allI impI)
  fix w fs r w' fs' p
  assume run: "match_io m f g w fs = (r, w', fs')" and p: "p \<notin> P"
  obtain r1 w1 fs1 where m1: "m w fs = (r1, w1, fs1)" by (cases "m w fs") auto
  have "look w1 p = look w p" using footprintD [OF assms(1) m1 p] .
  moreover have "look w' p = look w1 p"
    using run m1 footprintD [OF assms(2) _ p] footprintD [OF assms(3) _ p]
    by (cases r1) (auto simp: match_io_def)
  ultimately show "look w' p = look w p" by simp
qed

lemma footprint_combinators [simp]:
  "footprint P m \<Longrightarrow> (\<And>x. footprint P (k x)) \<Longrightarrow> footprint P (bind_io m k)"
  "footprint P m \<Longrightarrow> footprint P (attempt m)"
  "footprint P m \<Longrightarrow> footprint P (map_err h m)"
  by (simp_all add: bind_io_def attempt_def map_err_def)

lemma footprint_if [simp]:
  "footprint P m \<Longrightarrow> footprint P m' \<Longrightarrow> footprint P (if b then m else m')"
  by simp

lemma footprint_calls [simp]:
  "footprint P (fs_read p)" "footprint P (fs_metadata_len cd p)" "footprint P (fs_exists p)"
  "footprint P (fs_read_dir d)" "footprint P fs_next_entry" "footprint P fs_create_dir_all"
  "p \<in> P \<Longrightarrow> q \<in> P \<Longrightarrow> footprint P (fs_rename p q)"
  "p \<in> P \<Longrightarrow> footprint P (fs_remove_file p)"
  "q \<in> P \<Longrightarrow> footprint P (fs_write q b)"
  "q \<in> P \<Longrightarrow> footprint P (fs_copy p q)"
  by (auto simp: footprint_def fs_read_def fs_metadata_len_def fs_exists_def fs_read_dir_def
      fs_next_entry_def fs_create_dir_all_def fs_rename_def fs_remove_file_def fs_write_def
      fs_copy_def prim_def write_part_def bind_io_def attempt_def match_io_def ret_def throw_def
      split: prod.splits list.splits fault.splits sum.splits option.splits res.splits)

text \<open>
  Well-formed worlds hold one file per path. Every program preserves this, whatever the
  host injects.
\<close>

definition wf_world :: "'b world \<Rightarrow> bool" where
  "wf_world w \<longleftrightarrow> distinct (map fst (files w))"

definition preserves :: "('b world \<Rightarrow> bool) \<Rightarrow> ('b, 'e, 'a) io \<Rightarrow> bool" where
  "preserves I m \<longleftrightarrow> (\<forall>w fs r w' fs'. m w fs = (r, w', fs') \<longrightarrow> I w \<longrightarrow> I w')"

lemma preservesD: "preserves I m \<Longrightarrow> m w fs = (r, w', fs') \<Longrightarrow> I w \<Longrightarrow> I w'"
  unfolding preserves_def by blast

lemma preserves_ret [simp]: "preserves I (ret x)"
  by (simp add: preserves_def ret_def)

lemma preserves_throw [simp]: "preserves I (throw e)"
  by (simp add: preserves_def throw_def)

lemma preserves_crash_now [simp]: "preserves I crash_now"
  by (auto simp: preserves_def crash_now_def)

lemma preserves_match [simp]:
  assumes "preserves I m" "\<And>x. preserves I (f x)" "\<And>e. preserves I (g e)"
  shows "preserves I (match_io m f g)"
  unfolding preserves_def
proof (intro allI impI)
  fix w fs r w' fs'
  assume run: "match_io m f g w fs = (r, w', fs')" and i: "I w"
  obtain r1 w1 fs1 where m1: "m w fs = (r1, w1, fs1)" by (cases "m w fs") auto
  have "I w1" using preservesD [OF assms(1) m1 i] .
  then show "I w'"
    using run m1 preservesD [OF assms(2)] preservesD [OF assms(3)]
    by (cases r1) (auto simp: match_io_def)
qed

lemma preserves_combinators [simp]:
  "preserves I m \<Longrightarrow> (\<And>x. preserves I (k x)) \<Longrightarrow> preserves I (bind_io m k)"
  "preserves I m \<Longrightarrow> preserves I (attempt m)"
  "preserves I m \<Longrightarrow> preserves I (map_err h m)"
  by (simp_all add: bind_io_def attempt_def map_err_def)

lemma wf_emit [simp]: "preserves wf_world (emit ev)"
  by (auto simp: preserves_def emit_def wf_world_def)

lemma wf_prim:
  assumes "\<And>w x w'. act w = (x, w') \<Longrightarrow> wf_world w \<Longrightarrow> wf_world w'"
    and "\<And>p w. wf_world w \<Longrightarrow> wf_world (part p w)"
  shows "preserves wf_world (prim act part)"
  using assms
  by (auto simp: preserves_def prim_def split: prod.splits list.splits fault.splits sum.splits)

lemma wf_calls [simp]:
  "preserves wf_world (fs_read p)" "preserves wf_world (fs_metadata_len cd p)"
  "preserves wf_world (fs_rename p q)" "preserves wf_world (fs_remove_file p)"
  "preserves wf_world (fs_write q b)" "preserves wf_world (fs_copy p q)"
  "preserves wf_world (fs_read_dir d)" "preserves wf_world fs_next_entry"
  "preserves wf_world fs_create_dir_all"
  unfolding fs_read_def fs_metadata_len_def fs_rename_def fs_remove_file_def fs_write_def
    fs_copy_def fs_read_dir_def fs_next_entry_def fs_create_dir_all_def
  by (auto intro!: wf_prim simp: wf_world_def write_part_def distinct_update distinct_delete
      split: option.splits)

lemma wf_exists [simp]: "preserves wf_world (fs_exists p)"
  by (simp add: fs_exists_def)

lemma distinct_listing: "wf_world w \<Longrightarrow> distinct (listing d (files w))"
proof -
  assume "wf_world w"
  then have "inj_on fst (set (files w))" "distinct (files w)"
    by (auto simp: wf_world_def distinct_map)
  then show ?thesis
    by (auto simp: listing_def distinct_map inj_on_def prod_eq_iff)
qed

section \<open>Runs without faults\<close>

lemma run_ret [run_simps]: "ret x w fs = (Ok x, w, fs)"
  by (simp add: ret_def)

lemma run_throw [run_simps]: "throw e w fs = (Err e, w, fs)"
  by (simp add: throw_def)

lemma run_emit [run_simps]: "emit ev w fs = (Ok (), w\<lparr>journal := journal w @ [ev]\<rparr>, fs)"
  by (simp add: emit_def)

lemma run_crash_now [run_simps]: "crash_now w fs = (Crashed, w, fs)"
  by (simp add: crash_now_def)

lemma run_calls [run_simps]:
  "fs_read p w [] = (case map_of (files w) p of None \<Rightarrow> (Err NotFound, w, []) | Some b \<Rightarrow> (Ok b, w, []))"
  "fs_metadata_len cd p w [] =
     (case map_of (files w) p of None \<Rightarrow> (Err NotFound, w, []) | Some b \<Rightarrow> (Ok (blen cd b), w, []))"
  "fs_rename p q w [] =
     (case map_of (files w) p of None \<Rightarrow> (Err NotFound, w, [])
      | Some b \<Rightarrow> (Ok (), w\<lparr>files := AList.update q b (AList.delete p (files w))\<rparr>, []))"
  "fs_remove_file p w [] =
     (case map_of (files w) p of None \<Rightarrow> (Err NotFound, w, [])
      | Some b \<Rightarrow> (Ok (), w\<lparr>files := AList.delete p (files w)\<rparr>, []))"
  "fs_write q b w [] = (Ok (), w\<lparr>files := AList.update q b (files w)\<rparr>, [])"
  "fs_read_dir d w [] = (Ok (listing d (files w)), w, [])"
  "fs_next_entry w [] = (Ok (), w, [])"
  "fs_create_dir_all w [] = (Ok (), w, [])"
  by (simp_all add: fs_read_def fs_metadata_len_def fs_rename_def fs_remove_file_def fs_write_def
      fs_read_dir_def fs_next_entry_def fs_create_dir_all_def prim_def split: option.splits)

lemma run_match [run_simps]:
  "match_io m f g w fs =
     (case m w fs of (Ok x, w', fs') \<Rightarrow> f x w' fs' | (Err e, w', fs') \<Rightarrow> g e w' fs'
      | (Crashed, w', fs') \<Rightarrow> (Crashed, w', fs'))"
  by (simp add: match_io_def)

lemma run_bind [run_simps]:
  "bind_io m k w fs =
     (case m w fs of (Ok x, w', fs') \<Rightarrow> k x w' fs' | (Err e, w', fs') \<Rightarrow> (Err e, w', fs')
      | (Crashed, w', fs') \<Rightarrow> (Crashed, w', fs'))"
  by (simp add: bind_io_def match_io_def throw_def split: prod.splits res.splits)

lemma run_attempt [run_simps]:
  "attempt m w fs =
     (case m w fs of (Ok x, w', fs') \<Rightarrow> (Ok (Inr x), w', fs') | (Err e, w', fs') \<Rightarrow> (Ok (Inl e), w', fs')
      | (Crashed, w', fs') \<Rightarrow> (Crashed, w', fs'))"
  by (simp add: attempt_def match_io_def ret_def split: prod.splits res.splits)

lemma run_map_err [run_simps]:
  "map_err h m w fs =
     (case m w fs of (Ok x, w', fs') \<Rightarrow> (Ok x, w', fs') | (Err e, w', fs') \<Rightarrow> (Err (h e), w', fs')
      | (Crashed, w', fs') \<Rightarrow> (Crashed, w', fs'))"
  by (simp add: map_err_def match_io_def ret_def throw_def split: prod.splits res.splits)

lemma run_exists [run_simps]:
  "fs_exists p w [] = (Ok (map_of (files w) p \<noteq> None), w, [])"
  by (simp add: fs_exists_def run_simps split: option.splits)

section \<open>A concrete codec\<close>

text \<open>
  Contents made of sidecar records and raw recordings of a given length: a model of the
  codec hypotheses, used to evaluate the operations on concrete worlds.
\<close>

datatype blob = Sidecar clip_queue_entry | Bytes nat

definition blob_codec :: "blob codec" where
  "blob_codec = \<lparr> enc = (\<lambda>e. Some (Sidecar e)),
     dec = (\<lambda>b. case b of Sidecar e \<Rightarrow> Some e | Bytes _ \<Rightarrow> None),
     blen = (\<lambda>b. case b of Sidecar _ \<Rightarrow> 300 | Bytes n \<Rightarrow> n) \<rparr>"

lemma blob_codec_ok [simp]: "codec_ok blob_codec"
  by (simp add: codec_ok_def blob_codec_def)

lemma blob_codec_sel [simp]:
  "enc blob_codec e = Some (Sidecar e)" "dec blob_codec (Sidecar e) = Some e"
  "dec blob_codec (Bytes n) = None" "blen blob_codec (Bytes n) = n"
  by (simp_all add: blob_codec_def)

end
