(* ===== verification/Queue_Store.thy ===== *)
theory Queue_Store
  imports Fs
begin

text \<open>
  The directory-of-files queue store, \<^verbatim>\<open>crates/perchstation-core/src/queue/store.rs\<close>: file
  names, sidecar reading and writing, and every operation of \<^verbatim>\<open>QueueStore\<close> as a program of
  theory \<open>Fs\<close>, system call by system call.

  \<open>fmt\<close> stands for chrono's \<^verbatim>\<open>format("%Y%m%dT%H%M%SZ")\<close>, \<open>cd\<close> for the \<^verbatim>\<open>serde_json\<close> codec.
\<close>

section \<open>File names\<close>

definition media_name :: "string \<Rightarrow> string" where
  "media_name cid = cid @ ''.mp4''"

definition media_tmp_name :: "string \<Rightarrow> string" where
  "media_tmp_name cid = cid @ ''.mp4.tmp''"

definition sidecar_name :: "string \<Rightarrow> string" where
  "sidecar_name cid = cid @ ''.json''"

abbreviation dir_path :: "dir \<Rightarrow> path" where
  "dir_path d \<equiv> (d, [])"

abbreviation media_at :: "dir \<Rightarrow> string \<Rightarrow> path" where
  "media_at d cid \<equiv> (d, media_name cid)"

abbreviation sidecar_at :: "dir \<Rightarrow> string \<Rightarrow> path" where
  "sidecar_at d cid \<equiv> (d, sidecar_name cid)"

section \<open>Helpers\<close>

fun io_to_queue_err :: "io_error \<Rightarrow> path \<Rightarrow> queue_error" where
  "io_to_queue_err StorageFull p = DiskFull p"
| "io_to_queue_err e p = Io p e"

definition write_sidecar_atomic ::
  "'b codec \<Rightarrow> path \<Rightarrow> clip_queue_entry \<Rightarrow> ('b, queue_error, unit) io" where
  "write_sidecar_atomic cd target e =
     (let tmp = (fst target, with_extension (snd target) ''json.tmp'') in
      case enc cd e of
        None \<Rightarrow> throw Serialise
      | Some bytes \<Rightarrow>
          bind_io (map_err (\<lambda>x. io_to_queue_err x tmp) (fs_write tmp bytes)) (\<lambda>_.
          map_err (\<lambda>x. io_to_queue_err x target) (fs_rename tmp target)))"

definition remove_if_exists :: "path \<Rightarrow> ('b, queue_error, unit) io" where
  "remove_if_exists p =
     match_io (fs_remove_file p) ret (\<lambda>x. if x = NotFound then ret () else throw (Io p x))"

definition read_sidecar :: "'b codec \<Rightarrow> path \<Rightarrow> ('b, queue_error, clip_queue_entry) io" where
  "read_sidecar cd p =
     bind_io (map_err (Io p) (fs_read p)) (\<lambda>bytes.
     case dec cd bytes of None \<Rightarrow> throw (Deserialise p) | Some e \<Rightarrow> ret e)"

text \<open>
  The loop every scan starts with: walk the directory iterator and keep the names that
  satisfy a test; an iterator error aborts the scan.
\<close>

fun scan_names :: "dir \<Rightarrow> (string \<Rightarrow> bool) \<Rightarrow> string list \<Rightarrow> ('b, queue_error, string list) io" where
  "scan_names d P [] = ret []"
| "scan_names d P (n # ns) =
     bind_io (map_err (Io (dir_path d)) fs_next_entry) (\<lambda>_.
     bind_io (scan_names d P ns) (\<lambda>rest. ret (if P n then n # rest else rest)))"

definition list_sidecars :: "dir \<Rightarrow> ('b, queue_error, string list) io" where
  "list_sidecars d =
     bind_io (map_err (Io (dir_path d)) (fs_read_dir d)) (scan_names d (has_ext ''json''))"

section \<open>Opening the store\<close>

fun create_dirs :: "dir list \<Rightarrow> ('b, queue_error, unit) io" where
  "create_dirs [] = ret ()"
| "create_dirs (d # ds) =
     bind_io (map_err (Io (dir_path d)) fs_create_dir_all) (\<lambda>_. create_dirs ds)"

definition open_store :: "('b, queue_error, unit) io" where
  "open_store = create_dirs [PendingDir, InflightDir, DeliveredDir, CorruptDir]"

section \<open>Clip ids and enqueue\<close>

text \<open>\<^verbatim>\<open>format!("{seq:03}")\<close>: decimal digits, zero-padded to a width of at least three.\<close>

definition digit_char :: "nat \<Rightarrow> char" where
  "digit_char n = char_of (48 + n)"

fun show_nat :: "nat \<Rightarrow> string" where
  "show_nat n = (if n < 10 then [digit_char n] else show_nat (n div 10) @ [digit_char (n mod 10)])"

declare show_nat.simps [simp del]

definition pad3 :: "nat \<Rightarrow> string" where
  "pad3 n = replicate (3 - length (show_nat n)) CHR ''0'' @ show_nat n"

definition next_clip_id :: "(instant \<Rightarrow> string) \<Rightarrow> instant \<Rightarrow> ('b, 'e, string) io" where
  "next_clip_id fmt cap w fs =
     (Ok (fmt cap @ ''-'' @ pad3 (seq w)), w\<lparr>seq := wrap_u32 (seq w + 1)\<rparr>, fs)"

definition enqueue_with_id ::
  "'b codec \<Rightarrow> string \<Rightarrow> path \<Rightarrow> instant \<Rightarrow> instant \<Rightarrow> ('b, queue_error, clip_queue_entry) io" where
  "enqueue_with_id cd cid src cap now =
     bind_io (map_err (Io src) (fs_metadata_len cd src)) (\<lambda>len.
     let mp4_target = media_at PendingDir cid; mp4_tmp = (PendingDir, media_tmp_name cid) in
     bind_io
       (match_io (fs_rename src mp4_target) ret (\<lambda>_.
          bind_io (map_err (Io mp4_tmp) (fs_copy src mp4_tmp)) (\<lambda>_.
          bind_io (map_err (Io mp4_target) (fs_rename mp4_tmp mp4_target)) (\<lambda>_.
          bind_io (attempt (fs_remove_file src)) (\<lambda>_. ret ()))))) (\<lambda>_.
     let entry = new_entry cid cap now len in
     match_io (write_sidecar_atomic cd (sidecar_at PendingDir cid) entry)
       (\<lambda>_. ret entry)
       (\<lambda>err. bind_io (attempt (fs_remove_file mp4_target)) (\<lambda>_. throw err))))"

definition enqueue ::
  "'b codec \<Rightarrow> (instant \<Rightarrow> string) \<Rightarrow> path \<Rightarrow> instant \<Rightarrow> instant \<Rightarrow> ('b, queue_error, clip_queue_entry) io" where
  "enqueue cd fmt src cap now =
     bind_io (next_clip_id fmt cap) (\<lambda>cid. enqueue_with_id cd cid src cap now)"

section \<open>Quarantine\<close>

definition quarantine_corrupt :: "path \<Rightarrow> ('b, queue_error, unit) io" where
  "quarantine_corrupt sc =
     bind_io (map_err (Io (dir_path CorruptDir)) fs_create_dir_all) (\<lambda>_.
     bind_io (map_err (Io (CorruptDir, snd sc)) (fs_rename sc (CorruptDir, snd sc))) (\<lambda>_.
     let mp4 = (fst sc, with_extension (snd sc) ''mp4'') in
     bind_io (fs_exists mp4) (\<lambda>there.
     if there then bind_io (attempt (fs_rename mp4 (CorruptDir, snd mp4))) (\<lambda>_. ret ())
     else ret ())))"

definition quarantine_orphan :: "string \<Rightarrow> ('b, queue_error, unit) io" where
  "quarantine_orphan cid =
     bind_io (remove_if_exists (sidecar_at PendingDir cid)) (\<lambda>_.
     remove_if_exists (media_at PendingDir cid))"

section \<open>Picking the next clip\<close>

definition in_backoff :: "instant \<Rightarrow> clip_queue_entry \<Rightarrow> bool" where
  "in_backoff now e \<longleftrightarrow> (case next_attempt_after e of None \<Rightarrow> False | Some t \<Rightarrow> now < t)"

fun pick_loop :: "'b codec \<Rightarrow> instant \<Rightarrow> string list \<Rightarrow> ('b, queue_error, clip_queue_entry option) io" where
  "pick_loop cd now [] = ret None"
| "pick_loop cd now (n # ns) =
     match_io (read_sidecar cd (PendingDir, n))
       (\<lambda>e. if in_backoff now e then pick_loop cd now ns else ret (Some e))
       (\<lambda>err. case err of
          Deserialise p \<Rightarrow>
            bind_io (emit (QueueEv (QueueCorruptSidecar (PendingDir, n)))) (\<lambda>_.
            match_io (quarantine_corrupt (PendingDir, n))
              (\<lambda>_. pick_loop cd now ns)
              (\<lambda>_. bind_io (emit (Warn ''failed to quarantine corrupt pending sidecar'')) (\<lambda>_.
                   pick_loop cd now ns)))
        | _ \<Rightarrow>
            bind_io (emit (Warn ''skipping unreadable pending sidecar'')) (\<lambda>_. pick_loop cd now ns))"

definition pick_oldest_pending ::
  "'b codec \<Rightarrow> instant \<Rightarrow> ('b, queue_error, clip_queue_entry option) io" where
  "pick_oldest_pending cd now =
     bind_io (list_sidecars PendingDir) (\<lambda>names. pick_loop cd now (sort names))"

section \<open>Transitions\<close>

definition mark_attempt :: "instant \<Rightarrow> clip_queue_entry \<Rightarrow> clip_queue_entry" where
  "mark_attempt now e =
     e\<lparr>attempts := sat_add u32_max (attempts e) 1,
       first_attempt_at := (case first_attempt_at e of None \<Rightarrow> Some now | Some t \<Rightarrow> Some t),
       last_attempt_at := Some now,
       next_attempt_after := None,
       last_err := None\<rparr>"

definition transition_inflight ::
  "'b codec \<Rightarrow> clip_queue_entry \<Rightarrow> instant \<Rightarrow> ('b, queue_error, clip_queue_entry) io" where
  "transition_inflight cd e now =
     (let cid = clip_id e;
          pending_mp4 = media_at PendingDir cid; pending_sidecar = sidecar_at PendingDir cid;
          inflight_mp4 = media_at InflightDir cid; inflight_sidecar = sidecar_at InflightDir cid;
          updated = mark_attempt now e in
      bind_io
        (match_io (fs_rename pending_mp4 inflight_mp4) ret
           (\<lambda>x. if x = NotFound then throw (MissingMedia cid) else throw (Io inflight_mp4 x))) (\<lambda>_.
      bind_io
        (match_io (write_sidecar_atomic cd inflight_sidecar updated) ret
           (\<lambda>err. bind_io (attempt (fs_rename inflight_mp4 pending_mp4)) (\<lambda>_. throw err))) (\<lambda>_.
      bind_io (remove_if_exists pending_sidecar) (\<lambda>_. ret updated))))"

definition update_delivered_sidecar ::
  "'b codec \<Rightarrow> clip_queue_entry \<Rightarrow> ('b, queue_error, unit) io" where
  "update_delivered_sidecar cd e = write_sidecar_atomic cd (sidecar_at DeliveredDir (clip_id e)) e"

definition transition_back_to_pending ::
  "'b codec \<Rightarrow> clip_queue_entry \<Rightarrow> ('b, queue_error, unit) io" where
  "transition_back_to_pending cd e =
     (let cid = clip_id e;
          inflight_mp4 = media_at InflightDir cid; inflight_sidecar = sidecar_at InflightDir cid;
          pending_mp4 = media_at PendingDir cid; pending_sidecar = sidecar_at PendingDir cid in
      bind_io (fs_exists inflight_mp4) (\<lambda>there.
      bind_io
        (if there then map_err (Io pending_mp4) (fs_rename inflight_mp4 pending_mp4) else ret ()) (\<lambda>_.
      bind_io (write_sidecar_atomic cd pending_sidecar e) (\<lambda>_.
      remove_if_exists inflight_sidecar))))"

definition transition_delivered ::
  "'b codec \<Rightarrow> clip_queue_entry \<Rightarrow> ('b, queue_error, unit) io" where
  "transition_delivered cd e =
     (let cid = clip_id e;
          inflight_mp4 = media_at InflightDir cid; inflight_sidecar = sidecar_at InflightDir cid;
          delivered_sidecar = sidecar_at DeliveredDir cid in
      bind_io (write_sidecar_atomic cd inflight_sidecar e) (\<lambda>_.
      bind_io (remove_if_exists inflight_mp4) (\<lambda>_.
      map_err (Io delivered_sidecar) (fs_rename inflight_sidecar delivered_sidecar))))"

section \<open>Boot reconciliation\<close>

fun sweep_loop :: "dir \<Rightarrow> string list \<Rightarrow> ('b, queue_error, unit) io" where
  "sweep_loop d [] = ret ()"
| "sweep_loop d (n # ns) =
     bind_io (map_err (Io (dir_path d)) fs_next_entry) (\<lambda>_.
     if has_ext ''mp4'' n then
       bind_io (fs_exists (d, with_extension n ''json'')) (\<lambda>there.
       if there then sweep_loop d ns
       else bind_io (emit (QueueEv (QueueOrphanMedia (d, n)))) (\<lambda>_.
            bind_io (remove_if_exists (d, n)) (\<lambda>_. sweep_loop d ns)))
     else sweep_loop d ns)"

definition sweep_orphan_media :: "dir \<Rightarrow> ('b, queue_error, unit) io" where
  "sweep_orphan_media d = bind_io (map_err (Io (dir_path d)) (fs_read_dir d)) (sweep_loop d)"

fun reconcile_loop ::
  "'b codec \<Rightarrow> string list \<Rightarrow> ('b, queue_error, clip_queue_entry list) io" where
  "reconcile_loop cd [] = ret []"
| "reconcile_loop cd (n # ns) =
     bind_io (read_sidecar cd (InflightDir, n)) (\<lambda>e.
     if is_terminal e then
       bind_io (transition_delivered cd e) (\<lambda>_. reconcile_loop cd ns)
     else
       (let e' = e\<lparr>next_attempt_after := None, last_err := None\<rparr> in
        bind_io (transition_back_to_pending cd e') (\<lambda>_.
        bind_io (reconcile_loop cd ns) (\<lambda>rest. ret (e' # rest)))))"

definition reconcile_inflight :: "'b codec \<Rightarrow> ('b, queue_error, clip_queue_entry list) io" where
  "reconcile_inflight cd =
     bind_io (sweep_orphan_media PendingDir) (\<lambda>_.
     bind_io (sweep_orphan_media InflightDir) (\<lambda>_.
     bind_io (list_sidecars InflightDir) (\<lambda>names. reconcile_loop cd (sort names))))"

lemmas store_exec [exec_simps] =
  media_name_def media_tmp_name_def sidecar_name_def write_sidecar_atomic_def remove_if_exists_def
  read_sidecar_def list_sidecars_def enqueue_with_id_def quarantine_corrupt_def quarantine_orphan_def
  in_backoff_def pick_oldest_pending_def transition_inflight_def transition_back_to_pending_def
  transition_delivered_def update_delivered_sidecar_def sweep_orphan_media_def reconcile_inflight_def
  Let_def

section \<open>Lemmas on file names\<close>

abbreviation sidecar_tmp_name :: "string \<Rightarrow> string" where
  "sidecar_tmp_name cid \<equiv> cid @ ''.json.tmp''"

lemma names_inj [simp]:
  "media_name a = media_name b \<longleftrightarrow> a = b"
  "sidecar_name a = sidecar_name b \<longleftrightarrow> a = b"
  "media_tmp_name a = media_tmp_name b \<longleftrightarrow> a = b"
  by (simp_all add: media_name_def sidecar_name_def media_tmp_name_def)

lemma last_of_names:
  "last (media_name a) = CHR ''4''" "last (sidecar_name a) = CHR ''n''"
  "last (media_tmp_name a) = CHR ''p''" "last (sidecar_tmp_name a) = CHR ''p''"
  "last (rev (tl (rev (media_tmp_name a)))) = CHR ''m''"
  by (simp_all add: media_name_def sidecar_name_def media_tmp_name_def)

lemma tmp_names_neq: "media_tmp_name a \<noteq> sidecar_tmp_name b"
proof
  assume "media_tmp_name a = sidecar_tmp_name b"
  then have "rev (media_tmp_name a) ! 4 = rev (sidecar_tmp_name b) ! 4" by simp
  then show False by (simp add: media_tmp_name_def)
qed

lemma names_neq [simp]:
  "media_name a \<noteq> sidecar_name b" "sidecar_name b \<noteq> media_name a"
  "media_name a \<noteq> media_tmp_name b" "media_tmp_name b \<noteq> media_name a"
  "sidecar_name a \<noteq> media_tmp_name b" "media_tmp_name b \<noteq> sidecar_name a"
  "media_name a \<noteq> sidecar_tmp_name b" "sidecar_tmp_name b \<noteq> media_name a"
  "sidecar_name a \<noteq> sidecar_tmp_name b" "sidecar_tmp_name b \<noteq> sidecar_name a"
  "media_tmp_name a \<noteq> sidecar_tmp_name b" "sidecar_tmp_name b \<noteq> media_tmp_name a"
  using last_of_names [of a] last_of_names [of b] tmp_names_neq [of a b]
  by (force, force, force, force, force, force, force, force, force, force, force, force)

lemma with_extension_names [simp]:
  "cid \<noteq> [] \<Longrightarrow> with_extension (sidecar_name cid) ''json.tmp'' = sidecar_tmp_name cid"
  "cid \<noteq> [] \<Longrightarrow> with_extension (sidecar_name cid) ''mp4'' = media_name cid"
  "cid \<noteq> [] \<Longrightarrow> with_extension (media_name cid) ''json'' = sidecar_name cid"
  using file_stem_append [of "''json''" cid] file_stem_append [of "''mp4''" cid]
  by (simp_all add: with_extension_def sidecar_name_def media_name_def)

lemma extension_names [simp]:
  "cid \<noteq> [] \<Longrightarrow> extension (sidecar_name cid) = Some ''json''"
  "cid \<noteq> [] \<Longrightarrow> extension (media_name cid) = Some ''mp4''"
  "extension (media_tmp_name cid) = Some ''tmp''"
  "extension (sidecar_tmp_name cid) = Some ''tmp''"
  using extension_append [of "''json''" cid] extension_append [of "''mp4''" cid]
    extension_append [of "''tmp''" "cid @ ''.mp4''"] extension_append [of "''tmp''" "cid @ ''.json''"]
  by (simp_all add: sidecar_name_def media_name_def media_tmp_name_def)

lemma has_ext_json_iff: "has_ext ''json'' n \<longleftrightarrow> (\<exists>cid. cid \<noteq> [] \<and> n = sidecar_name cid)"
  by (simp add: has_ext_iff sidecar_name_def)

lemma has_ext_mp4_iff: "has_ext ''mp4'' n \<longleftrightarrow> (\<exists>cid. cid \<noteq> [] \<and> n = media_name cid)"
  by (simp add: has_ext_iff media_name_def)

section \<open>Every operation consumes its schedule uniformly\<close>

lemma uniform_helpers [simp]:
  "uniform (write_sidecar_atomic cd t e)" "uniform (remove_if_exists p)" "uniform (read_sidecar cd p)"
  "uniform (quarantine_corrupt t)" "uniform (quarantine_orphan cid)"
  by (auto simp: write_sidecar_atomic_def remove_if_exists_def read_sidecar_def Let_def
      quarantine_corrupt_def quarantine_orphan_def split: option.split)

lemma uniform_next_clip_id [simp]: "uniform (next_clip_id fmt cap)"
  by (auto simp: uniform_def next_clip_id_def)

lemma uniform_scan_names [simp]: "uniform (scan_names d P ns)"
  by (induction ns) auto

lemma uniform_list_sidecars [simp]: "uniform (list_sidecars d)"
  by (simp add: list_sidecars_def)

lemma uniform_pick_loop [simp]: "uniform (pick_loop cd now ns)"
  by (induction ns) (auto split: queue_error.split)

lemma uniform_sweep_loop [simp]: "uniform (sweep_loop d ns)"
  by (induction ns) auto

lemma uniform_transitions [simp]:
  "uniform (transition_inflight cd e now)" "uniform (transition_back_to_pending cd e)"
  "uniform (transition_delivered cd e)" "uniform (update_delivered_sidecar cd e)"
  by (auto simp: transition_inflight_def transition_back_to_pending_def transition_delivered_def
      update_delivered_sidecar_def Let_def)

lemma uniform_reconcile_loop [simp]: "uniform (reconcile_loop cd ns)"
  by (induction ns) (auto simp: Let_def)

lemma uniform_store [simp]:
  "uniform (enqueue_with_id cd cid src cap now)" "uniform (enqueue cd fmt src cap now)"
  "uniform (pick_oldest_pending cd now)" "uniform (sweep_orphan_media d)" "uniform (reconcile_inflight cd)"
  by (simp_all add: enqueue_with_id_def enqueue_def pick_oldest_pending_def sweep_orphan_media_def
      reconcile_inflight_def Let_def)

end
