(* ===== verification/Queue_Crash.thy ===== *)
theory Queue_Crash
  imports Queue_Store
begin

text \<open>
  Correctness of the queue store under faults. Every operation of \<^verbatim>\<open>QueueStore\<close> on one clip
  touches only the files of that clip (locale \<open>clip_op\<close>); the transitions of a clip between
  the directories neither lose nor duplicate its recording at any point at which the
  process may die; boot reconciliation brings an interrupted clip back to a stable phase,
  with the one exception stated at the end.
\<close>

section \<open>The files of a clip\<close>

definition clip_names :: "string \<Rightarrow> string set" where
  "clip_names cid = {media_name cid, sidecar_name cid, media_tmp_name cid,
     with_extension (sidecar_name cid) ''json.tmp''}"

definition clip_paths :: "string \<Rightarrow> path set" where
  "clip_paths cid = {p. snd p \<in> clip_names cid}"

lemma with_extension_tmp_neq [simp]:
  "media_name a \<noteq> with_extension n ''json.tmp''" "sidecar_name a \<noteq> with_extension n ''json.tmp''"
  "with_extension n ''json.tmp'' \<noteq> media_name a" "with_extension n ''json.tmp'' \<noteq> sidecar_name a"
proof -
  have l: "last (with_extension n ''json.tmp'') = CHR ''p''" by (simp add: with_extension_def)
  have "last (with_extension n ''json.tmp'') \<noteq> last (media_name a)"
    "last (with_extension n ''json.tmp'') \<noteq> last (sidecar_name a)"
    unfolding l last_of_names by simp_all
  then show "media_name a \<noteq> with_extension n ''json.tmp''" "sidecar_name a \<noteq> with_extension n ''json.tmp''"
    "with_extension n ''json.tmp'' \<noteq> media_name a" "with_extension n ''json.tmp'' \<noteq> sidecar_name a"
    by metis+
qed

lemma other_clip_paths [simp]:
  "media_at d cid' \<in> clip_paths cid \<longleftrightarrow> cid' = cid"
  "sidecar_at d cid' \<in> clip_paths cid \<longleftrightarrow> cid' = cid"
  by (auto simp: clip_paths_def clip_names_def)

lemma own_tmp_paths [simp]:
  "(d, with_extension (sidecar_name cid) ''json.tmp'') \<in> clip_paths cid"
  "(d, media_tmp_name cid) \<in> clip_paths cid"
  by (auto simp: clip_paths_def clip_names_def)

section \<open>Operations on one clip\<close>

text \<open>
  The contract of an operation on one clip: whatever faults the host injects, and also when
  the process dies inside it, only files of that clip change, and the directory tree stays
  well formed.
\<close>

locale clip_op =
  fixes cid :: string and m :: "('b, queue_error, 'a) io"
  assumes own_files: "footprint (clip_paths cid) m"
    and keeps_wf: "preserves wf_world m"
begin

lemma other_clips_kept:
  assumes "m w fs = (r, w', fs')" "cid' \<noteq> cid"
  shows "look w' (media_at d cid') = look w (media_at d cid')"
    "look w' (sidecar_at d cid') = look w (sidecar_at d cid')"
  using assms footprintD [OF own_files assms(1)] by simp_all

lemma foreign_files_kept:
  "m w fs = (r, w', fs') \<Longrightarrow> p \<notin> clip_paths cid \<Longrightarrow> look w' p = look w p"
  using own_files by (rule footprintD)

lemma wf_after: "m w fs = (r, w', fs') \<Longrightarrow> wf_world w \<Longrightarrow> wf_world w'"
  using keeps_wf by (rule preservesD)

end

lemma footprint_write_sidecar [simp]:
  "footprint (clip_paths cid) (write_sidecar_atomic cd (sidecar_at d cid) e)"
  by (auto simp: write_sidecar_atomic_def Let_def split: option.split)

lemma wf_write_sidecar [simp]: "preserves wf_world (write_sidecar_atomic cd t e)"
  by (auto simp: write_sidecar_atomic_def Let_def split: option.split)

lemma footprint_remove_if_exists [simp]: "p \<in> P \<Longrightarrow> footprint P (remove_if_exists p)"
  by (auto simp: remove_if_exists_def)

lemma wf_remove_if_exists [simp]: "preserves wf_world (remove_if_exists p)"
  by (auto simp: remove_if_exists_def)

lemma footprint_read_sidecar [simp]: "footprint P (read_sidecar cd p)"
  by (auto simp: read_sidecar_def split: option.split)

lemma wf_read_sidecar [simp]: "preserves wf_world (read_sidecar cd p)"
  by (auto simp: read_sidecar_def split: option.split)

interpretation inflight_op: clip_op "clip_id e" "transition_inflight cd e now" for cd e now
  by unfold_locales (auto simp: transition_inflight_def Let_def)

interpretation pending_op: clip_op "clip_id e" "transition_back_to_pending cd e" for cd e
  by unfold_locales (auto simp: transition_back_to_pending_def Let_def)

interpretation delivered_op: clip_op "clip_id e" "transition_delivered cd e" for cd e
  by unfold_locales (auto simp: transition_delivered_def Let_def)

interpretation update_op: clip_op "clip_id e" "update_delivered_sidecar cd e" for cd e
  by unfold_locales (auto simp: update_delivered_sidecar_def)

interpretation orphan_op: clip_op cid "quarantine_orphan cid" for cid
  by unfold_locales (auto simp: quarantine_orphan_def)

lemma quarantine_corrupt_clip:
  "cid \<noteq> [] \<Longrightarrow> clip_op cid (quarantine_corrupt (sidecar_at d cid))"
  by unfold_locales (auto simp: quarantine_corrupt_def Let_def)

lemma enqueue_with_id_footprint:
  "footprint (insert src (clip_paths cid)) (enqueue_with_id cd cid src cap now)"
proof -
  have "footprint (insert src (clip_paths cid)) (write_sidecar_atomic cd (sidecar_at d cid) e)" for d e
    by (rule footprint_mono [OF footprint_write_sidecar]) auto
  then show ?thesis by (auto simp: enqueue_with_id_def Let_def)
qed

section \<open>The life of a clip\<close>

text \<open>
  The abstract state of a clip: waiting for an attempt with its sidecar and recording, in
  flight, done with a terminal record only, or anything else (\<open>Torn\<close>: files of two phases at
  once, a missing half, an unreadable sidecar).
\<close>

datatype 'b phase = Waiting clip_queue_entry 'b | Flying clip_queue_entry 'b | Done clip_queue_entry | Torn

definition phase_of :: "'b codec \<Rightarrow> string \<Rightarrow> 'b world \<Rightarrow> 'b phase" where
  "phase_of cd cid w =
     (case (look w (media_at PendingDir cid), map_option (dec cd) (look w (sidecar_at PendingDir cid)),
            look w (media_at InflightDir cid), map_option (dec cd) (look w (sidecar_at InflightDir cid)),
            map_option (dec cd) (look w (sidecar_at DeliveredDir cid))) of
        (Some m, Some (Some e), None, None, None) \<Rightarrow> Waiting e m
      | (None, None, Some m, Some (Some e), None) \<Rightarrow> Flying e m
      | (None, None, None, None, Some (Some e)) \<Rightarrow> Done e
      | _ \<Rightarrow> Torn)"

lemma phase_of_Waiting:
  "phase_of cd cid w = Waiting e m \<longleftrightarrow>
     look w (media_at PendingDir cid) = Some m \<and>
     (\<exists>b. look w (sidecar_at PendingDir cid) = Some b \<and> dec cd b = Some e) \<and>
     look w (media_at InflightDir cid) = None \<and> look w (sidecar_at InflightDir cid) = None \<and>
     look w (sidecar_at DeliveredDir cid) = None"
  by (auto simp: phase_of_def split: option.splits)

lemma phase_of_Flying:
  "phase_of cd cid w = Flying e m \<longleftrightarrow>
     look w (media_at InflightDir cid) = Some m \<and>
     (\<exists>b. look w (sidecar_at InflightDir cid) = Some b \<and> dec cd b = Some e) \<and>
     look w (media_at PendingDir cid) = None \<and> look w (sidecar_at PendingDir cid) = None \<and>
     look w (sidecar_at DeliveredDir cid) = None"
  by (auto simp: phase_of_def split: option.splits)

lemma phase_of_Done:
  "phase_of cd cid w = Done e \<longleftrightarrow>
     (\<exists>b. look w (sidecar_at DeliveredDir cid) = Some b \<and> dec cd b = Some e) \<and>
     look w (media_at InflightDir cid) = None \<and> look w (sidecar_at InflightDir cid) = None \<and>
     look w (media_at PendingDir cid) = None \<and> look w (sidecar_at PendingDir cid) = None"
  by (auto simp: phase_of_def split: option.splits)

lemmas phase_simps = phase_of_Waiting phase_of_Flying phase_of_Done

lemma mark_attempt_clip_id [simp]: "clip_id (mark_attempt now e) = clip_id e"
  by (simp add: mark_attempt_def)

lemma codec_enc: "codec_ok cd \<Longrightarrow> \<exists>b. enc cd e = Some b \<and> dec cd b = Some e"
  unfolding codec_ok_def by blast

subsection \<open>Weakest preconditions of the helpers\<close>

lemma look_write_part [simp]:
  "look (write_part q x w) p = (if p = q \<and> x \<noteq> None then x else look w p)"
  by (auto simp: write_part_def split: option.splits)

lemma write_part_other [simp]:
  "seq (write_part q x w) = seq w" "journal (write_part q x w) = journal w"
  by (auto simp: write_part_def split: option.splits)

lemma io_to_queue_err_kind [simp]:
  "io_to_queue_err x p \<noteq> MissingMedia cid" "MissingMedia cid \<noteq> io_to_queue_err x p"
  "io_to_queue_err x p \<noteq> Serialise" "io_to_queue_err x p \<noteq> Deserialise q"
  by (cases x; simp)+

lemma wlp_write_sidecar [wlp_simps]:
  "wlp (write_sidecar_atomic cd (d, n) e) Q E C w \<longleftrightarrow>
    (let tmp = (d, with_extension n ''json.tmp'') in
     case enc cd e of
       None \<Rightarrow> E Serialise w
     | Some b \<Rightarrow>
         (\<forall>k x. E (io_to_queue_err (fault_error k) tmp) (write_part tmp x w)) \<and>
         (\<forall>x. C (write_part tmp x w)) \<and>
         (\<forall>k. E (io_to_queue_err (fault_error k) (d, n)) (write_part tmp (Some b) w)) \<and>
         C (write_part tmp (Some b) w) \<and>
         Q () (w\<lparr>files := AList.update (d, n) b (AList.delete tmp (AList.update tmp b (files w)))\<rparr>))"
  by (auto simp: write_sidecar_atomic_def Let_def wlp_simps write_part_def split: option.split)

lemma wlp_remove_if_exists [wlp_simps]:
  "wlp (remove_if_exists p) Q E C w \<longleftrightarrow>
     (\<forall>k. E (Io p (fault_error k)) w) \<and> C w \<and>
     (case look w p of None \<Rightarrow> Q () w | Some b \<Rightarrow> Q () (w\<lparr>files := AList.delete p (files w)\<rparr>))"
  by (auto simp: remove_if_exists_def wlp_simps wlp_match split: option.splits)

lemma wlp_read_sidecar [wlp_simps]:
  "wlp (read_sidecar cd p) Q E C w \<longleftrightarrow>
     (\<forall>k. E (Io p (fault_error k)) w) \<and> C w \<and>
     (case look w p of None \<Rightarrow> E (Io p NotFound) w
      | Some b \<Rightarrow> (case dec cd b of None \<Rightarrow> E (Deserialise p) w | Some e \<Rightarrow> Q e w))"
  by (auto simp: read_sidecar_def wlp_simps split: option.splits)

subsection \<open>Transitions under faults\<close>

text \<open>
  The recording of a clip is in exactly one of \<open>pending/\<close> and \<open>inflight/\<close>, with the contents
  \<open>m\<close>.
\<close>

definition media_once :: "string \<Rightarrow> 'b \<Rightarrow> 'b world \<Rightarrow> bool" where
  "media_once cid m w \<longleftrightarrow>
     (look w (media_at PendingDir cid) = Some m \<and> look w (media_at InflightDir cid) = None) \<or>
     (look w (media_at PendingDir cid) = None \<and> look w (media_at InflightDir cid) = Some m)"

lemma transition_inflight_wlp:
  assumes "codec_ok cd" "phase_of cd (clip_id e) w = Waiting e0 m"
  shows "wlp (transition_inflight cd e now)
     (\<lambda>u w'. u = mark_attempt now e \<and> phase_of cd (clip_id e) w' = Flying u m)
     (\<lambda>err w'. media_once (clip_id e) m w' \<and> err \<noteq> MissingMedia (clip_id e))
     (\<lambda>w'. media_once (clip_id e) m w') w"
  using assms(2) codec_enc [OF assms(1), of "mark_attempt now e"] unfolding phase_simps
  by (auto simp: transition_inflight_def Let_def wlp_simps wlp_match media_once_def split: option.splits)

lemma transition_back_to_pending_wlp:
  assumes "codec_ok cd" "phase_of cd (clip_id e) w = Flying e0 m"
  shows "wlp (transition_back_to_pending cd e)
     (\<lambda>_ w'. phase_of cd (clip_id e) w' = Waiting e m
        \<or> look w' (media_at InflightDir (clip_id e)) = Some m)
     (\<lambda>_ w'. media_once (clip_id e) m w')
     (\<lambda>w'. media_once (clip_id e) m w') w"
  using assms(2) codec_enc [OF assms(1), of "e"] unfolding phase_simps
  by (auto simp: transition_back_to_pending_def Let_def wlp_simps media_once_def split: option.splits)

lemma transition_delivered_wlp:
  assumes "codec_ok cd" "phase_of cd (clip_id e) w = Flying e0 m"
  shows "wlp (transition_delivered cd e)
     (\<lambda>_ w'. phase_of cd (clip_id e) w' = Done e)
     (\<lambda>_ w'. phase_of cd (clip_id e) w' \<in> {Flying e0 m, Flying e m}
        \<or> (\<exists>b. look w' (sidecar_at InflightDir (clip_id e)) = Some b \<and> dec cd b = Some e))
     (\<lambda>w'. phase_of cd (clip_id e) w' \<in> {Flying e0 m, Flying e m}
        \<or> (\<exists>b. look w' (sidecar_at InflightDir (clip_id e)) = Some b \<and> dec cd b = Some e)) w"
  using assms(2) codec_enc [OF assms(1), of "e"] unfolding phase_simps
  by (auto simp: transition_delivered_def Let_def wlp_simps phase_simps split: option.splits)

section \<open>Runs without faults\<close>

lemma run_write_sidecar [run_simps]:
  "enc cd e = Some b \<Longrightarrow>
   write_sidecar_atomic cd (d, n) e w [] =
     (Ok (), w\<lparr>files := AList.update (d, n) b (AList.delete (d, with_extension n ''json.tmp'')
        (AList.update (d, with_extension n ''json.tmp'') b (files w)))\<rparr>, [])"
  by (simp add: write_sidecar_atomic_def Let_def run_simps)

lemma run_remove_if_exists [run_simps]:
  "remove_if_exists p w [] = (Ok (), w\<lparr>files := AList.delete p (files w)\<rparr>, [])"
  by (auto simp: remove_if_exists_def run_simps delete_idem dom_map_of_conv_image_fst [symmetric]
      domIff split: option.splits)

lemma run_read_sidecar [run_simps]:
  "read_sidecar cd p w [] =
     (case look w p of None \<Rightarrow> (Err (Io p NotFound), w, [])
      | Some b \<Rightarrow> (case dec cd b of None \<Rightarrow> (Err (Deserialise p), w, []) | Some e \<Rightarrow> (Ok e, w, [])))"
  by (simp add: read_sidecar_def run_simps split: option.splits)

lemma run_scan_names [run_simps]: "scan_names d P ns w [] = (Ok (filter P ns), w, [])"
  by (induction ns) (simp_all add: run_simps)

lemma run_list_sidecars [run_simps]:
  "list_sidecars d w [] = (Ok (filter (has_ext ''json'') (listing d (files w))), w, [])"
  by (simp add: list_sidecars_def run_simps)

lemma run_sweep_loop:
  "\<exists>w'. sweep_loop d ns w [] = (Ok (), w', []) \<and>
     (\<forall>p. look w' p =
        (if fst p = d \<and> snd p \<in> set ns \<and> has_ext ''mp4'' (snd p)
            \<and> look w (d, with_extension (snd p) ''json'') = None
         then None else look w p))"
proof (induction ns arbitrary: w)
  case Nil
  then show ?case by (simp add: run_simps)
next
  case (Cons n ns)
  let ?orphan = "has_ext ''mp4'' n \<and> look w (d, with_extension n ''json'') = None"
  define w1 where "w1 = (if ?orphan then w\<lparr>journal := journal w @ [QueueEv (QueueOrphanMedia (d, n))],
    files := AList.delete (d, n) (files w)\<rparr> else w)"
  have step: "sweep_loop d (n # ns) w [] = sweep_loop d ns w1 []"
    by (auto simp: w1_def run_simps)
  have json: "\<not> has_ext ''mp4'' (with_extension k ''json'')" if "has_ext ''mp4'' k" for k
    using that by (auto simp: has_ext_mp4_iff)
  have look1: "look w1 p = (if p = (d, n) \<and> ?orphan then None else look w p)" for p
    by (auto simp: w1_def)
  have same: "look w1 (d, with_extension k ''json'') = look w (d, with_extension k ''json'')"
    if "has_ext ''mp4'' k" for k
    using json [OF that] by (auto simp: look1)
  obtain w' where w': "sweep_loop d ns w1 [] = (Ok (), w', [])"
    and l: "\<forall>p. look w' p = (if fst p = d \<and> snd p \<in> set ns \<and> has_ext ''mp4'' (snd p)
            \<and> look w1 (d, with_extension (snd p) ''json'') = None then None else look w1 p)"
    using Cons.IH [of w1] by blast
  have "look w' p = (if fst p = d \<and> snd p \<in> set ns \<and> has_ext ''mp4'' (snd p)
            \<and> look w (d, with_extension (snd p) ''json'') = None then None else look w1 p)" for p
    using l [rule_format, of p] same [of "snd p"] by (cases "has_ext ''mp4'' (snd p)") simp_all
  then show ?case
    using step w' by (auto simp: look1 simp del: sweep_loop.simps)
qed

lemma run_sweep:
  "\<exists>w'. sweep_orphan_media d w [] = (Ok (), w', []) \<and>
     (\<forall>p. look w' p =
        (if fst p = d \<and> has_ext ''mp4'' (snd p) \<and> look w (d, with_extension (snd p) ''json'') = None
         then None else look w p))"
proof -
  obtain w' where w': "sweep_loop d (listing d (files w)) w [] = (Ok (), w', [])"
    and l: "\<forall>p. look w' p = (if fst p = d \<and> snd p \<in> set (listing d (files w)) \<and> has_ext ''mp4'' (snd p)
            \<and> look w (d, with_extension (snd p) ''json'') = None then None else look w p)"
    using run_sweep_loop by blast
  have "sweep_orphan_media d w [] = (Ok (), w', [])"
    by (simp add: sweep_orphan_media_def run_simps w')
  then show ?thesis
    using l by (auto simp: set_listing domIff split: if_splits)
qed

section \<open>Boot reconciliation\<close>

definition requeued :: "clip_queue_entry \<Rightarrow> clip_queue_entry" where
  "requeued e = e\<lparr>next_attempt_after := None, last_err := None\<rparr>"

lemma requeued_clip_id [simp]: "clip_id (requeued e) = clip_id e"
  by (simp add: requeued_def)

text \<open>
  What reconciliation makes of one inflight sidecar \<open>e\<close>: a terminal record ends up in
  \<open>delivered/\<close>, any other goes back to \<open>pending/\<close> with its backoff cleared, together with its
  recording; nothing of it is left in \<open>inflight/\<close>.
\<close>

definition settled :: "'b codec \<Rightarrow> clip_queue_entry \<Rightarrow> 'b world \<Rightarrow> 'b world \<Rightarrow> bool" where
  "settled cd e w w' \<longleftrightarrow>
     (let cid = clip_id e in
      look w' (sidecar_at InflightDir cid) = None \<and> look w' (media_at InflightDir cid) = None \<and>
      (if is_terminal e then
         (\<exists>b. look w' (sidecar_at DeliveredDir cid) = Some b \<and> dec cd b = Some e) \<and>
         look w' (media_at PendingDir cid) = look w (media_at PendingDir cid) \<and>
         look w' (sidecar_at PendingDir cid) = look w (sidecar_at PendingDir cid)
       else
         (\<exists>b. look w' (sidecar_at PendingDir cid) = Some b \<and> dec cd b = Some (requeued e)) \<and>
         look w' (media_at PendingDir cid) =
           (case look w (media_at InflightDir cid) of
              None \<Rightarrow> look w (media_at PendingDir cid) | Some m \<Rightarrow> Some m) \<and>
         look w' (sidecar_at DeliveredDir cid) = look w (sidecar_at DeliveredDir cid)))"

lemma settled_same_looks:
  assumes "\<And>d. look w1 (media_at d (clip_id e)) = look w (media_at d (clip_id e))"
    "\<And>d. look w1 (sidecar_at d (clip_id e)) = look w (sidecar_at d (clip_id e))"
    "\<And>d. look w1' (media_at d (clip_id e)) = look w' (media_at d (clip_id e))"
    "\<And>d. look w1' (sidecar_at d (clip_id e)) = look w' (sidecar_at d (clip_id e))"
  shows "settled cd e w1 w1' \<longleftrightarrow> settled cd e w w'"
  using assms by (simp add: settled_def Let_def split: option.split)

lemma run_transition_delivered:
  assumes "codec_ok cd" "is_terminal e"
  shows "\<exists>w'. transition_delivered cd e w [] = (Ok (), w', []) \<and> settled cd e w w'"
  using assms(2) codec_enc [OF assms(1), of e]
  by (auto simp: transition_delivered_def Let_def run_simps settled_def)

lemma run_transition_back_to_pending:
  assumes "codec_ok cd" "\<not> is_terminal e"
  shows "\<exists>w'. transition_back_to_pending cd (requeued e) w [] = (Ok (), w', []) \<and> settled cd e w w'"
  using assms(2) codec_enc [OF assms(1), of "requeued e"]
  by (auto simp: transition_back_to_pending_def Let_def run_simps settled_def split: option.splits)

text \<open>
  A sidecar that can be reconciled: readable, and filed under the clip id it records (which
  every write of the store guarantees).
\<close>

definition filed_entry :: "'b codec \<Rightarrow> 'b world \<Rightarrow> dir \<Rightarrow> string \<Rightarrow> clip_queue_entry \<Rightarrow> bool" where
  "filed_entry cd w d n e \<longleftrightarrow>
     (\<exists>b. look w (d, n) = Some b \<and> dec cd b = Some e) \<and> n = sidecar_name (clip_id e) \<and> clip_id e \<noteq> []"

lemma filed_entry_unique: "filed_entry cd w d n e \<Longrightarrow> filed_entry cd w d n e' \<Longrightarrow> e = e'"
  by (auto simp: filed_entry_def)

lemma filed_entry_kept:
  "(\<And>p. p \<notin> clip_paths c \<Longrightarrow> look w1 p = look w p) \<Longrightarrow> filed_entry cd w d n e \<Longrightarrow> n \<noteq> sidecar_name c
     \<Longrightarrow> filed_entry cd w1 d n e"
  by (auto simp: filed_entry_def)

lemma run_reconcile_step:
  assumes "codec_ok cd" "filed_entry cd w InflightDir n e"
  shows "\<exists>w1. settled cd e w w1 \<and> (\<forall>p. p \<notin> clip_paths (clip_id e) \<longrightarrow> look w1 p = look w p) \<and>
    reconcile_loop cd (n # ns) w [] =
      (case reconcile_loop cd ns w1 [] of
         (Ok es, w', fs) \<Rightarrow> (Ok (if is_terminal e then es else requeued e # es), w', fs)
       | (Err x, w', fs) \<Rightarrow> (Err x, w', fs) | (Crashed, w', fs) \<Rightarrow> (Crashed, w', fs))"
proof -
  obtain b where b: "look w (InflightDir, n) = Some b" "dec cd b = Some e"
    using assms(2) by (auto simp: filed_entry_def)
  show ?thesis
  proof (cases "is_terminal e")
    case True
    obtain w1 where w1: "transition_delivered cd e w [] = (Ok (), w1, [])" "settled cd e w w1"
      using run_transition_delivered [OF assms(1) True] by blast
    have "reconcile_loop cd (n # ns) w [] = reconcile_loop cd ns w1 []"
      by (simp add: run_simps b True w1(1))
    then show ?thesis
      using w1(2) delivered_op.foreign_files_kept [OF w1(1)] True
      by (intro exI [of _ w1] conjI) (blast | simp split: prod.split res.split)+
  next
    case False
    obtain w1 where w1: "transition_back_to_pending cd (requeued e) w [] = (Ok (), w1, [])" "settled cd e w w1"
      using run_transition_back_to_pending [OF assms(1) False] by blast
    have "reconcile_loop cd (n # ns) w [] = (case reconcile_loop cd ns w1 [] of
         (Ok es, w', fs) \<Rightarrow> (Ok (requeued e # es), w', fs)
       | (Err x, w', fs) \<Rightarrow> (Err x, w', fs) | (Crashed, w', fs) \<Rightarrow> (Crashed, w', fs))"
      by (simp add: run_simps Let_def b False w1(1) requeued_def [symmetric] split: prod.split res.split)
    moreover have "\<forall>p. p \<notin> clip_paths (clip_id e) \<longrightarrow> look w1 p = look w p"
      using pending_op.foreign_files_kept [OF w1(1)] by simp
    ultimately show ?thesis
      using w1(2) False by (intro exI [of _ w1]) (simp del: reconcile_loop.simps split: prod.split res.split)
  qed
qed

lemma run_reconcile_loop:
  assumes "codec_ok cd" "distinct ns" "\<And>n. n \<in> set ns \<Longrightarrow> filed_entry cd w InflightDir n (f n)"
  shows "\<exists>w'. reconcile_loop cd ns w [] =
      (Ok (map requeued (filter (\<lambda>e. \<not> is_terminal e) (map f ns))), w', []) \<and>
    (\<forall>n \<in> set ns. settled cd (f n) w w') \<and>
    (\<forall>p. (\<forall>n \<in> set ns. p \<notin> clip_paths (clip_id (f n))) \<longrightarrow> look w' p = look w p)"
  using assms(2,3)
proof (induction ns arbitrary: w)
  case Nil
  then show ?case by (simp add: run_simps)
next
  case (Cons n ns)
  let ?e = "f n"
  have fn: "filed_entry cd w InflightDir n ?e" using Cons.prems by simp
  have own: "k = sidecar_name (clip_id (f k))" if "k \<in> set (n # ns)" for k
    using Cons.prems(2) [OF that] by (simp add: filed_entry_def)
  have ids: "clip_id (f k) \<noteq> clip_id ?e" if "k \<in> set ns" for k
    using own [of k] own [of n] that Cons.prems(1) by auto
  obtain w1 where w1: "settled cd ?e w w1" "\<And>p. p \<notin> clip_paths (clip_id ?e) \<Longrightarrow> look w1 p = look w p"
    and run: "reconcile_loop cd (n # ns) w [] =
      (case reconcile_loop cd ns w1 [] of
         (Ok es, w', fs) \<Rightarrow> (Ok (if is_terminal ?e then es else requeued ?e # es), w', fs)
       | (Err x, w', fs) \<Rightarrow> (Err x, w', fs) | (Crashed, w', fs) \<Rightarrow> (Crashed, w', fs))"
    using run_reconcile_step [OF assms(1) fn] by blast
  have "filed_entry cd w1 InflightDir k (f k)" if "k \<in> set ns" for k
    using filed_entry_kept [OF w1(2) Cons.prems(2) [of k], of "clip_id ?e"] that ids [OF that] own [of k]
    by (metis list.set_intros(2) names_inj(2))
  then obtain w' where w': "reconcile_loop cd ns w1 [] =
      (Ok (map requeued (filter (\<lambda>e. \<not> is_terminal e) (map f ns))), w', [])"
    and set: "\<And>k. k \<in> set ns \<Longrightarrow> settled cd (f k) w1 w'"
    and out: "\<And>p. (\<And>k. k \<in> set ns \<Longrightarrow> p \<notin> clip_paths (clip_id (f k))) \<Longrightarrow> look w' p = look w1 p"
    using Cons.IH [of w1] Cons.prems(1) by (metis distinct.simps(2))
  have "settled cd (f k) w w'" if "k \<in> set ns" for k
    using set [OF that] ids [OF that] w1(2) settled_same_looks [of w1 "f k" w w' w'] by simp
  moreover have "settled cd ?e w w'"
  proof -
    have "look w' (media_at d (clip_id ?e)) = look w1 (media_at d (clip_id ?e))"
      "look w' (sidecar_at d (clip_id ?e)) = look w1 (sidecar_at d (clip_id ?e))" for d
      using ids [THEN not_sym] by (auto intro!: out)
    then show ?thesis using w1(1) settled_same_looks [of w ?e w w' w1] by simp
  qed
  moreover have "reconcile_loop cd (n # ns) w [] =
      (Ok (map requeued (filter (\<lambda>e. \<not> is_terminal e) (map f (n # ns)))), w', [])"
    unfolding run w' by simp
  ultimately show ?case
    using out w1(2) by (intro exI [of _ w']) auto
qed

text \<open>The two sweeps that run before the loop, as one function on contents.\<close>

definition swept :: "'b world \<Rightarrow> path \<Rightarrow> 'b option" where
  "swept w p =
     (if fst p \<in> {PendingDir, InflightDir} \<and> has_ext ''mp4'' (snd p)
         \<and> look w (fst p, with_extension (snd p) ''json'') = None
      then None else look w p)"

lemma swept_clip [simp]:
  "swept w (sidecar_at d cid) = look w (sidecar_at d cid)"
  "cid \<noteq> [] \<Longrightarrow> swept w (media_at d cid) =
     (if d \<in> {PendingDir, InflightDir} \<and> look w (sidecar_at d cid) = None then None else look w (media_at d cid))"
  by (auto simp: swept_def has_ext_mp4_iff)

lemma wf_sweep_loop [simp]: "preserves wf_world (sweep_loop d ns)"
  by (induction ns) auto

lemma wf_sweep [simp]: "preserves wf_world (sweep_orphan_media d)"
  by (simp add: sweep_orphan_media_def)

lemma run_sweeps:
  assumes "wf_world w"
  shows "\<exists>w1. wf_world w1 \<and> (\<forall>p. look w1 p = swept w p) \<and>
    reconcile_inflight cd w [] =
      reconcile_loop cd (sort (filter (has_ext ''json'') (listing InflightDir (files w1)))) w1 []"
proof -
  obtain w0 where w0: "sweep_orphan_media PendingDir w [] = (Ok (), w0, [])"
    and l0: "\<forall>p. look w0 p = (if fst p = PendingDir \<and> has_ext ''mp4'' (snd p)
       \<and> look w (PendingDir, with_extension (snd p) ''json'') = None then None else look w p)"
    using run_sweep by blast
  obtain w1 where w1: "sweep_orphan_media InflightDir w0 [] = (Ok (), w1, [])"
    and l1: "\<forall>p. look w1 p = (if fst p = InflightDir \<and> has_ext ''mp4'' (snd p)
       \<and> look w0 (InflightDir, with_extension (snd p) ''json'') = None then None else look w0 p)"
    using run_sweep by blast
  have "wf_world w1"
    using assms preservesD [OF wf_sweep w0] preservesD [OF wf_sweep w1] by blast
  moreover have "\<forall>p. look w1 p = swept w p"
    using l0 l1 by (auto simp: swept_def)
  ultimately show ?thesis
    using w0 w1 by (auto simp: reconcile_inflight_def run_simps)
qed

text \<open>Every sidecar in \<open>inflight/\<close> is readable and filed under its own clip id.\<close>

definition inflight_filed :: "'b codec \<Rightarrow> 'b world \<Rightarrow> bool" where
  "inflight_filed cd w \<longleftrightarrow>
     (\<forall>n. has_ext ''json'' n \<longrightarrow> look w (InflightDir, n) \<noteq> None \<longrightarrow> (\<exists>e. filed_entry cd w InflightDir n e))"

lemma run_reconcile:
  assumes "codec_ok cd" "wf_world w" "inflight_filed cd w"
  shows "\<exists>es w' w1. reconcile_inflight cd w [] = (Ok es, w', []) \<and> (\<forall>p. look w1 p = swept w p) \<and>
    (\<forall>n e. filed_entry cd w InflightDir n e \<longrightarrow> settled cd e w1 w') \<and>
    (\<forall>cid d. cid \<noteq> [] \<longrightarrow> look w (sidecar_at InflightDir cid) = None \<longrightarrow>
       look w' (media_at d cid) = look w1 (media_at d cid) \<and>
       look w' (sidecar_at d cid) = look w1 (sidecar_at d cid)) \<and>
    set es = {requeued e |e n. filed_entry cd w InflightDir n e \<and> \<not> is_terminal e}"
proof -
  obtain w1 where w1: "wf_world w1" "\<And>p. look w1 p = swept w p"
    and run: "reconcile_inflight cd w [] =
      reconcile_loop cd (sort (filter (has_ext ''json'') (listing InflightDir (files w1)))) w1 []"
    using run_sweeps [OF assms(2)] by blast
  define ns where "ns = sort (filter (has_ext ''json'') (listing InflightDir (files w1)))"
  define f where "f = (\<lambda>n. SOME e. filed_entry cd w InflightDir n e)"
  have filed1: "filed_entry cd w1 d n e \<longleftrightarrow> filed_entry cd w d n e" for d n e
    by (auto simp: filed_entry_def w1(2))
  have mem: "n \<in> set ns \<longleftrightarrow> (\<exists>e. filed_entry cd w InflightDir n e)" for n
    using assms(3) by (auto simp: ns_def set_listing w1(2) inflight_filed_def has_ext_json_iff filed_entry_def domIff)
  have f: "filed_entry cd w InflightDir n (f n)" if "n \<in> set ns" for n
    using that unfolding mem f_def by (rule someI_ex)
  have "distinct ns" using w1(1) by (simp add: ns_def distinct_listing)
  then obtain w' where w': "reconcile_loop cd ns w1 [] =
      (Ok (map requeued (filter (\<lambda>e. \<not> is_terminal e) (map f ns))), w', [])"
    and st: "\<And>n. n \<in> set ns \<Longrightarrow> settled cd (f n) w1 w'"
    and out: "\<And>p. (\<And>n. n \<in> set ns \<Longrightarrow> p \<notin> clip_paths (clip_id (f n))) \<Longrightarrow> look w' p = look w1 p"
    using run_reconcile_loop [OF assms(1), of ns w1 f] f filed1 by metis
  have a: "settled cd e w1 w'" if "filed_entry cd w InflightDir n e" for n e
    using st [of n] f [of n] mem that filed_entry_unique by metis
  have b: "look w' (media_at d cid) = look w1 (media_at d cid) \<and>
       look w' (sidecar_at d cid) = look w1 (sidecar_at d cid)"
    if "cid \<noteq> []" "look w (sidecar_at InflightDir cid) = None" for cid d
  proof -
    have "cid \<noteq> clip_id (f n)" if "n \<in> set ns" for n
      using f [OF that] \<open>look w (sidecar_at InflightDir cid) = None\<close> by (auto simp: filed_entry_def)
    then show ?thesis by (auto intro!: out)
  qed
  have c: "set (map requeued (filter (\<lambda>e. \<not> is_terminal e) (map f ns))) =
      {requeued e |e n. filed_entry cd w InflightDir n e \<and> \<not> is_terminal e}"
  proof -
    have fe: "f n = e" if "filed_entry cd w InflightDir n e" for n e
      using f [of n] mem that filed_entry_unique by metis
    have "e \<in> f ` set ns \<longleftrightarrow> (\<exists>n. filed_entry cd w InflightDir n e)" for e
      using f mem fe by (metis image_iff)
    then show ?thesis by (auto simp: set_eq_iff image_iff)
  qed
  have "reconcile_inflight cd w [] = (Ok (map requeued (filter (\<lambda>e. \<not> is_terminal e) (map f ns))), w', [])"
    using run w' by (simp add: ns_def)
  then show ?thesis
    using a b c w1(2) by (intro exI conjI allI impI) (assumption | simp)+
qed

text \<open>Reconciliation seen from one clip, with and without an inflight sidecar.\<close>

lemma reboot_clip:
  assumes "codec_ok cd" "wf_world w" "inflight_filed cd w" "cid \<noteq> []"
  shows "\<exists>es w'. reconcile_inflight cd w [] = (Ok es, w', []) \<and>
    look w' (sidecar_at InflightDir cid) = None \<and> look w' (media_at InflightDir cid) = None \<and>
    (look w (sidecar_at InflightDir cid) = None \<longrightarrow>
       look w' (sidecar_at PendingDir cid) = look w (sidecar_at PendingDir cid) \<and>
       look w' (media_at PendingDir cid) = swept w (media_at PendingDir cid) \<and>
       look w' (sidecar_at DeliveredDir cid) = look w (sidecar_at DeliveredDir cid)) \<and>
    (\<forall>e. filed_entry cd w InflightDir (sidecar_name cid) e \<longrightarrow> is_terminal e \<longrightarrow>
       (\<exists>b. look w' (sidecar_at DeliveredDir cid) = Some b \<and> dec cd b = Some e) \<and>
       look w' (media_at PendingDir cid) = swept w (media_at PendingDir cid) \<and>
       look w' (sidecar_at PendingDir cid) = look w (sidecar_at PendingDir cid)) \<and>
    (\<forall>e. filed_entry cd w InflightDir (sidecar_name cid) e \<longrightarrow> \<not> is_terminal e \<longrightarrow>
       (\<exists>b. look w' (sidecar_at PendingDir cid) = Some b \<and> dec cd b = Some (requeued e)) \<and>
       look w' (media_at PendingDir cid) =
         (case look w (media_at InflightDir cid) of
            None \<Rightarrow> swept w (media_at PendingDir cid) | Some m \<Rightarrow> Some m) \<and>
       look w' (sidecar_at DeliveredDir cid) = look w (sidecar_at DeliveredDir cid))"
proof (insert run_reconcile [OF assms(1-3)], elim exE conjE, goal_cases)
  case (1 es w' w1)
  note run = 1(1) and sw = 1(2) [rule_format] and st = 1(3) [rule_format]
    and out = 1(4) [rule_format, OF assms(4)]
  show ?case
  proof (cases "look w (sidecar_at InflightDir cid)")
    case None
    then show ?thesis
      using run sw out assms(4) by (auto simp: filed_entry_def)
  next
    case (Some b)
    then obtain e where e: "filed_entry cd w InflightDir (sidecar_name cid) e"
      using assms(3,4) by (auto simp: inflight_filed_def has_ext_json_iff)
    then have cid: "clip_id e = cid" by (simp add: filed_entry_def)
    have u: "filed_entry cd w InflightDir (sidecar_name cid) x \<longleftrightarrow> x = e" for x
      using e filed_entry_unique [OF e] by blast
    have s: "settled cd e w1 w'" using st [OF e] .
    show ?thesis
      using s Some assms(4) unfolding settled_def Let_def cid
      by (intro exI [of _ es] exI [of _ w']) (simp add: run sw u split: if_splits option.split)
  qed
qed

text \<open>The same on the level of phases.\<close>

lemma reboot_phases:
  assumes "codec_ok cd" "wf_world w" "inflight_filed cd w" "cid \<noteq> []"
  shows "\<exists>es w'. reconcile_inflight cd w [] = (Ok es, w', []) \<and>
    (\<forall>e m. phase_of cd cid w = Waiting e m \<longrightarrow> phase_of cd cid w' = Waiting e m) \<and>
    (\<forall>e. phase_of cd cid w = Done e \<longrightarrow> phase_of cd cid w' = Done e) \<and>
    (\<forall>e m. filed_entry cd w InflightDir (sidecar_name cid) e \<longrightarrow> \<not> is_terminal e \<longrightarrow>
       (look w (media_at InflightDir cid) = Some m \<or>
        look w (media_at InflightDir cid) = None \<and> look w (media_at PendingDir cid) = Some m \<and>
        look w (sidecar_at PendingDir cid) \<noteq> None) \<longrightarrow>
       look w (sidecar_at DeliveredDir cid) = None \<longrightarrow> phase_of cd cid w' = Waiting (requeued e) m) \<and>
    (\<forall>e. filed_entry cd w InflightDir (sidecar_name cid) e \<longrightarrow> is_terminal e \<longrightarrow>
       look w (media_at PendingDir cid) = None \<longrightarrow> look w (sidecar_at PendingDir cid) = None \<longrightarrow>
       phase_of cd cid w' = Done e) \<and>
    (look w (sidecar_at InflightDir cid) = None \<longrightarrow> look w (media_at PendingDir cid) = None \<longrightarrow>
       look w' (media_at PendingDir cid) = None) \<and>
    look w' (media_at InflightDir cid) = None"
proof (insert reboot_clip [OF assms], elim exE conjE, goal_cases)
  case (1 es w')
  note none = 1(4) [rule_format] and fin = 1(5) [rule_format] and queue = 1(6) [rule_format]
  show ?case
    unfolding phase_simps
  proof (intro exI [of _ es] exI [of _ w'] conjI allI impI; (elim conjE)?)
    fix e m b
    assume "filed_entry cd w InflightDir (sidecar_name cid) e" "\<not> is_terminal e"
      and m: "look w (media_at InflightDir cid) = Some m \<or>
        look w (media_at InflightDir cid) = None \<and> look w (media_at PendingDir cid) = Some m \<and>
        look w (sidecar_at PendingDir cid) \<noteq> None"
    from queue [OF this(1,2)] m show "look w' (media_at PendingDir cid) = Some m"
      using assms(4) by auto
  qed (use 1(1-3) none fin queue assms(4) in auto)
qed

lemma inflight_filed_step:
  assumes "inflight_filed cd w" "\<And>p. p \<notin> clip_paths cid \<Longrightarrow> look w1 p = look w p"
    and "look w1 (sidecar_at InflightDir cid) \<noteq> None \<Longrightarrow> \<exists>e. filed_entry cd w1 InflightDir (sidecar_name cid) e"
  shows "inflight_filed cd w1"
  unfolding inflight_filed_def
proof (intro allI impI)
  fix n assume n: "has_ext ''json'' n" "look w1 (InflightDir, n) \<noteq> None"
  then obtain c where c: "c \<noteq> []" "n = sidecar_name c" by (auto simp: has_ext_json_iff)
  show "\<exists>e. filed_entry cd w1 InflightDir n e"
  proof (cases "c = cid")
    case True
    then show ?thesis using assms(3) n c by simp
  next
    case False
    then have "look w1 (InflightDir, n) = look w (InflightDir, n)" using assms(2) c by simp
    then show ?thesis
      using assms(1) n unfolding inflight_filed_def filed_entry_def by auto
  qed
qed

subsection \<open>What an interrupted transition leaves behind\<close>

definition holds_entry :: "'b codec \<Rightarrow> 'b world \<Rightarrow> path \<Rightarrow> clip_queue_entry \<Rightarrow> bool" where
  "holds_entry cd w p e \<longleftrightarrow> (\<exists>b. look w p = Some b \<and> dec cd b = Some e)"

text \<open>
  The gap between the rename of a recording and the write of its sidecar: the recording is
  in \<open>inflight/\<close> and only \<open>pending/\<close> has a sidecar, or the other way round.
\<close>

definition in_gap :: "string \<Rightarrow> 'b world \<Rightarrow> bool" where
  "in_gap cid w \<longleftrightarrow>
     (look w (media_at InflightDir cid) \<noteq> None \<and> look w (sidecar_at InflightDir cid) = None) \<or>
     (look w (media_at PendingDir cid) \<noteq> None \<and> look w (sidecar_at PendingDir cid) = None)"

lemma transition_inflight_interrupted:
  fixes now :: instant
  assumes "codec_ok cd" "phase_of cd (clip_id e) w = Waiting e m" "clip_id e \<noteq> []"
  defines "P \<equiv> (\<lambda>w'. phase_of cd (clip_id e) w' = Waiting e m \<or>
      (in_gap (clip_id e) w' \<and> look w' (sidecar_at InflightDir (clip_id e)) = None) \<or>
      (look w' (media_at InflightDir (clip_id e)) = Some m \<and> look w' (media_at PendingDir (clip_id e)) = None \<and>
       holds_entry cd w' (sidecar_at InflightDir (clip_id e)) (mark_attempt now e) \<and>
       look w' (sidecar_at DeliveredDir (clip_id e)) = None))"
  shows "wlp (transition_inflight cd e now) (\<lambda>_ _. True) (\<lambda>_. P) P w"
  using assms(2,3) codec_enc [OF assms(1), of "mark_attempt now e"] unfolding phase_simps P_def
  by (auto simp: transition_inflight_def Let_def wlp_simps wlp_match in_gap_def holds_entry_def split: option.splits)

text \<open>A claim that returns with an error has put the recording back, unless putting it back failed too.\<close>

lemma transition_inflight_rolled_back:
  assumes "codec_ok cd" "phase_of cd (clip_id e) w = Waiting e m" "clip_id e \<noteq> []" "n \<le> 1"
  shows "wlpf n (transition_inflight cd e now) (\<lambda>_ _ _. True) (\<lambda>_ _ w'. \<not> in_gap (clip_id e) w') (\<lambda>_. True) w"
  using assms(2-4) codec_enc [OF assms(1), of "mark_attempt now e"] unfolding phase_simps
  by (auto simp: transition_inflight_def write_sidecar_atomic_def remove_if_exists_def Let_def wlpf_simps wlpf_match in_gap_def
      split: option.splits)

lemma transition_back_to_pending_interrupted:
  assumes "codec_ok cd" "phase_of cd (clip_id e) w = Flying e0 m" "clip_id e \<noteq> []"
  defines "P \<equiv> (\<lambda>w'. phase_of cd (clip_id e) w' = Flying e0 m \<or> in_gap (clip_id e) w' \<or>
      (media_once (clip_id e) m w' \<and>
       holds_entry cd w' (sidecar_at InflightDir (clip_id e)) e0 \<and>
       holds_entry cd w' (sidecar_at PendingDir (clip_id e)) e \<and>
       look w' (sidecar_at DeliveredDir (clip_id e)) = None))"
  shows "wlp (transition_back_to_pending cd e) (\<lambda>_ _. True) (\<lambda>_. P) P w"
  using assms(2,3) codec_enc [OF assms(1), of "e"] unfolding phase_simps P_def
  by (auto simp: transition_back_to_pending_def Let_def wlp_simps in_gap_def media_once_def holds_entry_def split: option.splits)

lemma transition_delivered_interrupted:
  assumes "codec_ok cd" "phase_of cd (clip_id e) w = Flying e0 m" "clip_id e \<noteq> []"
  defines "P \<equiv> (\<lambda>w'. phase_of cd (clip_id e) w' = Flying e0 m \<or>
      (look w' (media_at PendingDir (clip_id e)) = None \<and> look w' (sidecar_at PendingDir (clip_id e)) = None \<and>
       holds_entry cd w' (sidecar_at InflightDir (clip_id e)) e))"
  shows "wlp (transition_delivered cd e) (\<lambda>_ w'. phase_of cd (clip_id e) w' = Done e) (\<lambda>_. P) P w"
  using assms(2,3) codec_enc [OF assms(1), of "e"] unfolding phase_simps P_def
  by (auto simp: transition_delivered_def Let_def wlp_simps phase_simps holds_entry_def split: option.splits)

section \<open>Properties of the transitions\<close>

text \<open>
  Claiming a clip for an attempt. Whatever fails and wherever the process dies, the
  recording is in exactly one of the two directories, unchanged; a successful claim leaves
  the clip in flight under the updated record, and a claim never reports a missing
  recording that is there.
\<close>

theorem transition_inflight_atomic:
  assumes "codec_ok cd" "phase_of cd (clip_id e) w = Waiting e0 m"
    and "transition_inflight cd e now w fs = (r, w', fs')"
  shows "case r of
       Ok u \<Rightarrow> u = mark_attempt now e \<and> phase_of cd (clip_id e) w' = Flying u m
     | Err err \<Rightarrow> media_once (clip_id e) m w' \<and> err \<noteq> MissingMedia (clip_id e)
     | Crashed \<Rightarrow> media_once (clip_id e) m w'"
  using wlp_run [OF transition_inflight_wlp [OF assms(1,2)] assms(3)] .

definition ex_entry :: clip_queue_entry where
  "ex_entry = new_entry ''a'' 10 20 5"

definition ex_waiting :: "blob world" where
  "ex_waiting = \<lparr> files = [(media_at PendingDir ''a'', Bytes 5), (sidecar_at PendingDir ''a'', Sidecar ex_entry)],
     seq = 1, journal = [] \<rparr>"

definition ex_flying :: "blob world" where
  "ex_flying = \<lparr> files = [(media_at InflightDir ''a'', Bytes 5),
       (sidecar_at InflightDir ''a'', Sidecar (mark_attempt 30 ex_entry))],
     seq = 1, journal = [] \<rparr>"

lemma ex_clip_id [simp]: "clip_id ex_entry = ''a''"
  by (simp add: ex_entry_def)

lemma ex_not_terminal [simp]: "\<not> is_terminal ex_entry" "\<not> is_terminal (mark_attempt now ex_entry)"
  by (simp_all add: ex_entry_def is_terminal_def mark_attempt_def)

lemma ex_phases [simp]:
  "phase_of blob_codec ''a'' ex_waiting = Waiting ex_entry (Bytes 5)"
  "phase_of blob_codec ''a'' ex_flying = Flying (mark_attempt 30 ex_entry) (Bytes 5)"
  by (auto simp: phase_simps ex_waiting_def ex_flying_def)

lemma ex_wf [simp]: "wf_world ex_waiting" "wf_world ex_flying"
  by (auto simp: wf_world_def ex_waiting_def ex_flying_def)

lemma ex_filed [simp]: "inflight_filed blob_codec ex_waiting" "inflight_filed blob_codec ex_flying"
  by (auto simp: inflight_filed_def ex_waiting_def ex_flying_def filed_entry_def has_ext_json_iff)

lemma ex_inflight_crash:
  "transition_inflight blob_codec ex_entry 30 ex_waiting [NoFault, Crash None] =
     (Crashed, ex_waiting\<lparr>files := AList.update (media_at InflightDir ''a'') (Bytes 5)
        (AList.delete (media_at PendingDir ''a'') (files ex_waiting))\<rparr>, [])"
  by (simp add: exec_simps ex_flying_def ex_waiting_def)

theorem transition_inflight_atomic_witness:
  "\<exists>w'. transition_inflight blob_codec ex_entry 30 ex_waiting [NoFault, Crash None] = (Crashed, w', [])
     \<and> media_once ''a'' (Bytes 5) w'"
  using transition_inflight_atomic [OF blob_codec_ok, of ex_entry ex_waiting ex_entry "Bytes 5" 30]
    ex_inflight_crash by fastforce

text \<open>
  Completing a clip. The recording is only removed once the terminal record is on
  disk: at every failure and crash point either the clip is still in flight as it was, or
  its terminal record is readable in \<open>inflight/\<close> (where the next boot finds it); success
  leaves exactly the terminal record.
\<close>

theorem transition_delivered_atomic:
  assumes "codec_ok cd" "clip_id e \<noteq> []" "phase_of cd (clip_id e) w = Flying e0 m"
    and "transition_delivered cd e w fs = (r, w', fs')"
  shows "case r of
       Ok _ \<Rightarrow> phase_of cd (clip_id e) w' = Done e
     | _ \<Rightarrow> phase_of cd (clip_id e) w' = Flying e0 m \<or> holds_entry cd w' (sidecar_at InflightDir (clip_id e)) e"
  using wlp_run [OF transition_delivered_interrupted [OF assms(1,3,2)] assms(4)]
  by (auto split: res.splits)

definition ex_done :: clip_queue_entry where
  "ex_done = (mark_attempt 30 ex_entry)\<lparr>entry_outcome := Some Delivered\<rparr>"

lemma ex_done_sel [simp]: "clip_id ex_done = ''a''" "is_terminal ex_done"
  by (simp_all add: ex_done_def is_terminal_def)

lemma ex_delivered_crash:
  "case transition_delivered blob_codec ex_done ex_flying [NoFault, NoFault, NoFault, Crash None] of
     (r, w', fs') \<Rightarrow> r = Crashed \<and> fs' = [] \<and> look w' (media_at InflightDir ''a'') = None"
  by (simp add: exec_simps ex_flying_def ex_waiting_def)

theorem transition_delivered_atomic_witness:
  "\<exists>w'. transition_delivered blob_codec ex_done ex_flying [NoFault, NoFault, NoFault, Crash None] = (Crashed, w', [])
     \<and> holds_entry blob_codec w' (sidecar_at InflightDir ''a'') ex_done"
proof -
  obtain w' where run: "transition_delivered blob_codec ex_done ex_flying
      [NoFault, NoFault, NoFault, Crash None] = (Crashed, w', [])" "look w' (media_at InflightDir ''a'') = None"
    using ex_delivered_crash by (auto split: prod.splits)
  then show ?thesis
    using transition_delivered_atomic [OF blob_codec_ok _ _ run(1), of "mark_attempt 30 ex_entry" "Bytes 5"]
    by (auto simp: phase_of_Flying)
qed

text \<open>
  C16: A claim that fails or is cut short, followed by a boot: the clip is waiting again with its
  recording, under its old record or under the record of the attempt. The only exception is
  the gap between the rename of the recording and the write of its sidecar: the process died
  in it, or the write failed and then so did the rename that puts the recording back, two
  failed calls in one claim.
\<close>

theorem transition_inflight_reboot:
  assumes "codec_ok cd" "wf_world w" "inflight_filed cd w" "clip_id e \<noteq> []" "\<not> is_terminal e"
    and "phase_of cd (clip_id e) w = Waiting e m"
    and run: "transition_inflight cd e now w fs = (r, w1, fs')" and "\<And>u. r \<noteq> Ok u"
  shows "\<exists>es w2. reconcile_inflight cd w1 [] = (Ok es, w2, []) \<and>
    (phase_of cd (clip_id e) w2 \<in> {Waiting e m, Waiting (requeued (mark_attempt now e)) m} \<or>
     in_gap (clip_id e) w1 \<and> (r = Crashed \<or> 2 \<le> failures fs - failures fs'))"
proof -
  let ?cid = "clip_id e" and ?u = "mark_attempt now e"
  have cases: "phase_of cd ?cid w1 = Waiting e m \<or>
      (in_gap ?cid w1 \<and> look w1 (sidecar_at InflightDir ?cid) = None) \<or>
      (look w1 (media_at InflightDir ?cid) = Some m \<and> look w1 (media_at PendingDir ?cid) = None \<and>
       holds_entry cd w1 (sidecar_at InflightDir ?cid) ?u \<and> look w1 (sidecar_at DeliveredDir ?cid) = None)"
    using wlp_run [OF transition_inflight_interrupted [OF assms(1,6,4)] run] assms(8)
    by (auto split: res.splits)
  have gap: "r = Crashed \<or> 2 \<le> failures fs - failures fs'" if "in_gap ?cid w1"
  proof (rule ccontr)
    assume "\<not> (r = Crashed \<or> 2 \<le> failures fs - failures fs')"
    with wlpf_run [OF _ run transition_inflight_rolled_back [OF assms(1,6,4)]] assms(8) that show False
      by (auto split: res.splits)
  qed
  have filed: "inflight_filed cd w1"
    using assms(3) inflight_op.foreign_files_kept [OF run]
  proof (rule inflight_filed_step)
    assume "look w1 (sidecar_at InflightDir ?cid) \<noteq> None"
    then have "holds_entry cd w1 (sidecar_at InflightDir ?cid) ?u"
      using cases by (auto simp: phase_of_Waiting)
    then show "\<exists>e'. filed_entry cd w1 InflightDir (sidecar_name ?cid) e'"
      using assms(4) by (intro exI [of _ ?u]) (simp add: filed_entry_def holds_entry_def)
  qed
  have u: "\<not> is_terminal ?u" using assms(5) by (simp add: is_terminal_def mark_attempt_def)
  from reboot_phases [OF assms(1) inflight_op.wf_after [OF run assms(2)] filed assms(4)]
  show ?thesis
    using cases gap u assms(4) by (elim exE conjE) (auto simp: filed_entry_def holds_entry_def)
qed

lemma ex_inflight_write_fails:
  "case transition_inflight blob_codec ex_entry 30 ex_waiting [NoFault, Fail DiskFullFault None] of
     (r, w', fs') \<Rightarrow> (\<exists>err. r = Err err) \<and> fs' = []"
  by (simp add: exec_simps ex_waiting_def)

theorem transition_inflight_reboot_witness:
  "\<exists>err w1 es w2. transition_inflight blob_codec ex_entry 30 ex_waiting [NoFault, Fail DiskFullFault None] = (Err err, w1, []) \<and>
     reconcile_inflight blob_codec w1 [] = (Ok es, w2, []) \<and>
     phase_of blob_codec ''a'' w2 \<in>
       {Waiting ex_entry (Bytes 5), Waiting (requeued (mark_attempt 30 ex_entry)) (Bytes 5)}"
proof -
  obtain err w1 where run: "transition_inflight blob_codec ex_entry 30 ex_waiting [NoFault, Fail DiskFullFault None] = (Err err, w1, [])"
    using ex_inflight_write_fails by (auto split: prod.splits)
  then show ?thesis
    using transition_inflight_reboot [OF blob_codec_ok _ _ _ _ _ run, of "Bytes 5"] by auto
qed

text \<open>
  C5: Completing a clip, cut short or failing at any point, followed by a boot: the clip is
  either done under the terminal record or waiting again with its recording. No crash
  point loses it, and a clip whose terminal record reached the disk is not re-queued.
\<close>

theorem transition_delivered_reboot:
  assumes "codec_ok cd" "wf_world w" "inflight_filed cd w" "clip_id e \<noteq> []"
    and "is_terminal e" "\<not> is_terminal e0" "clip_id e0 = clip_id e"
    and "phase_of cd (clip_id e) w = Flying e0 m"
    and run: "transition_delivered cd e w fs = (r, w1, fs')" and "\<And>u. r \<noteq> Ok u"
  shows "\<exists>es w2. reconcile_inflight cd w1 [] = (Ok es, w2, []) \<and>
    phase_of cd (clip_id e) w2 =
      (if holds_entry cd w1 (sidecar_at InflightDir (clip_id e)) e then Done e else Waiting (requeued e0) m)"
proof -
  let ?cid = "clip_id e"
  have cases: "phase_of cd ?cid w1 = Flying e0 m \<or>
      (look w1 (media_at PendingDir ?cid) = None \<and> look w1 (sidecar_at PendingDir ?cid) = None \<and>
       holds_entry cd w1 (sidecar_at InflightDir ?cid) e)"
    using wlp_run [OF transition_delivered_interrupted [OF assms(1,8,4)] run] assms(10)
    by (auto split: res.splits)
  then have own: "filed_entry cd w1 InflightDir (sidecar_name ?cid) e0 \<or>
      filed_entry cd w1 InflightDir (sidecar_name ?cid) e"
    using assms(4,7) by (auto simp: phase_of_Flying filed_entry_def holds_entry_def)
  have filed: "inflight_filed cd w1"
    using inflight_filed_step [OF assms(3) delivered_op.foreign_files_kept [OF run]] own by blast
  have "e \<noteq> e0" using assms(5,6) by auto
  from reboot_phases [OF assms(1) delivered_op.wf_after [OF run assms(2)] filed assms(4)]
  show ?thesis
    using cases own assms(4-7) \<open>e \<noteq> e0\<close>
    by (elim exE conjE) (auto simp: filed_entry_def holds_entry_def phase_of_Flying)
qed

theorem transition_delivered_reboot_witness:
  "\<exists>w1 es w2. transition_delivered blob_codec ex_done ex_flying [NoFault, NoFault, NoFault, Crash None]
       = (Crashed, w1, []) \<and> reconcile_inflight blob_codec w1 [] = (Ok es, w2, []) \<and>
     (phase_of blob_codec ''a'' w2 = Done ex_done \<or>
      phase_of blob_codec ''a'' w2 = Waiting (requeued (mark_attempt 30 ex_entry)) (Bytes 5))"
proof -
  obtain w1 where run: "transition_delivered blob_codec ex_done ex_flying
      [NoFault, NoFault, NoFault, Crash None] = (Crashed, w1, [])"
    using ex_delivered_crash by (auto split: prod.splits)
  then show ?thesis
    using transition_delivered_reboot [OF blob_codec_ok _ _ _ _ _ _ _ run, of "mark_attempt 30 ex_entry" "Bytes 5"]
    by (auto split: if_splits)
qed

text \<open>
  Handing a clip back after a transient failure, cut short or failing at any point,
  followed by a boot: outside the gap the clip is waiting again with its recording.
\<close>

theorem transition_back_to_pending_reboot:
  assumes "codec_ok cd" "wf_world w" "inflight_filed cd w" "clip_id e \<noteq> []"
    and "\<not> is_terminal e0" "clip_id e0 = clip_id e"
    and "phase_of cd (clip_id e) w = Flying e0 m"
    and run: "transition_back_to_pending cd e w fs = (r, w1, fs')" and "\<And>u. r \<noteq> Ok u"
    and "\<not> in_gap (clip_id e) w1"
  shows "\<exists>es w2. reconcile_inflight cd w1 [] = (Ok es, w2, []) \<and>
    phase_of cd (clip_id e) w2 = Waiting (requeued e0) m"
proof -
  let ?cid = "clip_id e"
  have cases: "phase_of cd ?cid w1 = Flying e0 m \<or>
      (media_once ?cid m w1 \<and> holds_entry cd w1 (sidecar_at InflightDir ?cid) e0 \<and>
       holds_entry cd w1 (sidecar_at PendingDir ?cid) e \<and> look w1 (sidecar_at DeliveredDir ?cid) = None)"
    using wlp_run [OF transition_back_to_pending_interrupted [OF assms(1,7,4)] run] assms(9,10)
    by (auto split: res.splits)
  then have own: "filed_entry cd w1 InflightDir (sidecar_name ?cid) e0"
    using assms(4,6) by (auto simp: phase_of_Flying filed_entry_def holds_entry_def)
  have filed: "inflight_filed cd w1"
    using inflight_filed_step [OF assms(3) pending_op.foreign_files_kept [OF run]] own by blast
  from reboot_phases [OF assms(1) pending_op.wf_after [OF run assms(2)] filed assms(4)]
  show ?thesis
    using cases own assms(5)
    by (elim exE conjE) (auto simp: holds_entry_def phase_of_Flying media_once_def)
qed

definition ex_retry :: clip_queue_entry where
  "ex_retry = (mark_attempt 30 ex_entry)\<lparr>next_attempt_after := Some 90\<rparr>"

lemma ex_back_crash:
  "case transition_back_to_pending blob_codec ex_retry ex_flying [NoFault, NoFault, NoFault, NoFault, Crash None] of
     (r, w', fs') \<Rightarrow> r = Crashed \<and> fs' = [] \<and> \<not> in_gap ''a'' w'"
  by (simp add: exec_simps ex_flying_def in_gap_def ex_retry_def)

theorem transition_back_to_pending_reboot_witness:
  "\<exists>w1 es w2. transition_back_to_pending blob_codec ex_retry ex_flying
       [NoFault, NoFault, NoFault, NoFault, Crash None] = (Crashed, w1, []) \<and>
     reconcile_inflight blob_codec w1 [] = (Ok es, w2, []) \<and>
     phase_of blob_codec ''a'' w2 = Waiting (requeued (mark_attempt 30 ex_entry)) (Bytes 5)"
proof -
  obtain w1 where run: "transition_back_to_pending blob_codec ex_retry ex_flying
      [NoFault, NoFault, NoFault, NoFault, Crash None] = (Crashed, w1, [])" "\<not> in_gap ''a'' w1"
    using ex_back_crash by (auto split: prod.splits)
  then show ?thesis
    using transition_back_to_pending_reboot [OF blob_codec_ok _ _ _ _ _ _ run(1), of "mark_attempt 30 ex_entry" "Bytes 5"]
    by (auto simp: ex_retry_def)
qed

text \<open>
  C17: The gap is real. When the process dies right after the recording was renamed into
  \<open>inflight/\<close> and before its sidecar is written there, the next boot takes the recording for
  an orphan and deletes it: the clip is gone although its pending sidecar says it waits.
\<close>

theorem interrupted_claim_loses_recording:
  assumes "codec_ok cd" "wf_world w" "inflight_filed cd w" "clip_id e \<noteq> []"
    and "phase_of cd (clip_id e) w = Waiting e m"
  shows "\<exists>w1 es w2. transition_inflight cd e now w [NoFault, Crash None] = (Crashed, w1, []) \<and>
    reconcile_inflight cd w1 [] = (Ok es, w2, []) \<and>
    look w1 (media_at InflightDir (clip_id e)) = Some m \<and>
    look w2 (media_at InflightDir (clip_id e)) = None \<and> look w2 (media_at PendingDir (clip_id e)) = None"
proof -
  let ?cid = "clip_id e"
  obtain b where b: "enc cd (mark_attempt now e) = Some b" using codec_enc [OF assms(1)] by blast
  define w1 where "w1 = w\<lparr>files := AList.update (media_at InflightDir ?cid) m
    (AList.delete (media_at PendingDir ?cid) (files w))\<rparr>"
  have run: "transition_inflight cd e now w [NoFault, Crash None] = (Crashed, w1, [])"
    using assms(5) b by (auto simp: phase_of_Waiting w1_def transition_inflight_def Let_def
        write_sidecar_atomic_def bind_io_def match_io_def map_err_def fs_rename_def fs_write_def
        prim_def write_part_def ret_def)
  have looks: "look w1 (media_at InflightDir ?cid) = Some m" "look w1 (media_at PendingDir ?cid) = None"
    "look w1 (sidecar_at InflightDir ?cid) = None"
    using assms(5) by (auto simp: w1_def phase_of_Waiting)
  have filed: "inflight_filed cd w1"
    using inflight_filed_step [OF assms(3) inflight_op.foreign_files_kept [OF run]] looks(3) by blast
  from reboot_phases [OF assms(1) inflight_op.wf_after [OF run assms(2)] filed assms(4)]
  show ?thesis
    using looks run by blast
qed

theorem interrupted_claim_loses_recording_witness:
  "\<exists>w1 es w2. transition_inflight blob_codec ex_entry 30 ex_waiting [NoFault, Crash None] = (Crashed, w1, []) \<and>
    reconcile_inflight blob_codec w1 [] = (Ok es, w2, []) \<and>
    look w1 (media_at InflightDir ''a'') = Some (Bytes 5) \<and>
    look w2 (media_at InflightDir ''a'') = None \<and> look w2 (media_at PendingDir ''a'') = None"
  using interrupted_claim_loses_recording [of blob_codec ex_waiting ex_entry "Bytes 5" 30] by simp

text \<open>Reconciliation of a clip in flight, and of one that waits or is done.\<close>

lemma flying_filed:
  assumes "inflight_filed cd w" "cid \<noteq> []" "phase_of cd cid w = Flying e m"
  shows "filed_entry cd w InflightDir (sidecar_name cid) e"
proof -
  obtain e' where e': "filed_entry cd w InflightDir (sidecar_name cid) e'"
    using assms by (auto simp: inflight_filed_def phase_of_Flying has_ext_json_iff)
  then have "e' = e" using assms(3) by (auto simp: filed_entry_def phase_of_Flying)
  then show ?thesis using e' by simp
qed

lemma reboot_flying:
  assumes "codec_ok cd" "wf_world w" "inflight_filed cd w" "cid \<noteq> []" "phase_of cd cid w = Flying e m"
    and "reconcile_inflight cd w [] = (Ok es, w', [])"
  shows "phase_of cd cid w' = (if is_terminal e then Done e else Waiting (requeued e) m)"
  using reboot_phases [OF assms(1-4)] flying_filed [OF assms(3-5)] assms(5,6) by (auto simp: phase_of_Flying)

lemma reboot_stays:
  assumes "codec_ok cd" "wf_world w" "inflight_filed cd w" "cid \<noteq> []" "phase_of cd cid w \<in> {Waiting e m, Done e}"
    and "reconcile_inflight cd w [] = (Ok es, w', [])"
  shows "phase_of cd cid w' = phase_of cd cid w"
  using reboot_phases [OF assms(1-4)] assms(5,6) by auto

text \<open>
  Boot reconciliation of the whole store. It ends without error; every clip that was in
  flight is done when its record is terminal and otherwise waits again with its recording
  and a cleared backoff; clips that wait or are done stay so; no sidecar is left in
  \<open>inflight/\<close>; and the returned list is exactly the set of re-queued records.
\<close>

theorem reconcile_inflight_restores:
  assumes "codec_ok cd" "wf_world w" "inflight_filed cd w"
  shows "\<exists>es w'. reconcile_inflight cd w [] = (Ok es, w', []) \<and>
    (\<forall>cid e m. cid \<noteq> [] \<longrightarrow> phase_of cd cid w = Flying e m \<longrightarrow>
       phase_of cd cid w' = (if is_terminal e then Done e else Waiting (requeued e) m)) \<and>
    (\<forall>cid e m. cid \<noteq> [] \<longrightarrow> phase_of cd cid w \<in> {Waiting e m, Done e} \<longrightarrow> phase_of cd cid w' = phase_of cd cid w) \<and>
    (\<forall>cid. cid \<noteq> [] \<longrightarrow> look w' (sidecar_at InflightDir cid) = None) \<and>
    set es = {requeued e |e n. filed_entry cd w InflightDir n e \<and> \<not> is_terminal e}"
proof -
  obtain es w' where run: "reconcile_inflight cd w [] = (Ok es, w', [])"
    and es: "set es = {requeued e |e n. filed_entry cd w InflightDir n e \<and> \<not> is_terminal e}"
    using run_reconcile [OF assms] by (elim exE conjE) (rule that)
  have "look w' (sidecar_at InflightDir cid) = None" if "cid \<noteq> []" for cid
    using reboot_clip [OF assms that] run by auto
  then show ?thesis using run es reboot_flying [OF assms _ _ run] reboot_stays [OF assms _ _ run] by blast
qed

theorem reconcile_inflight_restores_witness:
  "\<exists>es w'. reconcile_inflight blob_codec ex_flying [] = (Ok es, w', []) \<and>
     phase_of blob_codec ''a'' w' = Waiting (requeued (mark_attempt 30 ex_entry)) (Bytes 5)"
proof -
  obtain es w' where "reconcile_inflight blob_codec ex_flying [] = (Ok es, w', [])"
    and "\<forall>cid e m. cid \<noteq> [] \<longrightarrow> phase_of blob_codec cid ex_flying = Flying e m \<longrightarrow>
       phase_of blob_codec cid w' = (if is_terminal e then Done e else Waiting (requeued e) m)"
    using reconcile_inflight_restores [OF blob_codec_ok ex_wf(2) ex_filed(2)] by (elim exE conjE) (rule that)
  then show ?thesis by simp
qed

end
