(* ===== verification/Queue_Order.thy ===== *)
theory Queue_Order
  imports Queue_Crash
begin

text \<open>
  What enters and leaves the pending directory: picking the oldest eligible clip (with
  quarantine of corrupt sidecars), enqueueing a recording, and the order of clip ids.
\<close>

section \<open>Picking\<close>

definition eligible :: "'b codec \<Rightarrow> instant \<Rightarrow> 'b world \<Rightarrow> string \<Rightarrow> clip_queue_entry \<Rightarrow> bool" where
  "eligible cd now w n e \<longleftrightarrow>
     has_ext ''json'' n \<and> holds_entry cd w (PendingDir, n) e \<and> \<not> in_backoff now e"

definition corrupt_sidecar :: "'b codec \<Rightarrow> 'b world \<Rightarrow> string \<Rightarrow> bool" where
  "corrupt_sidecar cd w n \<longleftrightarrow> has_ext ''json'' n \<and>
     (case look w (PendingDir, n) of None \<Rightarrow> False | Some b \<Rightarrow> dec cd b = None)"

lemma eligible_unique: "eligible cd now w n e \<Longrightarrow> eligible cd now w n e' \<Longrightarrow> e = e'"
  by (auto simp: eligible_def holds_entry_def)

lemma run_quarantine_corrupt:
  assumes "look w (PendingDir, n) = Some b" "has_ext ''json'' n"
  shows "\<exists>w'. quarantine_corrupt (PendingDir, n) w [] = (Ok (), w', []) \<and>
    look w' (PendingDir, n) = None \<and> look w' (CorruptDir, n) = Some b \<and>
    (\<forall>p. snd p \<noteq> n \<longrightarrow> has_ext ''json'' (snd p) \<longrightarrow> look w' p = look w p)"
proof -
  obtain cid where cid: "cid \<noteq> []" "n = sidecar_name cid" using assms(2) by (auto simp: has_ext_json_iff)
  show ?thesis
    using assms(1) cid
    by (auto simp: quarantine_corrupt_def Let_def run_simps has_ext_json_iff split: option.splits)
qed

text \<open>
  The reference: the record of the first name in a list whose sidecar is readable and not
  in backoff, and the names that are passed over before it.
\<close>

definition entry_of :: "'b codec \<Rightarrow> 'b world \<Rightarrow> string \<Rightarrow> clip_queue_entry option" where
  "entry_of cd w n = Option.bind (look w (PendingDir, n)) (dec cd)"

definition passed_over :: "'b codec \<Rightarrow> instant \<Rightarrow> 'b world \<Rightarrow> string \<Rightarrow> bool" where
  "passed_over cd now w n = (case entry_of cd w n of None \<Rightarrow> True | Some e \<Rightarrow> in_backoff now e)"

definition first_eligible :: "'b codec \<Rightarrow> instant \<Rightarrow> 'b world \<Rightarrow> string list \<Rightarrow> clip_queue_entry option" where
  "first_eligible cd now w ns =
     (case dropWhile (passed_over cd now w) ns of [] \<Rightarrow> None | n # _ \<Rightarrow> entry_of cd w n)"

lemma eligible_iff:
  "eligible cd now w n e \<longleftrightarrow> has_ext ''json'' n \<and> entry_of cd w n = Some e \<and> \<not> passed_over cd now w n"
  by (auto simp: eligible_def entry_of_def passed_over_def holds_entry_def bind_eq_Some_conv split: option.splits)

lemma first_eligible_simps [simp]:
  "first_eligible cd now w [] = None"
  "first_eligible cd now w (n # ns) =
     (if passed_over cd now w n then first_eligible cd now w ns else entry_of cd w n)"
  by (simp_all add: first_eligible_def)

lemma entry_of_cong:
  "look w1 (PendingDir, n) = look w (PendingDir, n) \<Longrightarrow> entry_of cd w1 n = entry_of cd w n"
  by (simp add: entry_of_def)

lemma passed_over_cong:
  "look w1 (PendingDir, n) = look w (PendingDir, n) \<Longrightarrow> passed_over cd now w1 n = passed_over cd now w n"
  by (simp add: passed_over_def entry_of_def)

lemma first_eligible_cong:
  "(\<And>n. n \<in> set ns \<Longrightarrow> look w1 (PendingDir, n) = look w (PendingDir, n)) \<Longrightarrow>
     first_eligible cd now w1 ns = first_eligible cd now w ns"
  by (induction ns) (auto cong: entry_of_cong passed_over_cong)

lemma takeWhile_passed_cong:
  "(\<And>n. n \<in> set ns \<Longrightarrow> look w1 (PendingDir, n) = look w (PendingDir, n)) \<Longrightarrow>
     takeWhile (passed_over cd now w1) ns = takeWhile (passed_over cd now w) ns"
  by (rule takeWhile_cong, simp, rule passed_over_cong, simp)

lemma first_eligible_sorted:
  assumes "sorted ns"
  shows "case first_eligible cd now w ns of
       None \<Rightarrow> \<forall>n \<in> set ns. passed_over cd now w n
     | Some e \<Rightarrow> \<exists>n \<in> set ns. entry_of cd w n = Some e \<and> \<not> passed_over cd now w n \<and>
         (\<forall>k \<in> set ns. \<not> passed_over cd now w k \<longrightarrow> n \<le> k)"
  using assms
proof (induction ns)
  case (Cons n ns)
  show ?case
  proof (cases "passed_over cd now w n")
    case True
    then show ?thesis using Cons by (auto split: option.splits)
  next
    case False
    then obtain e where "entry_of cd w n = Some e" by (auto simp: passed_over_def split: option.splits)
    then show ?thesis using Cons.prems False by auto
  qed
qed simp

text \<open>
  Without faults the loop returns the reference result, moves the corrupt sidecars it passes
  to \<open>corrupt/\<close> and leaves every other sidecar alone.
\<close>

lemma run_pick_loop:
  assumes "distinct ns" "\<forall>n \<in> set ns. has_ext ''json'' n \<and> look w (PendingDir, n) \<noteq> None"
  shows "\<exists>w'. pick_loop cd now ns w [] = (Ok (first_eligible cd now w ns), w', []) \<and>
    (\<forall>n. has_ext ''json'' n \<longrightarrow> \<not> (n \<in> set (takeWhile (passed_over cd now w) ns) \<and> corrupt_sidecar cd w n) \<longrightarrow>
       (\<forall>d. look w' (d, n) = look w (d, n))) \<and>
    (\<forall>n \<in> set (takeWhile (passed_over cd now w) ns). corrupt_sidecar cd w n \<longrightarrow>
       look w' (PendingDir, n) = None \<and> look w' (CorruptDir, n) = look w (PendingDir, n))"
  using assms
proof (induction ns arbitrary: w)
  case Nil
  then show ?case by (simp add: run_simps)
next
  case (Cons n ns)
  obtain b where b: "look w (PendingDir, n) = Some b" and js: "has_ext ''json'' n"
    using Cons.prems(2) by auto
  have dist: "n \<notin> set ns" "distinct ns" using Cons.prems(1) by auto
  show ?case
  proof (cases "dec cd b")
    case (Some e)
    then have eo: "entry_of cd w n = Some e" using b by (simp add: entry_of_def)
    have nc: "\<not> corrupt_sidecar cd w n" using b Some by (simp add: corrupt_sidecar_def)
    show ?thesis
    proof (cases "in_backoff now e")
      case True
      have "pick_loop cd now (n # ns) w [] = pick_loop cd now ns w []"
        by (simp add: run_simps b Some True)
      moreover have "passed_over cd now w n" using eo True by (simp add: passed_over_def)
      ultimately show ?thesis
        using Cons.IH [OF dist(2), of w] Cons.prems(2) nc by (auto simp del: pick_loop.simps)
    next
      case False
      then have "pick_loop cd now (n # ns) w [] = (Ok (Some e), w, [])"
        by (simp add: run_simps b Some)
      moreover have "\<not> passed_over cd now w n" using eo False by (simp add: passed_over_def)
      ultimately show ?thesis using eo by (simp del: pick_loop.simps)
    qed
  next
    case None
    define v where "v = w\<lparr>journal := journal w @ [QueueEv (QueueCorruptSidecar (PendingDir, n))]\<rparr>"
    have lv: "look v = look w" by (simp add: v_def)
    obtain w1 where w1: "quarantine_corrupt (PendingDir, n) v [] = (Ok (), w1, [])"
      "look w1 (PendingDir, n) = None" "look w1 (CorruptDir, n) = Some b"
      "\<And>p. snd p \<noteq> n \<Longrightarrow> has_ext ''json'' (snd p) \<Longrightarrow> look w1 p = look w p"
      using run_quarantine_corrupt [of v n b] b js unfolding lv by metis
    have step: "pick_loop cd now (n # ns) w [] = pick_loop cd now ns w1 []"
      using w1(1) by (simp add: run_simps b None v_def)
    have same: "look w1 (d, k) = look w (d, k)" if "k \<noteq> n" "has_ext ''json'' k" for d k
      using w1(4) [of "(d, k)"] that by simp
    have sameN: "look w1 (PendingDir, k) = look w (PendingDir, k)" if "k \<in> set ns" for k
      using same [of k] that dist(1) Cons.prems(2) by auto
    have po: "passed_over cd now w n" using b None by (simp add: passed_over_def entry_of_def)
    have co: "corrupt_sidecar cd w1 k \<longleftrightarrow> corrupt_sidecar cd w k" if "k \<in> set ns" for k
      using sameN [OF that] by (simp add: corrupt_sidecar_def)
    have cn: "corrupt_sidecar cd w n" using b None js by (simp add: corrupt_sidecar_def)
    let ?T = "takeWhile (passed_over cd now w) ns"
    have T: "set ?T \<subseteq> set ns" by (auto dest: set_takeWhileD)
    obtain w' where w': "pick_loop cd now ns w1 [] = (Ok (first_eligible cd now w ns), w', [])"
      and keep: "\<And>k d. has_ext ''json'' k \<Longrightarrow> \<not> (k \<in> set ?T \<and> corrupt_sidecar cd w1 k) \<Longrightarrow> look w' (d, k) = look w1 (d, k)"
      and mv: "\<And>k. k \<in> set ?T \<Longrightarrow> corrupt_sidecar cd w1 k \<Longrightarrow>
        look w' (PendingDir, k) = None \<and> look w' (CorruptDir, k) = look w1 (PendingDir, k)"
      using Cons.IH [OF dist(2), of w1] Cons.prems(2) sameN
        first_eligible_cong [of ns w1 w cd now] takeWhile_passed_cong [of ns w1 w cd now] by auto
    have nT: "n \<notin> set ?T" using dist(1) T by blast
    have same2: "look w1 (d, k) = look w (d, k)" if "has_ext ''json'' k" "\<not> corrupt_sidecar cd w k" for d k
      using that same [of k d] cn by (cases "k = n") simp_all
    have "look w' (d, n) = look w1 (d, n)" for d using keep [OF js] nT by blast
    then show ?thesis
      unfolding step using w' po keep mv co T same same2 sameN js w1(2,3) b cn nT
      by (intro exI [of _ w']) (auto simp: subset_iff)
  qed
qed

lemma run_pick:
  assumes "wf_world w"
  defines "ns \<equiv> sort (filter (has_ext ''json'') (listing PendingDir (files w)))"
  shows "\<exists>w'. pick_oldest_pending cd now w [] = (Ok (first_eligible cd now w ns), w', []) \<and>
    (\<forall>n. has_ext ''json'' n \<longrightarrow> \<not> corrupt_sidecar cd w n \<longrightarrow> look w' (PendingDir, n) = look w (PendingDir, n)) \<and>
    (\<forall>n \<in> set (takeWhile (passed_over cd now w) ns). corrupt_sidecar cd w n \<longrightarrow>
       look w' (PendingDir, n) = None \<and> look w' (CorruptDir, n) = look w (PendingDir, n))"
proof -
  have 1: "distinct ns" using assms(1) by (simp add: ns_def distinct_listing)
  have 2: "\<forall>n \<in> set ns. has_ext ''json'' n \<and> look w (PendingDir, n) \<noteq> None"
    by (auto simp: ns_def set_listing)
  obtain w' where "pick_loop cd now ns w [] = (Ok (first_eligible cd now w ns), w', [])"
    and "\<forall>n. has_ext ''json'' n \<longrightarrow> \<not> (n \<in> set (takeWhile (passed_over cd now w) ns) \<and> corrupt_sidecar cd w n) \<longrightarrow>
       (\<forall>d. look w' (d, n) = look w (d, n))"
    and "\<forall>n \<in> set (takeWhile (passed_over cd now w) ns). corrupt_sidecar cd w n \<longrightarrow>
       look w' (PendingDir, n) = None \<and> look w' (CorruptDir, n) = look w (PendingDir, n)"
    using run_pick_loop [of ns w cd now, OF 1 2] by (elim exE conjE) (rule that)
  moreover have "pick_oldest_pending cd now w [] = pick_loop cd now ns w []"
    by (simp add: pick_oldest_pending_def run_simps ns_def)
  ultimately show ?thesis by auto
qed

text \<open>
  C19: The pick. Without faults it returns the record of the lexicographically smallest
  pending sidecar that is readable and out of backoff, and nothing only when there is none;
  readable sidecars are untouched, and every corrupt sidecar before the picked one (all of
  them when nothing is picked) has been moved to \<open>corrupt/\<close>.
\<close>

theorem pick_oldest_pending_minimal:
  assumes "wf_world w"
  shows "\<exists>r w'. pick_oldest_pending cd now w [] = (Ok r, w', []) \<and>
    (case r of
       None \<Rightarrow> (\<forall>n e. \<not> eligible cd now w n e) \<and>
         (\<forall>n. corrupt_sidecar cd w n \<longrightarrow> look w' (PendingDir, n) = None \<and> look w' (CorruptDir, n) = look w (PendingDir, n))
     | Some e \<Rightarrow> \<exists>n. eligible cd now w n e \<and> (\<forall>k e'. eligible cd now w k e' \<longrightarrow> n \<le> k) \<and>
         (\<forall>k < n. corrupt_sidecar cd w k \<longrightarrow> look w' (PendingDir, k) = None \<and> look w' (CorruptDir, k) = look w (PendingDir, k))) \<and>
    (\<forall>n e. has_ext ''json'' n \<longrightarrow> holds_entry cd w (PendingDir, n) e \<longrightarrow> holds_entry cd w' (PendingDir, n) e)"
proof -
  define ns where "ns = sort (filter (has_ext ''json'') (listing PendingDir (files w)))"
  obtain w' where run: "pick_oldest_pending cd now w [] = (Ok (first_eligible cd now w ns), w', [])"
    and keep: "\<And>n. has_ext ''json'' n \<Longrightarrow> \<not> corrupt_sidecar cd w n \<Longrightarrow> look w' (PendingDir, n) = look w (PendingDir, n)"
    and mv: "\<And>n. n \<in> set (takeWhile (passed_over cd now w) ns) \<Longrightarrow> corrupt_sidecar cd w n \<Longrightarrow>
       look w' (PendingDir, n) = None \<and> look w' (CorruptDir, n) = look w (PendingDir, n)"
    using run_pick [OF assms, of cd now] unfolding ns_def by blast
  have ns: "sorted ns" "\<And>n. n \<in> set ns \<longleftrightarrow> has_ext ''json'' n \<and> look w (PendingDir, n) \<noteq> None"
    by (auto simp: ns_def set_listing)
  have mem: "n \<in> set ns" if "eligible cd now w n e \<or> corrupt_sidecar cd w n" for n e
    using that by (auto simp: ns(2) eligible_def holds_entry_def corrupt_sidecar_def split: option.splits)
  have kept: "holds_entry cd w' (PendingDir, n) e" if "has_ext ''json'' n" "holds_entry cd w (PendingDir, n) e" for n e
    using that keep [OF that(1)] by (auto simp: holds_entry_def corrupt_sidecar_def)
  have spec: "case first_eligible cd now w ns of
       None \<Rightarrow> \<forall>n \<in> set ns. passed_over cd now w n
     | Some e \<Rightarrow> \<exists>n \<in> set ns. entry_of cd w n = Some e \<and> \<not> passed_over cd now w n \<and>
         (\<forall>k \<in> set ns. \<not> passed_over cd now w k \<longrightarrow> n \<le> k)"
    using first_eligible_sorted [OF ns(1)] .
  have before: "k \<in> set (takeWhile (passed_over cd now w) ns)"
    if "k \<in> set ns" "\<forall>j \<in> set ns. j \<le> k \<longrightarrow> passed_over cd now w j" for k
    using that ns(1) by (induction ns) auto
  show ?thesis
  proof (cases "first_eligible cd now w ns")
    case None
    then have all: "\<forall>n \<in> set ns. passed_over cd now w n" using spec by simp
    then have "\<not> eligible cd now w n e" for n e using mem by (auto simp: eligible_iff)
    moreover have "look w' (PendingDir, n) = None \<and> look w' (CorruptDir, n) = look w (PendingDir, n)"
      if "corrupt_sidecar cd w n" for n
      using mv [OF before] that mem all by blast
    ultimately show ?thesis using run None kept by auto
  next
    case (Some e)
    then obtain n where n: "n \<in> set ns" "entry_of cd w n = Some e" "\<not> passed_over cd now w n"
      "\<And>k. k \<in> set ns \<Longrightarrow> \<not> passed_over cd now w k \<Longrightarrow> n \<le> k" using spec by auto
    then have "eligible cd now w n e" using ns(2) by (simp add: eligible_iff)
    moreover have "n \<le> k" if "eligible cd now w k e'" for k e'
      using n(4) [of k] that mem [of k e'] by (auto simp: eligible_iff)
    moreover have "look w' (PendingDir, k) = None \<and> look w' (CorruptDir, k) = look w (PendingDir, k)"
      if "k < n" "corrupt_sidecar cd w k" for k
    proof -
      have "passed_over cd now w j" if "j \<in> set ns" "j \<le> k" for j
        using n(4) [of j] that \<open>k < n\<close> by force
      then show ?thesis using mv [OF before] that mem by blast
    qed
    ultimately show ?thesis using run Some kept by auto
  qed
qed

definition ex_mixed :: "blob world" where
  "ex_mixed = \<lparr> files = [(sidecar_at PendingDir ''b'', Sidecar (new_entry ''b'' 11 21 7)),
       (sidecar_at PendingDir ''a'', Bytes 3), (media_at PendingDir ''a'', Bytes 5),
       (media_at PendingDir ''b'', Bytes 7)], seq = 2, journal = [] \<rparr>"

theorem pick_oldest_pending_minimal_witness:
  "\<exists>w'. pick_oldest_pending blob_codec 50 ex_mixed [] = (Ok (Some (new_entry ''b'' 11 21 7)), w', []) \<and>
     look w' (PendingDir, ''a.json'') = None \<and> look w' (CorruptDir, ''a.json'') = Some (Bytes 3)"
proof -
  have wf: "wf_world ex_mixed" by (simp add: wf_world_def ex_mixed_def)
  obtain r w' where run: "pick_oldest_pending blob_codec 50 ex_mixed [] = (Ok r, w', [])"
    and spec: "case r of
       None \<Rightarrow> (\<forall>n e. \<not> eligible blob_codec 50 ex_mixed n e) \<and>
         (\<forall>n. corrupt_sidecar blob_codec ex_mixed n \<longrightarrow>
            look w' (PendingDir, n) = None \<and> look w' (CorruptDir, n) = look ex_mixed (PendingDir, n))
     | Some e \<Rightarrow> \<exists>n. eligible blob_codec 50 ex_mixed n e \<and> (\<forall>k e'. eligible blob_codec 50 ex_mixed k e' \<longrightarrow> n \<le> k) \<and>
         (\<forall>k < n. corrupt_sidecar blob_codec ex_mixed k \<longrightarrow>
            look w' (PendingDir, k) = None \<and> look w' (CorruptDir, k) = look ex_mixed (PendingDir, k))"
    using pick_oldest_pending_minimal [OF wf, of blob_codec 50] by (elim exE conjE) (rule that)
  have b: "eligible blob_codec 50 ex_mixed (sidecar_name ''b'') (new_entry ''b'' 11 21 7)"
    by (auto simp: eligible_def holds_entry_def ex_mixed_def has_ext_json_iff in_backoff_def)
  have only: "n = sidecar_name ''b''" if "eligible blob_codec 50 ex_mixed n e" for n e
    using that by (auto simp: eligible_def holds_entry_def ex_mixed_def has_ext_json_iff split: if_splits)
  have a: "corrupt_sidecar blob_codec ex_mixed (sidecar_name ''a'')" "sidecar_name ''a'' < sidecar_name ''b''"
    by (auto simp: corrupt_sidecar_def ex_mixed_def has_ext_json_iff sidecar_name_def)
  have la: "look ex_mixed (PendingDir, sidecar_name ''a'') = Some (Bytes 3)"
    by (simp add: ex_mixed_def)
  obtain e where r: "r = Some e" using spec b by (cases r) auto
  then obtain n where n: "eligible blob_codec 50 ex_mixed n e"
    and mv: "\<And>k. k < n \<Longrightarrow> corrupt_sidecar blob_codec ex_mixed k \<Longrightarrow>
      look w' (PendingDir, k) = None \<and> look w' (CorruptDir, k) = look ex_mixed (PendingDir, k)"
    using spec by auto
  have "e = new_entry ''b'' 11 21 7" using n only [OF n] b eligible_unique by blast
  moreover have "look w' (PendingDir, sidecar_name ''a'') = None \<and> look w' (CorruptDir, sidecar_name ''a'') = Some (Bytes 3)"
    using mv [of "sidecar_name ''a''"] a only [OF n] la by simp
  ultimately show ?thesis using run r by (simp add: sidecar_name_def)
qed

definition pick_result_ok :: "'b codec \<Rightarrow> instant \<Rightarrow> clip_queue_entry option \<Rightarrow> 'b world \<Rightarrow> bool" where
  "pick_result_ok cd now r w \<longleftrightarrow> (case r of None \<Rightarrow> True | Some e \<Rightarrow> \<exists>n. eligible cd now w n e)"

lemma pick_loop_wlp:
  assumes "\<And>n. n \<in> set ns \<Longrightarrow> has_ext ''json'' n"
  shows "wlp (pick_loop cd now ns) (pick_result_ok cd now) (\<lambda>_ _. False) (\<lambda>_. True) w"
  using assms
proof (induction ns arbitrary: w)
  case Nil
  then show ?case by (simp add: wlp_simps pick_result_ok_def)
next
  case (Cons n ns)
  have IH: "wlp (pick_loop cd now ns) (pick_result_ok cd now) (\<lambda>_ _. False) (\<lambda>_. True) w1" for w1
    using Cons by simp
  have q: "wlp (quarantine_corrupt p) (\<lambda>_ w'. Q w') (\<lambda>_ w'. E w') (\<lambda>_. True) w1"
    if "\<And>v. Q v" "\<And>v. E v" for p Q E w1
    using that by (simp add: wlp_def split: prod.splits res.splits)
  have hit: "pick_result_ok cd now (Some e) w1"
    if "look w1 (PendingDir, n) = Some b" "dec cd b = Some e" "\<not> in_backoff now e" for w1 b e
    using that Cons.prems [of n] by (auto simp: pick_result_ok_def eligible_def holds_entry_def)
  show ?case
    unfolding pick_loop.simps
    by (auto simp: wlp_match wlp_simps IH intro!: q hit split: option.splits queue_error.split)
qed

lemma scan_names_wlp:
  "wlp (scan_names d P ns) (\<lambda>r w'. set r = {n \<in> set ns. P n} \<and> w' = w)
     (\<lambda>e w'. (\<exists>k. e = Io (dir_path d) k) \<and> w' = w) (\<lambda>w'. w' = w) w"
proof (induction ns)
  case (Cons n ns)
  show ?case
    by (simp add: wlp_simps) (rule wlp_mono [OF Cons.IH], auto)
qed (simp add: wlp_simps)

lemma list_sidecars_wlp:
  "wlp (list_sidecars d) (\<lambda>r w'. set r = {n. (d, n) \<in> dom (look w) \<and> has_ext ''json'' n} \<and> w' = w)
     (\<lambda>e w'. (\<exists>k. e = Io (dir_path d) k) \<and> w' = w) (\<lambda>w'. w' = w) w"
  by (simp add: list_sidecars_def wlp_simps) (rule wlp_mono [OF scan_names_wlp], auto simp: set_listing)

text \<open>
  Under faults the pick is aborted only by a directory error; a per-file error, corrupt
  or unreadable, never stops the scan. A clip it returns is recorded in \<open>pending/\<close> at that
  moment and out of backoff.
\<close>

theorem pick_oldest_pending_faults:
  "case pick_oldest_pending cd now w fs of
     (Ok None, w', fs') \<Rightarrow> True
   | (Ok (Some e), w', fs') \<Rightarrow> \<exists>n. eligible cd now w' n e
   | (Err err, w', fs') \<Rightarrow> (\<exists>k. err = Io (dir_path PendingDir) k) \<and> w' = w
   | (Crashed, w', fs') \<Rightarrow> True"
proof -
  have "wlp (pick_oldest_pending cd now) (pick_result_ok cd now)
      (\<lambda>e w'. (\<exists>k. e = Io (dir_path PendingDir) k) \<and> w' = w) (\<lambda>_. True) w"
    unfolding pick_oldest_pending_def
    by (simp add: wlp_simps, rule wlp_mono [OF list_sidecars_wlp])
      (auto intro: wlp_mono [OF pick_loop_wlp])
  then show ?thesis
    using wlp_run [of "pick_oldest_pending cd now" _ _ _ w fs]
    by (cases "pick_oldest_pending cd now w fs") (fastforce simp: pick_result_ok_def split: res.splits option.splits)
qed

section \<open>Enqueueing\<close>

text \<open>
  Enqueueing a staged recording. Success leaves a waiting clip with exactly the staged
  bytes and their length in the record; a failure leaves no sidecar behind; and when the
  process dies, the recording is still whole, either where it was staged or under its final
  name.
\<close>

theorem enqueue_with_id_registers:
  assumes "codec_ok cd" "cid \<noteq> []" "fst src = StagingDir" "look w src = Some b"
    and "\<And>d. look w (media_at d cid) = None" "\<And>d. look w (sidecar_at d cid) = None"
    and run: "enqueue_with_id cd cid src cap now w fs = (r, w', fs')"
  shows "case r of
       Ok e \<Rightarrow> e = new_entry cid cap now (blen cd b) \<and> phase_of cd cid w' = Waiting e b
     | Err _ \<Rightarrow> look w' (sidecar_at PendingDir cid) = None
     | Crashed \<Rightarrow> look w' src = Some b \<or> look w' (media_at PendingDir cid) = Some b"
proof -
  let ?e = "new_entry cid cap now (blen cd b)"
  obtain x where x: "enc cd ?e = Some x" "dec cd x = Some ?e" using codec_enc [OF assms(1)] by blast
  obtain n where src: "src = (StagingDir, n)" using assms(3) by (cases src) auto
  have "wlp (enqueue_with_id cd cid src cap now)
     (\<lambda>e w'. e = ?e \<and> phase_of cd cid w' = Waiting e b)
     (\<lambda>_ w'. look w' (sidecar_at PendingDir cid) = None)
     (\<lambda>w'. look w' src = Some b \<or> look w' (media_at PendingDir cid) = Some b) w"
    using assms(2,4,5,6) x unfolding src
    by (auto simp: enqueue_with_id_def Let_def wlp_simps wlp_match phase_simps split: option.splits)
  from wlp_run [OF this run] show ?thesis .
qed

definition ex_staged :: "blob world" where
  "ex_staged = \<lparr> files = [((StagingDir, ''r.mp4''), Bytes 9)], seq = 0, journal = [] \<rparr>"

lemma ex_enqueue:
  "case enqueue_with_id blob_codec ''a'' (StagingDir, ''r.mp4'') 10 20 ex_staged [NoFault, Fail (OtherFault 18) None] of
     (r, w', fs') \<Rightarrow> fs' = [] \<and> r = Ok (new_entry ''a'' 10 20 9)"
  by (simp add: exec_simps ex_staged_def)

theorem enqueue_with_id_registers_witness:
  "\<exists>w'. enqueue_with_id blob_codec ''a'' (StagingDir, ''r.mp4'') 10 20 ex_staged [NoFault, Fail (OtherFault 18) None]
       = (Ok (new_entry ''a'' 10 20 9), w', []) \<and>
     phase_of blob_codec ''a'' w' = Waiting (new_entry ''a'' 10 20 9) (Bytes 9)"
proof -
  obtain w' where run: "enqueue_with_id blob_codec ''a'' (StagingDir, ''r.mp4'') 10 20 ex_staged
      [NoFault, Fail (OtherFault 18) None] = (Ok (new_entry ''a'' 10 20 9), w', [])"
    using ex_enqueue by (auto split: prod.splits)
  have "look ex_staged (media_at d ''a'') = None" "look ex_staged (sidecar_at d ''a'') = None" for d
    by (simp_all add: ex_staged_def media_name_def sidecar_name_def)
  then show ?thesis
    using enqueue_with_id_registers [OF blob_codec_ok _ _ _ _ _ run, of "Bytes 9"] run
    by (simp add: ex_staged_def)
qed

section \<open>The order of clip ids\<close>

lemma digit_char_less: "a < 10 \<Longrightarrow> b < 10 \<Longrightarrow> digit_char a < digit_char b \<longleftrightarrow> a < b"
  by (simp add: digit_char_def less_char_def)

lemma digit_char_inj: "a < 10 \<Longrightarrow> b < 10 \<Longrightarrow> digit_char a = digit_char b \<longleftrightarrow> a = b"
  by (metis digit_char_less less_irrefl linorder_neqE)

lemma digit_chars:
  "digit_char 0 = CHR ''0''" "digit_char (Suc 0) = CHR ''1''" "digit_char 2 = CHR ''2''"
  "digit_char 7 = CHR ''7''" "digit_char 9 = CHR ''9''"
  by code_simp+

lemma pad3_digits:
  assumes "n < 1000"
  shows "pad3 n = [digit_char (n div 100), digit_char (n div 10 mod 10), digit_char (n mod 10)]"
proof -
  have z: "digit_char 0 = CHR ''0''" by (rule digit_chars)
  consider "n < 10" | "10 \<le> n" "n < 100" | "100 \<le> n" "n < 1000" using assms by linarith
  then show ?thesis
  proof cases
    case 1
    then show ?thesis by (simp add: pad3_def show_nat.simps [of n] z numeral_2_eq_2)
  next
    case 2
    then have "n div 10 < 10" by linarith
    with 2 show ?thesis
      by (simp add: pad3_def show_nat.simps [of n] show_nat.simps [of "n div 10"] z)
  next
    case 3
    then have "\<not> n div 10 < 10" "n div 10 div 10 < 10" by linarith+
    with 3 show ?thesis
      by (simp add: pad3_def show_nat.simps [of n] show_nat.simps [of "n div 10"]
          show_nat.simps [of "n div 100"] div_mult2_eq [symmetric])
  qed
qed

lemma pad3_less:
  assumes "a < b" "b < 1000"
  shows "pad3 a < pad3 b"
proof -
  have d: "a div 100 < 10" "b div 100 < 10" "a div 10 mod 10 < 10" "b div 10 mod 10 < 10"
    "a mod 10 < 10" "b mod 10 < 10" using assms by auto
  have e: "x = 100 * (x div 100) + 10 * (x div 10 mod 10) + x mod 10" for x :: nat
  proof -
    have "x div 10 div 10 = x div 100" by (simp add: div_mult2_eq [symmetric])
    then show ?thesis using div_mult_mod_eq [of x 10] div_mult_mod_eq [of "x div 10" 10] by linarith
  qed
  have "a div 100 < b div 100 \<or> a div 100 = b div 100 \<and>
     (a div 10 mod 10 < b div 10 mod 10 \<or> a div 10 mod 10 = b div 10 mod 10 \<and> a mod 10 < b mod 10)"
    using assms(1) e [of a] e [of b] d by linarith
  then show ?thesis
    using assms d by (simp add: pad3_digits digit_char_less digit_char_inj)
qed

lemma prefix_less_append:
  fixes xs ys :: string
  assumes "length xs = length ys" "xs < ys"
  shows "xs @ us < ys @ vs"
  using assms by (induction xs ys rule: list_induct2) auto

text \<open>
  Clip ids sort in enqueue order. For one process, ids of the same capture second and
  sequence numbers below a thousand are ordered by sequence number, and a later timestamp
  of the same width always sorts after an earlier one, whatever the sequence numbers.
\<close>

theorem clip_ids_ordered:
  assumes "next_clip_id fmt t w fs = (Ok a, w1, fs1)" "next_clip_id fmt t' w' gs = (Ok b, w1', gs1)"
    and "fmt t = fmt t' \<and> seq w < seq w' \<and> seq w' < 1000
         \<or> length (fmt t) = length (fmt t') \<and> fmt t < fmt t'"
  shows "a < b"
  using assms(3)
proof (elim disjE conjE)
  assume "fmt t = fmt t'" "seq w < seq w'" "seq w' < 1000"
  moreover have "xs @ us < xs @ vs" if "us < vs" for xs us vs :: string
    using that by (induction xs) auto
  ultimately show ?thesis
    using assms(1,2) pad3_less [of "seq w" "seq w'"] by (auto simp: next_clip_id_def)
next
  assume "length (fmt t) = length (fmt t')" "fmt t < fmt t'"
  then show ?thesis
    using assms(1,2) prefix_less_append by (auto simp: next_clip_id_def)
qed

theorem clip_ids_ordered_witness:
  "''20260101T000000Z-007'' < ''20260101T000000Z-012''"
proof -
  have p: "pad3 7 = ''007''" "pad3 12 = ''012''" by (simp_all add: pad3_digits digit_chars)
  show ?thesis
    using clip_ids_ordered [of "\<lambda>_. ''20260101T000000Z''" 0 "\<lparr> files = [], seq = 7, journal = [] \<rparr>" "[]"
        "''20260101T000000Z-007''" _ _ 0 "\<lparr> files = [], seq = 12, journal = [] \<rparr>" "[]" "''20260101T000000Z-012''"]
    by (simp add: next_clip_id_def p)
qed

text \<open>
  The three-digit padding does not order the ids past a thousand: with the same
  capture second, number 1000 sorts before number 999.
\<close>

theorem clip_ids_misordered:
  assumes "seq w = 999"
  shows "\<exists>a w1 b w2. next_clip_id fmt t w [] = (Ok a, w1, []) \<and> next_clip_id fmt t w1 [] = (Ok b, w2, []) \<and> b < a"
proof -
  have p: "pad3 999 = ''999''" "pad3 1000 = ''1000''"
    by (simp_all add: pad3_def show_nat.simps digit_chars)
  have "xs @ ''-1000'' < xs @ ''-999''" for xs :: string by (induction xs) auto
  then show ?thesis using assms by (simp add: next_clip_id_def p wrap_u32_def)
qed

theorem clip_ids_misordered_witness:
  "\<exists>a w1 b w2. next_clip_id (\<lambda>_. ''T'') 0 \<lparr> files = [] :: (path \<times> blob) list, seq = 999, journal = [] \<rparr> []
      = (Ok a, w1, [] :: blob fault list) \<and> next_clip_id (\<lambda>_. ''T'') 0 w1 [] = (Ok b, w2, [] :: blob fault list) \<and> b < a"
  by (rule clip_ids_misordered) simp

end
