(* ===== verification/Config.thy ===== *)
theory Config
  imports Prelude
begin

text \<open>
  Operator configuration, \<^verbatim>\<open>crates/perchstation-core/src/config.rs\<close>: the sections of the TOML
  file with their defaults, the numeric validation, and the derivation of the upload base.

  The TOML deserialiser (\<open>toml\<close>) and the URL crate (\<open>url_lib\<close>) are parameters. The opaque
  hardware table of the capture section is not read by the core and is left out.
\<close>

datatype eviction_policy = DropOldestUndelivered | RefuseNew

record queue_config =
  qc_max_clips :: u32
  qc_max_bytes :: u64
  qc_eviction :: eviction_policy
  delivered_retention_hours :: u64

record retry_config =
  initial_delay_secs :: u64
  max_attempt_delay_secs :: u64
  rc_per_clip_max_attempts :: u32
  per_clip_max_wallclock_hours :: u64

record capture_config =
  clip_duration_secs :: u64
  hang_margin_secs :: u64
  cooldown_secs :: u64
  liveness_stuck_secs :: u64
  liveness_poll_secs :: u64
  max_staging_bytes :: u64

record config =
  perchpub_url :: "string option"
  upload_url :: "string option"
  data_dir :: string
  queue_section :: queue_config
  retry_section :: retry_config
  capture_section :: capture_config

datatype config_error =
    ConfigIo string io_kind
  | Parse string
  | MissingRequired string
  | OutOfRange string string
and io_kind = IoNotFound | IoOther nat

section \<open>Defaults\<close>

definition default_queue_config :: queue_config where
  "default_queue_config = \<lparr> qc_max_clips = 500, qc_max_bytes = 2 * 1024 * 1024 * 1024,
     qc_eviction = DropOldestUndelivered, delivered_retention_hours = 24 * 7 \<rparr>"

definition default_retry_config :: retry_config where
  "default_retry_config = \<lparr> initial_delay_secs = 10, max_attempt_delay_secs = 3600,
     rc_per_clip_max_attempts = 12, per_clip_max_wallclock_hours = 24 \<rparr>"

definition default_capture_config :: capture_config where
  "default_capture_config = \<lparr> clip_duration_secs = 8, hang_margin_secs = 2, cooldown_secs = 30,
     liveness_stuck_secs = 300, liveness_poll_secs = 5, max_staging_bytes = 256 * 1024 * 1024 \<rparr>"

definition default_config :: config where
  "default_config = \<lparr> perchpub_url = None, upload_url = None, data_dir = ''/var/lib/perchstation'',
     queue_section = default_queue_config, retry_section = default_retry_config,
     capture_section = default_capture_config \<rparr>"

section \<open>Loading\<close>

definition load_config ::
  "(string \<Rightarrow> config option) \<Rightarrow> string \<Rightarrow> io_kind + string \<Rightarrow> config_error + config" where
  "load_config toml path contents =
     (case contents of
        Inr text \<Rightarrow> (case toml text of Some c \<Rightarrow> Inr c | None \<Rightarrow> Inl (Parse path))
      | Inl IoNotFound \<Rightarrow> Inr default_config
      | Inl err \<Rightarrow> Inl (ConfigIo path err))"

definition from_toml_str :: "(string \<Rightarrow> config option) \<Rightarrow> string \<Rightarrow> config_error + config" where
  "from_toml_str toml text = (case toml text of Some c \<Rightarrow> Inr c | None \<Rightarrow> Inl (Parse ''<inline>''))"

section \<open>Validation\<close>

definition max_clip_duration_secs :: u64 where
  "max_clip_duration_secs = 3600"

definition max_hang_margin_secs :: u64 where
  "max_hang_margin_secs = 600"

definition max_wallclock_hours :: u64 where
  "max_wallclock_hours = 24 * 365"

definition max_retry_delay_secs :: u64 where
  "max_retry_delay_secs = 7 * 24 * 3600"

definition validate :: "config \<Rightarrow> config_error + unit" where
  "validate c =
     (let q = queue_section c; k = capture_section c; r = retry_section c in
      if qc_max_clips q = 0 then Inl (OutOfRange ''queue.max_clips'' ''must be >= 1'')
      else if qc_max_bytes q = 0 then Inl (OutOfRange ''queue.max_bytes'' ''must be >= 1'')
      else if \<not> (1 \<le> delivered_retention_hours q \<and> delivered_retention_hours q \<le> max_wallclock_hours)
      then Inl (OutOfRange ''queue.delivered_retention_hours'' ''must be in 1..=8760'')
      else if \<not> (1 \<le> clip_duration_secs k \<and> clip_duration_secs k \<le> max_clip_duration_secs)
      then Inl (OutOfRange ''capture.clip_duration_secs'' ''must be in 1..=3600'')
      else if max_hang_margin_secs < hang_margin_secs k
      then Inl (OutOfRange ''capture.hang_margin_secs'' ''must be <= 600'')
      else if cooldown_secs k = 0 then Inl (OutOfRange ''capture.cooldown_secs'' ''must be >= 1'')
      else if liveness_stuck_secs k = 0 then Inl (OutOfRange ''capture.liveness_stuck_secs'' ''must be >= 1'')
      else if liveness_poll_secs k = 0 then Inl (OutOfRange ''capture.liveness_poll_secs'' ''must be >= 1'')
      else if rc_per_clip_max_attempts r = 0
      then Inl (OutOfRange ''retry.per_clip_max_attempts'' ''must be >= 1'')
      else if \<not> (1 \<le> per_clip_max_wallclock_hours r \<and> per_clip_max_wallclock_hours r \<le> max_wallclock_hours)
      then Inl (OutOfRange ''retry.per_clip_max_wallclock_hours'' ''must be in 1..=8760'')
      else if max_retry_delay_secs < max_attempt_delay_secs r
      then Inl (OutOfRange ''retry.max_attempt_delay_secs'' ''must be <= 604800 (7 days)'')
      else if max_attempt_delay_secs r < initial_delay_secs r
      then Inl (OutOfRange ''retry.initial_delay_secs'' ''must be <= retry.max_attempt_delay_secs'')
      else Inr ())"

definition is_set :: "string option \<Rightarrow> bool" where
  "is_set s \<longleftrightarrow> (case s of None \<Rightarrow> False | Some t \<Rightarrow> t \<noteq> [])"

definition ensure_runtime_ready :: "config \<Rightarrow> config_error + unit" where
  "ensure_runtime_ready c =
     (if \<not> is_set (perchpub_url c) then Inl (MissingRequired ''perchpub_url'') else validate c)"

section \<open>The upload base\<close>

record 'u url_lib =
  url_parse :: "string \<Rightarrow> 'u option"
  set_port :: "'u \<Rightarrow> u16 \<Rightarrow> 'u option"
  as_str :: "'u \<Rightarrow> string"

definition upload_port :: u16 where
  "upload_port = 8443"

definition trim_end_slashes :: "string \<Rightarrow> string" where
  "trim_end_slashes s = rev (dropWhile (\<lambda>c. c = CHR ''/'') (rev s))"

definition derive_upload_url :: "'u url_lib \<Rightarrow> string \<Rightarrow> config_error + string" where
  "derive_upload_url ul enrollment =
     (case url_parse ul enrollment of
        None \<Rightarrow> Inl (OutOfRange ''perchpub_url'' ''not a valid URL'')
      | Some url \<Rightarrow>
          (case set_port ul url upload_port of
             None \<Rightarrow> Inl (OutOfRange ''perchpub_url'' ''cannot set upload port'')
           | Some url' \<Rightarrow> Inr (trim_end_slashes (as_str ul url'))))"

definition upload_base :: "'u url_lib \<Rightarrow> config \<Rightarrow> config_error + string" where
  "upload_base ul c =
     (if is_set (upload_url c) then Inr (the (upload_url c))
      else if is_set (perchpub_url c) then derive_upload_url ul (the (perchpub_url c))
      else Inl (MissingRequired ''perchpub_url''))"

section \<open>Properties\<close>

lemma validate_bounds:
  assumes "validate c = Inr ()"
  shows "1 \<le> qc_max_clips (queue_section c)" "1 \<le> qc_max_bytes (queue_section c)"
    "1 \<le> delivered_retention_hours (queue_section c)" "delivered_retention_hours (queue_section c) \<le> 8760"
    "1 \<le> clip_duration_secs (capture_section c)" "clip_duration_secs (capture_section c) \<le> 3600"
    "hang_margin_secs (capture_section c) \<le> 600" "1 \<le> cooldown_secs (capture_section c)"
    "1 \<le> liveness_stuck_secs (capture_section c)" "1 \<le> liveness_poll_secs (capture_section c)"
    "1 \<le> rc_per_clip_max_attempts (retry_section c)"
    "1 \<le> per_clip_max_wallclock_hours (retry_section c)" "per_clip_max_wallclock_hours (retry_section c) \<le> 8760"
    "max_attempt_delay_secs (retry_section c) \<le> 604800"
    "initial_delay_secs (retry_section c) \<le> max_attempt_delay_secs (retry_section c)"
  using assms
  by (simp_all add: validate_def Let_def max_wallclock_hours_def max_clip_duration_secs_def
      max_hang_margin_secs_def max_retry_delay_secs_def split: if_splits)

text \<open>
  Configuration gate. \<open>ensure_runtime_ready\<close> accepts exactly the configurations with a
  URL whose bounds are all in range; an accepted one keeps every derived quantity in its
  width (record timeout, retention and budget in seconds), and the built-in defaults need
  only a URL to be accepted.
\<close>

theorem ensure_runtime_ready_sound:
  "(ensure_runtime_ready c = Inr () \<longleftrightarrow> is_set (perchpub_url c) \<and> validate c = Inr ()) \<and>
   (validate c = Inr () \<longrightarrow>
      clip_duration_secs (capture_section c) + hang_margin_secs (capture_section c) \<le> 4200 \<and>
      sat_add u64_max 0 (per_clip_max_wallclock_hours (retry_section c) * 3600)
        = per_clip_max_wallclock_hours (retry_section c) * 3600 \<and>
      delivered_retention_hours (queue_section c) * 3600 < 2 ^ 63 \<and>
      initial_delay_secs (retry_section c) \<le> 604800) \<and>
   ensure_runtime_ready (default_config\<lparr>perchpub_url := Some (x # xs)\<rparr>) = Inr ()"
proof (intro conjI impI)
  show "ensure_runtime_ready c = Inr () \<longleftrightarrow> is_set (perchpub_url c) \<and> validate c = Inr ()"
    by (simp add: ensure_runtime_ready_def)
next
  assume v: "validate c = Inr ()"
  note b = validate_bounds [OF v]
  show "clip_duration_secs (capture_section c) + hang_margin_secs (capture_section c) \<le> 4200"
    using b by linarith
  show "sat_add u64_max 0 (per_clip_max_wallclock_hours (retry_section c) * 3600)
        = per_clip_max_wallclock_hours (retry_section c) * 3600"
    using b(13) by (intro sat_add_exact [of 0, simplified]) (simp add: u64_max_def)
  show "delivered_retention_hours (queue_section c) * 3600 < 2 ^ 63"
    using b(4) by simp
  show "initial_delay_secs (retry_section c) \<le> 604800"
    using b(14,15) by linarith
next
  show "ensure_runtime_ready (default_config\<lparr>perchpub_url := Some (x # xs)\<rparr>) = Inr ()"
    by (simp add: ensure_runtime_ready_def validate_def default_config_def default_queue_config_def
        default_retry_config_def default_capture_config_def is_set_def max_wallclock_hours_def
        max_clip_duration_secs_def max_hang_margin_secs_def max_retry_delay_secs_def)
qed

theorem ensure_runtime_ready_sound_witness:
  "clip_duration_secs (capture_section default_config) + hang_margin_secs (capture_section default_config) \<le> 4200"
  using ensure_runtime_ready_sound [of default_config "CHR ''h''" "[]"]
  by (simp add: validate_def default_config_def default_queue_config_def
        default_retry_config_def default_capture_config_def max_wallclock_hours_def
        max_clip_duration_secs_def max_hang_margin_secs_def max_retry_delay_secs_def)

text \<open>
  The upload base never ends in a slash when it is derived, an explicit upload URL is
  used verbatim, and a derived one goes to the upload port of the enrollment host.
\<close>

theorem upload_base_sound:
  assumes "upload_base ul c = Inr s"
  shows "(is_set (upload_url c) \<longrightarrow> upload_url c = Some s) \<and>
    (\<not> is_set (upload_url c) \<longrightarrow>
       (\<exists>e u u'. perchpub_url c = Some e \<and> url_parse ul e = Some u \<and> set_port ul u 8443 = Some u' \<and>
          (\<exists>k. as_str ul u' = s @ replicate k CHR ''/'') \<and> (s = [] \<or> last s \<noteq> CHR ''/'')))"
proof -
  have strip: "\<exists>k. t = trim_end_slashes t @ replicate k CHR ''/''" for t
  proof -
    have "rev t = takeWhile (\<lambda>c. c = CHR ''/'') (rev t) @ dropWhile (\<lambda>c. c = CHR ''/'') (rev t)" by simp
    then have "t = rev (dropWhile (\<lambda>c. c = CHR ''/'') (rev t)) @ rev (takeWhile (\<lambda>c. c = CHR ''/'') (rev t))"
      by (metis rev_append rev_rev_ident)
    moreover have "takeWhile (\<lambda>c. c = CHR ''/'') (rev t) = replicate (length (takeWhile (\<lambda>c. c = CHR ''/'') (rev t))) CHR ''/''"
      by (intro replicate_eqI) (auto dest: set_takeWhileD)
    ultimately show ?thesis unfolding trim_end_slashes_def by (metis rev_replicate)
  qed
  have last: "trim_end_slashes t = [] \<or> last (trim_end_slashes t) \<noteq> CHR ''/''" for t
    using hd_dropWhile [of "\<lambda>c. c = CHR ''/''" "rev t"] by (auto simp: trim_end_slashes_def last_rev)
  show ?thesis
    using assms strip last
    by (auto simp: upload_base_def derive_upload_url_def is_set_def upload_port_def split: if_splits option.splits)
qed

theorem upload_base_sound_witness:
  "\<exists>s. upload_base \<lparr> url_parse = Some, set_port = (\<lambda>u p. Some (u @ '':8443/'')), as_str = id \<rparr>
      (default_config\<lparr>perchpub_url := Some ''https://h''\<rparr>) = Inr s \<and> last s \<noteq> CHR ''/''"
proof -
  let ?ul = "\<lparr> url_parse = Some, set_port = (\<lambda>u p. Some (u @ '':8443/'')), as_str = id \<rparr>"
  have "upload_base ?ul (default_config\<lparr>perchpub_url := Some ''https://h''\<rparr>) = Inr ''https://h:8443''"
    by (simp add: upload_base_def derive_upload_url_def is_set_def default_config_def trim_end_slashes_def)
  from upload_base_sound [OF this] this show ?thesis
    by (auto simp: is_set_def default_config_def)
qed

end
