(* ===== verification/Queue_Policy.thy ===== *)
theory Queue_Policy
  imports Queue_Order Config "HOL-Library.Product_Lexorder" "HOL-Library.Multiset"
begin

text \<open>
  Queue bounds and eviction: \<^verbatim>\<open>queue/policy.rs\<close> and the two implementations of the \<^verbatim>\<open>Inbox\<close>
  trait of \<^verbatim>\<open>queue/inbox.rs\<close>. The interface of an inbox, as the capture subsystem relies on it,
  is the locale \<open>inbox\<close>; \<^verbatim>\<open>StoreInbox\<close> and \<^verbatim>\<open>PolicyInbox\<close> around it are its two models.
\<close>

section \<open>Policies and census\<close>

record queue_policy =
  max_clips :: u32
  max_bytes :: u64
  eviction :: eviction_policy

definition policy_from_config :: "queue_config \<Rightarrow> queue_policy" where
  "policy_from_config cfg =
     \<lparr> max_clips = qc_max_clips cfg, max_bytes = qc_max_bytes cfg, eviction = qc_eviction cfg \<rparr>"

datatype eviction_reason = MaxClipsExceeded | MaxBytesExceeded | BothExceeded

fun reason_as_str :: "eviction_reason \<Rightarrow> string" where
  "reason_as_str MaxClipsExceeded = ''max_clips_exceeded''"
| "reason_as_str MaxBytesExceeded = ''max_bytes_exceeded''"
| "reason_as_str BothExceeded = ''both_exceeded''"

fun policy_as_str :: "eviction_policy \<Rightarrow> string" where
  "policy_as_str DropOldestUndelivered = ''drop_oldest_undelivered''"
| "policy_as_str RefuseNew = ''refuse_new''"

datatype evictable_location = DeliveredUndeliverable | PendingClip

record evictable_entry =
  location :: evictable_location
  ev_entry :: clip_queue_entry

definition on_disk_bytes :: "evictable_entry \<Rightarrow> u64" where
  "on_disk_bytes c = (case location c of PendingClip \<Rightarrow> byte_size (ev_entry c) | DeliveredUndeliverable \<Rightarrow> 0)"

record census =
  floor_clips :: u32
  floor_bytes :: u64
  candidates :: "evictable_entry list"

text \<open>
  The sum over the candidates is an unchecked \<^verbatim>\<open>u64\<close> sum and wraps in the release build; the
  other additions saturate.
\<close>

definition census_totals :: "census \<Rightarrow> u32 \<times> u64" where
  "census_totals c =
     (sat_add u32_max (floor_clips c) (min (length (candidates c)) u32_max),
      sat_add u64_max (floor_bytes c) (wrap_u64 (sum_list (map on_disk_bytes (candidates c)))))"

definition breaches :: "queue_policy \<Rightarrow> u64 \<Rightarrow> u32 \<Rightarrow> u64 \<Rightarrow> bool" where
  "breaches pol incoming clips bytes \<longleftrightarrow>
     max_clips pol < sat_add u32_max clips 1 \<or> max_bytes pol < sat_add u64_max bytes incoming"

fun read_sidecars_loop ::
  "'b codec \<Rightarrow> dir \<Rightarrow> string list \<Rightarrow> ('b, queue_error, clip_queue_entry list) io" where
  "read_sidecars_loop cd d [] = ret []"
| "read_sidecars_loop cd d (n # ns) =
     bind_io (map_err (Io (dir_path d)) fs_next_entry) (\<lambda>_.
     if has_ext ''json'' n then
       match_io (read_sidecar cd (d, n))
         (\<lambda>e. bind_io (read_sidecars_loop cd d ns) (\<lambda>rest. ret (e # rest)))
         (\<lambda>err. case err of
            Io p x \<Rightarrow> if x = NotFound then read_sidecars_loop cd d ns else throw err
          | _ \<Rightarrow> throw err)
     else read_sidecars_loop cd d ns)"

definition read_sidecars :: "'b codec \<Rightarrow> dir \<Rightarrow> ('b, queue_error, clip_queue_entry list) io" where
  "read_sidecars cd d = bind_io (map_err (Io (dir_path d)) (fs_read_dir d)) (read_sidecars_loop cd d)"

definition entry_sort_key :: "clip_queue_entry \<Rightarrow> instant \<times> string" where
  "entry_sort_key e = (captured_at e, clip_id e)"

definition inflight_floor :: "clip_queue_entry list \<Rightarrow> u32 \<times> u64" where
  "inflight_floor es =
     foldl (\<lambda>(c, b) e. (sat_add u32_max c 1, sat_add u64_max b (byte_size e))) (0, 0) es"

definition is_undeliverable :: "clip_queue_entry \<Rightarrow> bool" where
  "is_undeliverable e \<longleftrightarrow> entry_outcome e = Some Undeliverable"

definition take_census :: "'b codec \<Rightarrow> ('b, queue_error, census) io" where
  "take_census cd =
     bind_io (read_sidecars cd InflightDir) (\<lambda>inflight.
     bind_io (read_sidecars cd DeliveredDir) (\<lambda>delivered.
     bind_io (read_sidecars cd PendingDir) (\<lambda>pending.
     let (fc, fb) = inflight_floor inflight;
         fc' = foldl (\<lambda>c e. if is_undeliverable e then c else sat_add u32_max c 1) fc delivered;
         undeliverable = map (\<lambda>e. \<lparr> location = DeliveredUndeliverable, ev_entry = e \<rparr>)
                           (filter is_undeliverable delivered);
         pend = map (\<lambda>e. \<lparr> location = PendingClip, ev_entry = e \<rparr>) pending in
     ret \<lparr> floor_clips = fc', floor_bytes = fb,
           candidates = sort_key (\<lambda>c. entry_sort_key (ev_entry c)) undeliverable
                        @ sort_key (\<lambda>c. entry_sort_key (ev_entry c)) pend \<rparr>)))"

section \<open>Eviction\<close>

fun location_dir :: "evictable_location \<Rightarrow> dir" where
  "location_dir DeliveredUndeliverable = DeliveredDir"
| "location_dir PendingClip = PendingDir"

definition evict :: "evictable_entry \<Rightarrow> ('b, queue_error, unit) io" where
  "evict c =
     (let cid = clip_id (ev_entry c); d = location_dir (location c) in
      bind_io (remove_if_exists (media_at d cid)) (\<lambda>_. remove_if_exists (sidecar_at d cid)))"

record eviction_record =
  evicted_id :: string
  ev_reason :: eviction_reason
  remaining_clips :: u32
  remaining_bytes :: u64

record policy_outcome =
  evictions :: "eviction_record list"
  verdict :: "inbox_error + unit"

definition eviction_reason_for :: "queue_policy \<Rightarrow> u64 \<Rightarrow> u32 \<Rightarrow> u64 \<Rightarrow> eviction_reason" where
  "eviction_reason_for pol incoming clips bytes =
     (case (max_clips pol < sat_add u32_max clips 1, max_bytes pol < sat_add u64_max bytes incoming) of
        (True, True) \<Rightarrow> BothExceeded
      | (False, True) \<Rightarrow> MaxBytesExceeded
      | _ \<Rightarrow> MaxClipsExceeded)"

fun evict_loop ::
  "queue_policy \<Rightarrow> u64 \<Rightarrow> inbox_error \<Rightarrow> evictable_entry list \<Rightarrow> u32 \<Rightarrow> u64 \<Rightarrow> eviction_record list
     \<Rightarrow> ('b, inbox_error, policy_outcome) io" where
  "evict_loop pol incoming full [] clips bytes done_recs =
     (if breaches pol incoming clips bytes
      then ret \<lparr> evictions = done_recs, verdict = Inl full \<rparr>
      else ret \<lparr> evictions = done_recs, verdict = Inr () \<rparr>)"
| "evict_loop pol incoming full (c # cs) clips bytes done_recs =
     (if breaches pol incoming clips bytes then
        match_io (evict c)
          (\<lambda>_. let clips' = sat_sub clips 1; bytes' = sat_sub bytes (on_disk_bytes c) in
            evict_loop pol incoming full cs clips' bytes'
              (done_recs @ [\<lparr> evicted_id = clip_id (ev_entry c),
                              ev_reason = eviction_reason_for pol incoming clips bytes,
                              remaining_clips = clips', remaining_bytes = bytes' \<rparr>]))
          (\<lambda>err. ret \<lparr> evictions = done_recs, verdict = Inl (Queue err) \<rparr>)
      else ret \<lparr> evictions = done_recs, verdict = Inr () \<rparr>)"

definition apply_policy :: "'b codec \<Rightarrow> queue_policy \<Rightarrow> u64 \<Rightarrow> ('b, inbox_error, policy_outcome) io" where
  "apply_policy cd pol incoming =
     match_io (take_census cd)
       (\<lambda>c. let (total_clips, total_bytes) = census_totals c;
                full = QueueFull total_clips (max_clips pol) total_bytes (max_bytes pol) in
            if \<not> breaches pol incoming total_clips total_bytes
            then ret \<lparr> evictions = [], verdict = Inr () \<rparr>
            else (case eviction pol of
                    RefuseNew \<Rightarrow> ret \<lparr> evictions = [], verdict = Inl full \<rparr>
                  | DropOldestUndelivered \<Rightarrow>
                      if breaches pol incoming (floor_clips c) (floor_bytes c)
                      then ret \<lparr> evictions = [], verdict = Inl full \<rparr>
                      else evict_loop pol incoming full (candidates c) total_clips total_bytes []))
       (\<lambda>err. ret \<lparr> evictions = [], verdict = Inl (Queue err) \<rparr>)"

section \<open>The inboxes\<close>

definition store_submit ::
  "'b codec \<Rightarrow> (instant \<Rightarrow> string) \<Rightarrow> path \<Rightarrow> instant \<Rightarrow> instant \<Rightarrow> ('b, inbox_error, clip_queue_entry) io" where
  "store_submit cd fmt clip cap now = map_err Queue (enqueue cd fmt clip cap now)"

fun emit_evictions :: "queue_policy \<Rightarrow> eviction_record list \<Rightarrow> ('b, 'e, unit) io" where
  "emit_evictions pol [] = ret ()"
| "emit_evictions pol (r # rs) =
     bind_io (emit (QueueEv (QueueEvicted (evicted_id r) (reason_as_str (ev_reason r))
        (policy_as_str (eviction pol)) (remaining_clips r) (remaining_bytes r)))) (\<lambda>_.
     emit_evictions pol rs)"

definition policy_submit ::
  "'b codec \<Rightarrow> queue_policy \<Rightarrow> (path \<Rightarrow> instant \<Rightarrow> instant \<Rightarrow> ('b, inbox_error, clip_queue_entry) io)
     \<Rightarrow> path \<Rightarrow> instant \<Rightarrow> instant \<Rightarrow> ('b, inbox_error, clip_queue_entry) io" where
  "policy_submit cd pol inner clip cap now =
     bind_io (match_io (fs_metadata_len cd clip) ret (\<lambda>_. ret 0)) (\<lambda>incoming.
     bind_io (apply_policy cd pol incoming) (\<lambda>out.
     bind_io (emit_evictions pol (evictions out)) (\<lambda>_.
     case verdict out of
       Inl err \<Rightarrow> throw err
     | Inr _ \<Rightarrow> inner clip cap now)))"

section \<open>Footprints\<close>

lemma uniform_policy [simp]:
  "uniform (read_sidecars_loop cd d ns)" "uniform (evict c)" "uniform (emit_evictions pol rs)"
proof -
  show "uniform (read_sidecars_loop cd d ns)" by (induction ns) (auto split: queue_error.split)
  show "uniform (evict c)" by (simp add: evict_def Let_def)
  show "uniform (emit_evictions pol rs)" by (induction rs) auto
qed

lemma uniform_read_sidecars [simp]: "uniform (read_sidecars cd d)"
  by (simp add: read_sidecars_def)

lemma uniform_take_census [simp]: "uniform (take_census cd)"
  by (simp add: take_census_def Let_def split: prod.split)

lemma uniform_evict_loop [simp]: "uniform (evict_loop pol inc full cs clips bytes recs)"
  by (induction cs arbitrary: clips bytes recs) (auto simp: Let_def)

lemma uniform_apply_policy [simp]: "uniform (apply_policy cd pol inc)"
  by (auto simp: apply_policy_def Let_def split: prod.split eviction_policy.split)

lemma footprint_read_sidecars_loop [simp]: "footprint P (read_sidecars_loop cd d ns)"
  by (induction ns) (auto split: queue_error.split)

lemma footprint_take_census [simp]: "footprint P (take_census cd)"
  by (simp add: take_census_def read_sidecars_def Let_def split: prod.split)

lemma wf_read_sidecars_loop [simp]: "preserves wf_world (read_sidecars_loop cd d ns)"
  by (induction ns) (auto split: queue_error.split)

lemma wf_take_census [simp]: "preserves wf_world (take_census cd)"
  by (simp add: take_census_def read_sidecars_def Let_def split: prod.split)

definition evict_paths :: "evictable_entry list \<Rightarrow> path set" where
  "evict_paths cs = (\<Union>c \<in> set cs. {media_at (location_dir (location c)) (clip_id (ev_entry c)),
     sidecar_at (location_dir (location c)) (clip_id (ev_entry c))})"

lemma footprint_evict:
  assumes "c \<in> set cs"
  shows "footprint (evict_paths cs) (evict c)"
proof (rule footprint_mono)
  let ?d = "location_dir (location c)" and ?cid = "clip_id (ev_entry c)"
  show "footprint {media_at ?d ?cid, sidecar_at ?d ?cid} (evict c)" by (simp add: evict_def Let_def)
  show "{media_at ?d ?cid, sidecar_at ?d ?cid} \<subseteq> evict_paths cs"
    using assms by (auto simp: evict_paths_def)
qed

lemma footprint_evict_loop: "footprint (evict_paths cs) (evict_loop pol inc full cs clips bytes recs)"
proof (induction cs arbitrary: clips bytes recs)
  case (Cons c cs)
  note IH = footprint_mono [OF Cons.IH, of "evict_paths (c # cs)"]
  have "evict_paths cs \<subseteq> evict_paths (c # cs)" by (auto simp: evict_paths_def)
  then show ?case by (simp add: Let_def footprint_evict IH)
qed simp

lemma wf_evict_loop [simp]: "preserves wf_world (evict_loop pol inc full cs clips bytes recs)"
  by (induction cs arbitrary: clips bytes recs) (auto simp: Let_def evict_def)

lemma evict_paths_dirs: "evict_paths cs \<subseteq> {p. fst p \<in> {PendingDir, DeliveredDir}}"
proof -
  have "location_dir l = PendingDir \<or> location_dir l = DeliveredDir" for l by (cases l) auto
  then show ?thesis unfolding evict_paths_def by (simp add: UN_subset_iff)
qed

lemma footprint_apply_policy: "footprint {p. fst p \<in> {PendingDir, DeliveredDir}} (apply_policy cd pol inc)"
  unfolding apply_policy_def Let_def
  by (intro footprint_match)
    (simp_all add: footprint_mono [OF footprint_evict_loop evict_paths_dirs, simplified]
      split: prod.split eviction_policy.split)

lemma wf_apply_policy [simp]: "preserves wf_world (apply_policy cd pol inc)"
  by (auto simp: apply_policy_def Let_def split: prod.split eviction_policy.split)

lemma footprint_emit_evictions [simp]: "footprint P (emit_evictions pol rs)"
  by (induction rs) auto

lemma wf_emit_evictions [simp]: "preserves wf_world (emit_evictions pol rs)"
  by (induction rs) auto

section \<open>What a census sees\<close>

lemma read_sidecars_loop_wlp:
  "wlp (read_sidecars_loop cd d ns)
     (\<lambda>es w'. w' = w \<and> (\<forall>e \<in> set es. \<exists>n. has_ext ''json'' n \<and> holds_entry cd w (d, n) e))
     (\<lambda>_ w'. w' = w) (\<lambda>w'. w' = w) w"
proof (induction ns)
  case Nil
  then show ?case by (simp add: wlp_simps)
next
  case (Cons n ns)
  have hit: "wlp (read_sidecars_loop cd d ns)
      (\<lambda>es w'. w' = w \<and> (\<forall>e' \<in> set (e # es). \<exists>n. has_ext ''json'' n \<and> holds_entry cd w (d, n) e'))
      (\<lambda>_ w'. w' = w) (\<lambda>w'. w' = w) w"
    if "has_ext ''json'' n" "look w (d, n) = Some b" "dec cd b = Some e" for b e
    by (rule wlp_mono [OF Cons.IH]) (use that in \<open>auto simp: holds_entry_def\<close>)
  show ?case
    using Cons.IH hit by (auto simp: wlp_simps wlp_match split: option.splits)
qed

lemma read_sidecars_wlp:
  "wlp (read_sidecars cd d)
     (\<lambda>es w'. w' = w \<and> (\<forall>e \<in> set es. \<exists>n. has_ext ''json'' n \<and> holds_entry cd w (d, n) e))
     (\<lambda>_ w'. w' = w) (\<lambda>w'. w' = w) w"
  using read_sidecars_loop_wlp by (simp add: read_sidecars_def wlp_simps)

definition genuine :: "'b codec \<Rightarrow> 'b world \<Rightarrow> evictable_entry \<Rightarrow> bool" where
  "genuine cd w c \<longleftrightarrow>
     (\<exists>n. has_ext ''json'' n \<and> holds_entry cd w (location_dir (location c), n) (ev_entry c)) \<and>
     (location c = DeliveredUndeliverable \<longrightarrow> is_undeliverable (ev_entry c))"

lemma take_census_wlp:
  "wlp (take_census cd) (\<lambda>c w'. w' = w \<and> (\<forall>x \<in> set (candidates c). genuine cd w x))
     (\<lambda>_ w'. w' = w) (\<lambda>w'. w' = w) w"
proof -
  let ?R = "\<lambda>d es w'. w' = w \<and> (\<forall>e \<in> set es. \<exists>n. has_ext ''json'' n \<and> holds_entry cd w (d, n) e)"
  have fin: "wlp (read_sidecars cd PendingDir)
      (\<lambda>pending w'. \<forall>fc fb. (w' = w \<and> (\<forall>x \<in> set (candidates \<lparr> floor_clips = fc, floor_bytes = fb,
           candidates = sort_key (\<lambda>c. entry_sort_key (ev_entry c))
               (map (\<lambda>e. \<lparr> location = DeliveredUndeliverable, ev_entry = e \<rparr>) (filter is_undeliverable del))
             @ sort_key (\<lambda>c. entry_sort_key (ev_entry c))
                 (map (\<lambda>e. \<lparr> location = PendingClip, ev_entry = e \<rparr>) pending) \<rparr>). genuine cd w x)))
      (\<lambda>_ w'. w' = w) (\<lambda>w'. w' = w) w" if "?R DeliveredDir del w" for del
    by (rule wlp_mono [OF read_sidecars_wlp]) (use that in \<open>auto simp: genuine_def\<close>)
  have mid: "wlp (read_sidecars cd DeliveredDir)
      (\<lambda>del w'. w' = w \<and> ?R DeliveredDir del w) (\<lambda>_ w'. w' = w) (\<lambda>w'. w' = w) w"
    by (rule wlp_mono [OF read_sidecars_wlp]) auto
  show ?thesis
    unfolding take_census_def
    apply (simp add: wlp_simps Let_def case_prod_beta)
    apply (rule wlp_mono [OF read_sidecars_wlp], clarify)
      apply (rule wlp_mono [OF mid], clarify)
        apply (rule wlp_mono [OF fin])
           apply blast
          apply (simp add: wlp_ret)
         apply auto
    done
qed

section \<open>The eviction loop\<close>

text \<open>
  The totals after the first \<open>k\<close> candidates are gone, and the log of those evictions.
\<close>

definition clips_after :: "u32 \<Rightarrow> nat \<Rightarrow> u32" where
  "clips_after clips k = clips - k"

definition bytes_after :: "evictable_entry list \<Rightarrow> u64 \<Rightarrow> nat \<Rightarrow> u64" where
  "bytes_after cs bytes k = bytes - sum_list (map on_disk_bytes (take k cs))"

fun eviction_log :: "queue_policy \<Rightarrow> u64 \<Rightarrow> evictable_entry list \<Rightarrow> u32 \<Rightarrow> u64 \<Rightarrow> eviction_record list" where
  "eviction_log pol inc [] clips bytes = []"
| "eviction_log pol inc (c # cs) clips bytes =
     \<lparr> evicted_id = clip_id (ev_entry c), ev_reason = eviction_reason_for pol inc clips bytes,
       remaining_clips = clips - 1, remaining_bytes = bytes - on_disk_bytes c \<rparr>
     # eviction_log pol inc cs (clips - 1) (bytes - on_disk_bytes c)"

text \<open>\<open>over pol inc cs clips bytes k\<close>: after \<open>k\<close> evictions a ceiling is still breached.\<close>

definition over :: "queue_policy \<Rightarrow> u64 \<Rightarrow> evictable_entry list \<Rightarrow> u32 \<Rightarrow> u64 \<Rightarrow> nat \<Rightarrow> bool" where
  "over pol inc cs clips bytes k = breaches pol inc (clips_after clips k) (bytes_after cs bytes k)"

lemma over_0 [simp]: "over pol inc cs clips bytes 0 = breaches pol inc clips bytes"
  by (simp add: over_def clips_after_def bytes_after_def)

lemma over_Suc [simp]:
  "over pol inc (c # cs) clips bytes (Suc k) = over pol inc cs (clips - 1) (bytes - on_disk_bytes c) k"
  by (simp add: over_def clips_after_def bytes_after_def)

lemma eviction_log_ids [simp]:
  "map evicted_id (eviction_log pol inc cs clips bytes) = map (\<lambda>c. clip_id (ev_entry c)) cs"
  by (induction cs arbitrary: clips bytes) auto

lemma length_eviction_log [simp]: "length (eviction_log pol inc cs clips bytes) = length cs"
  by (induction cs arbitrary: clips bytes) auto

text \<open>What a run of the loop reports, under any faults.\<close>

definition loop_post ::
  "queue_policy \<Rightarrow> u64 \<Rightarrow> inbox_error \<Rightarrow> evictable_entry list \<Rightarrow> u32 \<Rightarrow> u64 \<Rightarrow> eviction_record list
     \<Rightarrow> 'b world \<Rightarrow> policy_outcome \<Rightarrow> 'b world \<Rightarrow> bool" where
  "loop_post pol inc full cs clips bytes recs w out w' \<longleftrightarrow>
     (\<exists>k \<le> length cs.
        evictions out = recs @ eviction_log pol inc (take k cs) clips bytes \<and>
        (\<forall>j < k. over pol inc cs clips bytes j) \<and>
        (case verdict out of
           Inr _ \<Rightarrow> \<not> over pol inc cs clips bytes k
         | Inl e \<Rightarrow> (e = full \<and> k = length cs \<and> over pol inc cs clips bytes k) \<or> (\<exists>q. e = Queue q)) \<and>
        (\<forall>p \<in> evict_paths (take k cs). look w' p = None)) \<and>
     (\<forall>p. look w p = None \<longrightarrow> look w' p = None)"

lemma loop_post_stop:
  "\<not> breaches pol inc clips bytes \<Longrightarrow>
     loop_post pol inc full cs clips bytes recs w \<lparr> evictions = recs, verdict = Inr () \<rparr> w"
  "(\<And>p. look w p = None \<Longrightarrow> look w' p = None) \<Longrightarrow>
     loop_post pol inc full cs clips bytes recs w \<lparr> evictions = recs, verdict = Inl (Queue q) \<rparr> w'"
  by (auto simp: loop_post_def evict_paths_def intro!: exI [of _ 0])

lemma loop_post_Cons:
  assumes "breaches pol inc clips bytes"
    and post: "loop_post pol inc full cs (clips - 1) (bytes - on_disk_bytes c)
       (recs @ [\<lparr> evicted_id = clip_id (ev_entry c), ev_reason = eviction_reason_for pol inc clips bytes,
                  remaining_clips = clips - 1, remaining_bytes = bytes - on_disk_bytes c \<rparr>]) w1 out w'"
    and gone: "look w1 (media_at (location_dir (location c)) (clip_id (ev_entry c))) = None"
      "look w1 (sidecar_at (location_dir (location c)) (clip_id (ev_entry c))) = None"
      "\<And>p. look w p = None \<Longrightarrow> look w1 p = None"
  shows "loop_post pol inc full (c # cs) clips bytes recs w out w'"
proof -
  obtain k where k: "k \<le> length cs"
    "evictions out = recs @ eviction_log pol inc (take (Suc k) (c # cs)) clips bytes"
    "\<forall>j < k. over pol inc cs (clips - 1) (bytes - on_disk_bytes c) j"
    "case verdict out of Inr _ \<Rightarrow> \<not> over pol inc cs (clips - 1) (bytes - on_disk_bytes c) k
     | Inl e \<Rightarrow> (e = full \<and> k = length cs \<and> over pol inc cs (clips - 1) (bytes - on_disk_bytes c) k) \<or> (\<exists>q. e = Queue q)"
    "\<forall>p \<in> evict_paths (take k cs). look w' p = None" "\<forall>p. look w1 p = None \<longrightarrow> look w' p = None"
    using post unfolding loop_post_def by auto
  have js: "over pol inc (c # cs) clips bytes j" if "j < Suc k" for j
    using that k(3) assms(1) by (cases j) auto
  have "look w' p = None" if "p \<in> evict_paths (take (Suc k) (c # cs))" for p
    using that k(5,6) gone(1,2) by (auto simp: evict_paths_def)
  then show ?thesis
    unfolding loop_post_def using k js gone(3)
    by (intro conjI exI [of _ "Suc k"]) (auto split: sum.splits)
qed

lemma evict_wlp:
  "wlp (evict c)
     (\<lambda>_ w1. look w1 (media_at (location_dir (location c)) (clip_id (ev_entry c))) = None \<and>
        look w1 (sidecar_at (location_dir (location c)) (clip_id (ev_entry c))) = None \<and>
        (\<forall>p. look w p = None \<longrightarrow> look w1 p = None))
     (\<lambda>_ w1. \<forall>p. look w p = None \<longrightarrow> look w1 p = None) (\<lambda>w1. True) w"
  by (auto simp: evict_def Let_def wlp_simps split: option.splits)

lemma evict_loop_wlp:
  "wlp (evict_loop pol inc full cs clips bytes recs)
     (loop_post pol inc full cs clips bytes recs w) (\<lambda>_ _. False) (\<lambda>_. True) w"
proof (induction cs arbitrary: clips bytes recs w)
  case Nil
  show ?case
    by (auto simp: wlp_simps loop_post_def evict_paths_def split: if_splits)
next
  case (Cons c cs)
  show ?case
  proof (cases "breaches pol inc clips bytes")
    case False
    then show ?thesis by (simp add: wlp_simps loop_post_stop)
  next
    case True
    show ?thesis
      using True
      by (auto simp: wlp_match wlp_ret Let_def intro!: wlp_mono [OF evict_wlp [of c w]] wlp_mono [OF Cons.IH]
          loop_post_Cons loop_post_stop)
  qed
qed

section \<open>Properties of the policy\<close>

lemma breaches_mono:
  "breaches pol inc clips bytes \<Longrightarrow> clips \<le> clips' \<Longrightarrow> bytes \<le> bytes' \<Longrightarrow> breaches pol inc clips' bytes'"
  using sat_add_mono [of clips clips' 1 1 u32_max] sat_add_mono [of bytes bytes' inc inc u64_max]
  unfolding breaches_def by linarith

text \<open>
  Evicting every candidate brings the totals down to the floor or below it, saturation and
  the wrapping sum included.
\<close>

lemma all_evicted_below_floor:
  assumes "census_totals c = (tc, tb)" "over pol inc (candidates c) tc tb (length (candidates c))"
  shows "breaches pol inc (floor_clips c) (floor_bytes c)"
proof (rule breaches_mono)
  show "breaches pol inc (clips_after tc (length (candidates c))) (bytes_after (candidates c) tb (length (candidates c)))"
    using assms(2) by (simp add: over_def)
  show "clips_after tc (length (candidates c)) \<le> floor_clips c"
    using assms(1) by (auto simp: census_totals_def clips_after_def sat_add_def)
  show "bytes_after (candidates c) tb (length (candidates c)) \<le> floor_bytes c"
    using assms(1) wrap_u64_le [of "sum_list (map on_disk_bytes (candidates c))"]
    by (auto simp: census_totals_def bytes_after_def sat_add_def)
qed

lemma apply_policy_unfold:
  assumes "take_census cd w fs = (Ok c, w1, fs1)" "census_totals c = (tc, tb)"
  shows "apply_policy cd pol inc w fs =
     (if \<not> breaches pol inc tc tb then (Ok \<lparr> evictions = [], verdict = Inr () \<rparr>, w1, fs1)
      else if eviction pol = RefuseNew \<or> breaches pol inc (floor_clips c) (floor_bytes c)
      then (Ok \<lparr> evictions = [], verdict = Inl (QueueFull tc (max_clips pol) tb (max_bytes pol)) \<rparr>, w1, fs1)
      else evict_loop pol inc (QueueFull tc (max_clips pol) tb (max_bytes pol)) (candidates c) tc tb [] w1 fs1)"
  using assms by (simp add: apply_policy_def match_io_def ret_def Let_def split: eviction_policy.split)

text \<open>
  C18: Eviction is exact and honest. Under every fault schedule the clips reported as
  evicted are a prefix of the candidates, taken while a ceiling was still breached, and are
  off the disk; when the verdict lets the new clip in, both ceilings hold with it; and
  \<open>QueueFull\<close> is only ever answered before anything was evicted, so the loop's backstop is
  never reached.
\<close>

theorem apply_policy_evicts_prefix:
  assumes census: "take_census cd w fs = (Ok c, w1, fs1)" and totals: "census_totals c = (tc, tb)"
    and run: "apply_policy cd pol inc w fs = (Ok out, w', fs')"
  shows "\<exists>k \<le> length (candidates c).
      map evicted_id (evictions out) = map (\<lambda>x. clip_id (ev_entry x)) (take k (candidates c)) \<and>
      (\<forall>j < k. over pol inc (candidates c) tc tb j) \<and>
      (\<forall>p \<in> evict_paths (take k (candidates c)). look w' p = None) \<and>
      (verdict out = Inr () \<longrightarrow> max_clips pol < u32_max \<longrightarrow> max_bytes pol < u64_max \<longrightarrow>
         clips_after tc k + 1 \<le> max_clips pol \<and> bytes_after (candidates c) tb k + inc \<le> max_bytes pol) \<and>
      (\<forall>a b a' b'. verdict out = Inl (QueueFull a b a' b') \<longrightarrow> evictions out = [])"
proof -
  let ?cs = "candidates c" and ?full = "QueueFull tc (max_clips pol) tb (max_bytes pol)"
  have room: "clips + 1 \<le> max_clips pol \<and> bytes + inc \<le> max_bytes pol"
    if "\<not> breaches pol inc clips bytes" "max_clips pol < u32_max" "max_bytes pol < u64_max" for clips bytes
    using that by (auto simp: breaches_def sat_add_def min_def not_less split: if_splits)
  show ?thesis
  proof (cases "\<not> breaches pol inc tc tb \<or> eviction pol = RefuseNew \<or> breaches pol inc (floor_clips c) (floor_bytes c)")
    case True
    then show ?thesis
      using run room [of tc tb] unfolding apply_policy_unfold [OF census totals]
      by (auto intro!: exI [of _ 0] simp: clips_after_def bytes_after_def evict_paths_def split: if_splits)
  next
    case False
    then have "evict_loop pol inc ?full ?cs tc tb [] w1 fs1 = (Ok out, w', fs')"
      using run unfolding apply_policy_unfold [OF census totals] by simp
    from wlp_run [OF evict_loop_wlp this]
    obtain k where k: "k \<le> length ?cs" "evictions out = eviction_log pol inc (take k ?cs) tc tb"
      "\<forall>j < k. over pol inc ?cs tc tb j"
      "case verdict out of Inr _ \<Rightarrow> \<not> over pol inc ?cs tc tb k
       | Inl e \<Rightarrow> (e = ?full \<and> k = length ?cs \<and> over pol inc ?cs tc tb k) \<or> (\<exists>q. e = Queue q)"
      "\<forall>p \<in> evict_paths (take k ?cs). look w' p = None"
      by (auto simp: loop_post_def)
    have "\<not> over pol inc ?cs tc tb (length ?cs)"
      using all_evicted_below_floor [OF totals] False by blast
    then have "verdict out \<noteq> Inl (QueueFull a b a' b')" for a b a' b'
      using k(4) by auto
    moreover have "verdict out = Inr () \<Longrightarrow> \<not> breaches pol inc (clips_after tc k) (bytes_after ?cs tb k)"
      using k(4) by (simp add: over_def)
    ultimately show ?thesis
      using k room by (intro exI [of _ k]) auto
  qed
qed

definition ex_full :: "blob world" where
  "ex_full = \<lparr> files = [(sidecar_at PendingDir ''b'', Sidecar (new_entry ''b'' 11 21 7)),
       (media_at PendingDir ''b'', Bytes 7),
       (sidecar_at PendingDir ''a'', Sidecar (new_entry ''a'' 10 20 5)), (media_at PendingDir ''a'', Bytes 5)],
     seq = 2, journal = [] \<rparr>"

definition ex_policy :: queue_policy where
  "ex_policy = \<lparr> max_clips = 2, max_bytes = 100, eviction = DropOldestUndelivered \<rparr>"

definition ex_census :: census where
  "ex_census = \<lparr> floor_clips = 0, floor_bytes = 0,
     candidates = [\<lparr> location = PendingClip, ev_entry = new_entry ''a'' 10 20 5 \<rparr>,
       \<lparr> location = PendingClip, ev_entry = new_entry ''b'' 11 21 7 \<rparr>] \<rparr>"

lemmas policy_exec [exec_simps] =
  take_census_def read_sidecars_def inflight_floor_def is_undeliverable_def entry_sort_key_def
  apply_policy_def evict_def breaches_def eviction_reason_for_def on_disk_bytes_def
  policy_submit_def

lemma ex_take_census: "take_census blob_codec ex_full [] = (Ok ex_census, ex_full, [])"
  by (simp add: exec_simps ex_full_def ex_census_def)

lemma ex_census_totals: "census_totals ex_census = (2, 12)"
  by (simp add: census_totals_def ex_census_def on_disk_bytes_def sat_add_def wrap_u64_def u32_max_def u64_max_def)

lemma ex_apply_policy:
  "case apply_policy blob_codec ex_policy 3 ex_full [] of
     (r, w', fs') \<Rightarrow> fs' = [] \<and> r = Ok \<lparr> evictions = [\<lparr> evicted_id = ''a'', ev_reason = MaxClipsExceeded,
        remaining_clips = 1, remaining_bytes = 7 \<rparr>], verdict = Inr () \<rparr>"
  by (simp add: apply_policy_unfold [OF ex_take_census ex_census_totals])
    (simp add: exec_simps ex_full_def ex_census_def ex_policy_def sat_add_def u32_max_def u64_max_def)

theorem apply_policy_evicts_prefix_witness:
  "\<exists>out w'. apply_policy blob_codec ex_policy 3 ex_full [] = (Ok out, w', []) \<and>
     map evicted_id (evictions out) = [''a''] \<and> look w' (media_at PendingDir ''a'') = None"
proof -
  obtain w' out where run: "apply_policy blob_codec ex_policy 3 ex_full [] = (Ok out, w', [])"
    and ids: "map evicted_id (evictions out) = [''a'']"
    using ex_apply_policy by (auto split: prod.splits)
  obtain k where k: "map evicted_id (evictions out) = map (\<lambda>x. clip_id (ev_entry x)) (take k (candidates ex_census))"
    "\<forall>p \<in> evict_paths (take k (candidates ex_census)). look w' p = None"
    using apply_policy_evicts_prefix [OF ex_take_census ex_census_totals run] by blast
  have "length (take k (candidates ex_census)) = 1" using k(1) ids by (metis length_map list.size(3,4) One_nat_def add_0)
  then have "take k (candidates ex_census) = take 1 (candidates ex_census)"
    by (simp add: ex_census_def min_def split: if_splits)
  then show ?thesis using run ids k(2) by (auto simp: evict_paths_def ex_census_def)
qed

lemma run_evict_loop:
  "\<exists>out w'. evict_loop pol inc full cs clips bytes recs w [] = (Ok out, w', []) \<and>
     (\<forall>q. full \<noteq> Queue q \<longrightarrow> verdict out \<noteq> Inl (Queue q))"
proof (induction cs arbitrary: clips bytes recs w)
  case (Cons c cs)
  have "\<exists>w1. evict c w [] = (Ok (), w1, [])"
    by (simp add: evict_def Let_def run_simps)
  then show ?case using Cons by (auto simp: run_simps Let_def)
qed (simp add: run_simps)

definition readable :: "'b codec \<Rightarrow> 'b world \<Rightarrow> dir \<Rightarrow> bool" where
  "readable cd w d \<longleftrightarrow>
     (\<forall>n. has_ext ''json'' n \<longrightarrow> look w (d, n) \<noteq> None \<longrightarrow> (\<exists>e. holds_entry cd w (d, n) e))"

definition dir_entries :: "'b codec \<Rightarrow> 'b world \<Rightarrow> dir \<Rightarrow> clip_queue_entry list" where
  "dir_entries cd w d =
     map (\<lambda>n. the (dec cd (the (look w (d, n))))) (filter (has_ext ''json'') (listing d (files w)))"

lemma run_read_sidecars_loop:
  "\<forall>n \<in> set ns. has_ext ''json'' n \<longrightarrow> (\<exists>e. holds_entry cd w (d, n) e) \<Longrightarrow>
   read_sidecars_loop cd d ns w [] =
     (Ok (map (\<lambda>n. the (dec cd (the (look w (d, n))))) (filter (has_ext ''json'') ns)), w, [])"
  by (induction ns) (auto simp: run_simps holds_entry_def)

lemma run_read_sidecars [run_simps]:
  "readable cd w d \<Longrightarrow> read_sidecars cd d w [] = (Ok (dir_entries cd w d), w, [])"
  using run_read_sidecars_loop [of "listing d (files w)" cd w d]
  by (auto simp: read_sidecars_def run_simps dir_entries_def readable_def set_listing)

lemma foldl_sat_count:
  "a + length (filter (\<lambda>e. \<not> P e) xs) \<le> u32_max \<Longrightarrow>
     foldl (\<lambda>k e. if P e then k else sat_add u32_max k 1) a xs = a + length (filter (\<lambda>e. \<not> P e) xs)"
  by (induction xs arbitrary: a) (auto simp: sat_add_exact)

lemma inflight_floor_exact:
  assumes "length es \<le> u32_max" "sum_list (map byte_size es) \<le> u64_max"
  shows "inflight_floor es = (length es, sum_list (map byte_size es))"
proof -
  have "foldl (\<lambda>(c, b) e. (sat_add u32_max c 1, sat_add u64_max b (byte_size e))) (a, b) es
      = (a + length es, b + sum_list (map byte_size es))"
    if "a + length es \<le> u32_max" "b + sum_list (map byte_size es) \<le> u64_max" for a b
    using that by (induction es arbitrary: a b) (auto simp: sat_add_exact)
  from this [of 0 0] show ?thesis using assms by (simp add: inflight_floor_def)
qed

lemma sum_list_sort_key: "sum_list (map f (sort_key k xs)) = sum_list (map (f :: _ \<Rightarrow> nat) xs)"
  by (metis mset_map mset_sort sum_mset_sum_list)

lemma on_disk_bytes_simps [simp]:
  "on_disk_bytes \<lparr> location = PendingClip, ev_entry = e \<rparr> = byte_size e"
  "on_disk_bytes \<lparr> location = DeliveredUndeliverable, ev_entry = e \<rparr> = 0"
  by (simp_all add: on_disk_bytes_def)

text \<open>
  The census is exact. On a readable store it counts every sidecar of the three
  directories once, and the bytes of the clips that still have a recording on disk (in
  flight and pending, not delivered); its candidates are the undeliverable records and then
  the pending clips, each oldest capture first.
\<close>

theorem take_census_exact:
  assumes "readable cd w InflightDir" "readable cd w DeliveredDir" "readable cd w PendingDir"
    and "length (dir_entries cd w InflightDir) + length (dir_entries cd w DeliveredDir)
         + length (dir_entries cd w PendingDir) \<le> u32_max"
    and "sum_list (map byte_size (dir_entries cd w InflightDir)) + sum_list (map byte_size (dir_entries cd w PendingDir))
         \<le> u64_max"
  shows "\<exists>c us ps. take_census cd w [] = (Ok c, w, []) \<and>
    census_totals c =
      (length (dir_entries cd w InflightDir) + length (dir_entries cd w DeliveredDir) + length (dir_entries cd w PendingDir),
       sum_list (map byte_size (dir_entries cd w InflightDir)) + sum_list (map byte_size (dir_entries cd w PendingDir))) \<and>
    map ev_entry (candidates c) = us @ ps \<and>
    mset us = mset (filter is_undeliverable (dir_entries cd w DeliveredDir)) \<and> mset ps = mset (dir_entries cd w PendingDir) \<and>
    sorted (map entry_sort_key us) \<and> sorted (map entry_sort_key ps)"
proof -
  let ?I = "dir_entries cd w InflightDir" and ?D = "dir_entries cd w DeliveredDir" and ?P = "dir_entries cd w PendingDir"
  let ?U = "map (\<lambda>e. \<lparr> location = DeliveredUndeliverable, ev_entry = e \<rparr>) (filter is_undeliverable ?D)"
  let ?Q = "map (\<lambda>e. \<lparr> location = PendingClip, ev_entry = e \<rparr>) ?P"
  let ?k = "\<lambda>c. entry_sort_key (ev_entry c)"
  define c where "c = \<lparr> floor_clips = length ?I + length (filter (\<lambda>e. \<not> is_undeliverable e) ?D),
    floor_bytes = sum_list (map byte_size ?I), candidates = sort_key ?k ?U @ sort_key ?k ?Q \<rparr>"
  have len: "length (filter (\<lambda>e. \<not> is_undeliverable e) ?D) + length (filter is_undeliverable ?D) = length ?D"
    using sum_length_filter_compl [of is_undeliverable ?D] by simp
  have fc: "foldl (\<lambda>k e. if is_undeliverable e then k else sat_add u32_max k 1) (length ?I) ?D
      = length ?I + length (filter (\<lambda>e. \<not> is_undeliverable e) ?D)"
    using assms(4) len by (intro foldl_sat_count) linarith
  have fl: "inflight_floor ?I = (length ?I, sum_list (map byte_size ?I))"
    using assms(4,5) by (intro inflight_floor_exact) linarith+
  have run: "take_census cd w [] = (Ok c, w, [])"
    unfolding take_census_def using fc
    by (simp add: run_simps assms(1-3) Let_def fl c_def)
  have bytes: "sum_list (map on_disk_bytes (candidates c)) = sum_list (map byte_size ?P)"
    by (simp add: c_def sum_list_sort_key o_def)
  have totals: "census_totals c = (length ?I + length ?D + length ?P, sum_list (map byte_size ?I) + sum_list (map byte_size ?P))"
    using assms(4,5) len bytes
    by (simp add: census_totals_def wrap_u64_def u64_max_def c_def sat_add_def)
  have us: "mset (map ev_entry (sort_key ?k ?U)) = mset (filter is_undeliverable ?D)"
    and ps: "mset (map ev_entry (sort_key ?k ?Q)) = mset ?P"
    by (simp_all add: image_mset.compositionality o_def)
  have sorted: "sorted (map entry_sort_key (map ev_entry (sort_key ?k xs)))" for xs
    by (simp add: o_def)
  have "map ev_entry (candidates c) = map ev_entry (sort_key ?k ?U) @ map ev_entry (sort_key ?k ?Q)"
    by (simp add: c_def)
  then show ?thesis
    using run totals us ps sorted by blast
qed

theorem take_census_exact_witness:
  "\<exists>c. take_census blob_codec ex_full [] = (Ok c, ex_full, []) \<and> census_totals c = (2, 12)"
proof -
  have r: "readable blob_codec ex_full d" for d
    by (auto simp: readable_def ex_full_def holds_entry_def has_ext_json_iff)
  have e: "dir_entries blob_codec ex_full PendingDir = [new_entry ''b'' 11 21 7, new_entry ''a'' 10 20 5]"
    "dir_entries blob_codec ex_full InflightDir = []" "dir_entries blob_codec ex_full DeliveredDir = []"
    by (simp_all add: dir_entries_def ex_full_def exec_simps)
  show ?thesis
    using take_census_exact [OF r r r] by (auto simp: e u32_max_def u64_max_def)
qed

text \<open>
  Admission. Without faults a drop-oldest policy admits the new clip unless the part of
  the queue that eviction cannot free already breaches a ceiling; in that case, and under
  refuse-new whenever a ceiling is breached, it answers \<open>QueueFull\<close> and removes nothing.
\<close>

theorem apply_policy_admits:
  assumes census: "take_census cd w [] = (Ok c, w1, [])" and totals: "census_totals c = (tc, tb)"
  shows "\<exists>out w'. apply_policy cd pol inc w [] = (Ok out, w', []) \<and>
    (if breaches pol inc tc tb \<and> (eviction pol = RefuseNew \<or> breaches pol inc (floor_clips c) (floor_bytes c))
     then verdict out = Inl (QueueFull tc (max_clips pol) tb (max_bytes pol)) \<and> evictions out = [] \<and> w' = w1
     else verdict out = Inr ())"
proof -
  let ?full = "QueueFull tc (max_clips pol) tb (max_bytes pol)"
  obtain out w' where run: "evict_loop pol inc ?full (candidates c) tc tb [] w1 [] = (Ok out, w', [])"
    and nq: "\<And>q. verdict out \<noteq> Inl (Queue q)"
    using run_evict_loop [of pol inc ?full "candidates c" tc tb "[]" w1] by auto
  have "verdict out = Inr ()" if nf: "\<not> breaches pol inc (floor_clips c) (floor_bytes c)"
  proof (cases "verdict out")
    case (Inl e)
    then have "over pol inc (candidates c) tc tb (length (candidates c))"
      using wlp_run [OF evict_loop_wlp run] nq by (auto simp: loop_post_def)
    then show ?thesis using all_evicted_below_floor [OF totals] nf by blast
  qed simp
  then show ?thesis
    unfolding apply_policy_unfold [OF census totals] using run by auto
qed

theorem apply_policy_admits_witness:
  "\<exists>out w'. apply_policy blob_codec ex_policy 3 ex_full [] = (Ok out, w', []) \<and> verdict out = Inr ()"
  using apply_policy_admits [OF ex_take_census ex_census_totals, of ex_policy 3]
  by (simp add: ex_policy_def ex_census_def breaches_def sat_add_def u32_max_def u64_max_def)

text \<open>An eviction that fails between its two removals has deleted the recording, and no eviction is reported.\<close>

lemma half_evicted_unreported:
  assumes "breaches pol incoming clips bytes" "location c = PendingClip"
  shows "\<exists>err w'. evict_loop pol incoming full (c # cs) clips bytes recs w [NoFault, Fail k None] =
      (Ok \<lparr> evictions = recs, verdict = Inl (Queue err) \<rparr>, w', []) \<and>
    look w' (media_at PendingDir (clip_id (ev_entry c))) = None \<and> journal w' = journal w"
  using assms by (auto simp: evict_def Let_def remove_if_exists_def exec_simps split: option.splits)

text \<open>
  What the policy never touches. Under every fault schedule, and also when the process
  dies inside it, clips in flight keep all their files, and so do the sidecars of delivered
  clips: only pending clips and undeliverable records can be removed.
\<close>

theorem apply_policy_spares:
  assumes filed: "\<And>n e. has_ext ''json'' n \<Longrightarrow> holds_entry cd w (DeliveredDir, n) e \<Longrightarrow> n = sidecar_name (clip_id e)"
    and run: "apply_policy cd pol inc w fs = (r, w', fs')"
  shows "(\<forall>n. look w' (InflightDir, n) = look w (InflightDir, n)) \<and>
    (\<forall>n e. has_ext ''json'' n \<longrightarrow> holds_entry cd w (DeliveredDir, n) e \<longrightarrow> \<not> is_undeliverable e \<longrightarrow>
       look w' (DeliveredDir, n) = look w (DeliveredDir, n))"
proof (intro conjI allI impI)
  fix n
  show "look w' (InflightDir, n) = look w (InflightDir, n)"
    using footprintD [OF footprint_apply_policy run, of "(InflightDir, n)"] by simp
next
  fix n e
  assume n: "has_ext ''json'' n" "holds_entry cd w (DeliveredDir, n) e" and e: "\<not> is_undeliverable e"
  obtain rc w1 fs1 where census: "take_census cd w fs = (rc, w1, fs1)" by (cases "take_census cd w fs") auto
  note c_facts = wlp_run [OF take_census_wlp census]
  then have w1: "w1 = w" by (auto split: res.splits)
  show "look w' (DeliveredDir, n) = look w (DeliveredDir, n)"
  proof (cases rc)
    case (Ok c)
    obtain tc tb where totals: "census_totals c = (tc, tb)" by (cases "census_totals c")
    have gen: "\<And>x. x \<in> set (candidates c) \<Longrightarrow> genuine cd w x" using c_facts Ok by simp
    have "(DeliveredDir, n) \<notin> evict_paths (candidates c)"
    proof
      assume "(DeliveredDir, n) \<in> evict_paths (candidates c)"
      then obtain x where x: "x \<in> set (candidates c)" "location_dir (location x) = DeliveredDir"
        "n = media_name (clip_id (ev_entry x)) \<or> n = sidecar_name (clip_id (ev_entry x))"
        by (auto simp: evict_paths_def)
      have "location x = DeliveredUndeliverable" using x(2) by (cases "location x") auto
      then have u: "is_undeliverable (ev_entry x)" "\<exists>k. has_ext ''json'' k \<and> holds_entry cd w (DeliveredDir, k) (ev_entry x)"
        using gen [OF x(1)] x(2) by (auto simp: genuine_def)
      then obtain k where k: "has_ext ''json'' k" "holds_entry cd w (DeliveredDir, k) (ev_entry x)" by blast
      have "k = sidecar_name (clip_id (ev_entry x))" using filed [OF k] .
      moreover have "n = sidecar_name (clip_id (ev_entry x))" using x(3) n(1) by (auto simp: has_ext_json_iff)
      ultimately have "ev_entry x = e" using k(2) n(2) by (auto simp: holds_entry_def)
      then show False using u(1) e by simp
    qed
    then show ?thesis
      using run census Ok w1 footprintD [OF footprint_evict_loop, of pol inc _ "candidates c" tc tb "[]" w1 fs1]
      by (auto simp: apply_policy_unfold [OF census [unfolded Ok] totals] split: if_splits)
  next
    case (Err x)
    then show ?thesis using run census w1 by (simp add: apply_policy_def match_io_def ret_def)
  next
    case Crashed
    then show ?thesis using run census w1 by (simp add: apply_policy_def match_io_def)
  qed
qed

theorem apply_policy_spares_witness:
  "\<exists>r w' fs'. apply_policy blob_codec ex_policy 3 ex_flying [Crash None] = (r, w', fs') \<and>
     look w' (InflightDir, ''a.mp4'') = Some (Bytes 5)"
proof -
  obtain r w' fs' where run: "apply_policy blob_codec ex_policy 3 ex_flying [Crash None] = (r, w', fs')"
    by (cases "apply_policy blob_codec ex_policy 3 ex_flying [Crash None]") auto
  have "look w' (InflightDir, ''a.mp4'') = look ex_flying (InflightDir, ''a.mp4'')"
    using apply_policy_spares [OF _ run] by (auto simp: ex_flying_def holds_entry_def)
  then have "look w' (InflightDir, ''a.mp4'') = Some (Bytes 5)" by (simp add: ex_flying_def media_name_def)
  with run show ?thesis by blast
qed

section \<open>The inbox interface\<close>

text \<open>
  What the capture subsystem relies on when it hands over a staged recording: nothing in
  flight is touched, and an accepted clip is on disk in \<open>pending/\<close>, record and recording,
  byte for byte what was staged.
\<close>

locale inbox =
  fixes cd :: "'b codec"
    and submit :: "path \<Rightarrow> instant \<Rightarrow> instant \<Rightarrow> ('b, inbox_error, clip_queue_entry) io"
  assumes spares_inflight: "footprint {p. fst p \<noteq> InflightDir} (submit (StagingDir, n) cap now)"
    and keeps_wf: "preserves wf_world (submit (StagingDir, n) cap now)"
    and accepts: "codec_ok cd \<Longrightarrow> look w (StagingDir, n) = Some b \<Longrightarrow>
      submit (StagingDir, n) cap now w fs = (Ok e, w', fs') \<Longrightarrow>
      captured_at e = cap \<and> entry_outcome e = None \<and> next_attempt_after e = None \<and> clip_id e \<noteq> [] \<and> byte_size e = blen cd b \<and>
      holds_entry cd w' (sidecar_at PendingDir (clip_id e)) e \<and> look w' (media_at PendingDir (clip_id e)) = Some b"
begin

lemma inflight_kept:
  "submit (StagingDir, n) cap now w fs = (r, w', fs') \<Longrightarrow> look w' (InflightDir, k) = look w (InflightDir, k)"
  using footprintD [OF spares_inflight, of n cap now w fs r w' fs' "(InflightDir, k)"] by simp

lemma accepted_is_on_disk:
  assumes "codec_ok cd" "look w (StagingDir, n) = Some b" "submit (StagingDir, n) cap now w fs = (Ok e, w', fs')"
  shows "look w' (media_at PendingDir (clip_id e)) = Some b" "byte_size e = blen cd b"
    "holds_entry cd w' (sidecar_at PendingDir (clip_id e)) e"
  using accepts [OF assms] by simp_all

text \<open>Guarding an inbox with a policy gives an inbox again.\<close>

lemma guarded: "inbox cd (policy_submit cd pol submit)"
proof
  fix n cap now
  have ap: "footprint {p. fst p \<noteq> InflightDir} (apply_policy cd pol inc)" for inc
    using footprint_apply_policy by (rule footprint_mono) auto
  show "footprint {p. fst p \<noteq> InflightDir} (policy_submit cd pol submit (StagingDir, n) cap now)"
    using spares_inflight ap by (auto simp: policy_submit_def split: sum.split)
  show "preserves wf_world (policy_submit cd pol submit (StagingDir, n) cap now)"
    using keeps_wf by (auto simp: policy_submit_def split: sum.split)
next
  fix w n b cap now fs e w' fs'
  assume ok: "codec_ok cd" and b: "look w (StagingDir, n) = Some b"
    and run: "policy_submit cd pol submit (StagingDir, n) cap now w fs = (Ok e, w', fs')"
  let ?len = "match_io (fs_metadata_len cd (StagingDir, n)) ret (\<lambda>_. ret 0) :: (_, inbox_error, _) io"
  obtain r0 w0 fs0 where s0: "?len w fs = (r0, w0, fs0)" by (cases "?len w fs") auto
  have l0: "look w0 (StagingDir, n) = Some b"
    using footprintD [of "{}" ?len w fs r0 w0 fs0] s0 b by simp
  obtain inc where r0: "r0 = Ok inc"
    using run s0 by (auto simp: policy_submit_def bind_io_def match_io_def throw_def split: res.splits prod.splits)
  obtain r1 w1 fs1 where s1: "apply_policy cd pol inc w0 fs0 = (r1, w1, fs1)" by (cases "apply_policy cd pol inc w0 fs0") auto
  have l1: "look w1 (StagingDir, n) = Some b"
    using footprintD [OF footprint_apply_policy s1, of "(StagingDir, n)"] l0 by simp
  obtain out where r1: "r1 = Ok out"
    using run s0 s1 unfolding r0 by (auto simp: policy_submit_def bind_io_def match_io_def throw_def split: res.splits prod.splits)
  obtain r2 w2 fs2 where s2: "(emit_evictions pol (evictions out) :: (_, inbox_error, _) io) w1 fs1 = (r2, w2, fs2)"
    by (cases "(emit_evictions pol (evictions out) :: (_, inbox_error, _) io) w1 fs1") auto
  have l2: "look w2 (StagingDir, n) = Some b"
    using footprintD [OF footprint_emit_evictions [of "{}"] s2] l1 by simp
  have "submit (StagingDir, n) cap now w2 fs2 = (Ok e, w', fs')"
    using run s0 s1 s2 unfolding r0 r1
    by (auto simp: policy_submit_def bind_io_def match_io_def throw_def split: res.splits prod.splits sum.splits)
  from accepts [OF ok l2 this]
  show "captured_at e = cap \<and> entry_outcome e = None \<and> next_attempt_after e = None \<and> clip_id e \<noteq> [] \<and> byte_size e = blen cd b \<and>
      holds_entry cd w' (sidecar_at PendingDir (clip_id e)) e \<and> look w' (media_at PendingDir (clip_id e)) = Some b" .
qed

end

lemma enqueue_with_id_wlp:
  assumes "codec_ok cd" "cid \<noteq> []" "look w (StagingDir, n) = Some b"
  shows "wlp (enqueue_with_id cd cid (StagingDir, n) cap now)
     (\<lambda>e w'. e = new_entry cid cap now (blen cd b) \<and> holds_entry cd w' (sidecar_at PendingDir cid) e \<and>
        look w' (media_at PendingDir cid) = Some b) (\<lambda>_ _. True) (\<lambda>_. True) w"
proof -
  obtain x where "enc cd (new_entry cid cap now (blen cd b)) = Some x" "dec cd x = Some (new_entry cid cap now (blen cd b))"
    using codec_enc [OF assms(1)] by blast
  then show ?thesis
    using assms(2,3) by (auto simp: enqueue_with_id_def Let_def wlp_simps wlp_match holds_entry_def split: option.splits)
qed

lemma footprint_next_clip_id [simp]: "footprint P (next_clip_id fmt cap)"
  by (auto simp: footprint_def next_clip_id_def)

lemma wf_next_clip_id [simp]: "preserves wf_world (next_clip_id fmt cap)"
  by (auto simp: preserves_def next_clip_id_def wf_world_def)

lemma wf_enqueue_with_id [simp]: "preserves wf_world (enqueue_with_id cd cid src cap now)"
  by (auto simp: enqueue_with_id_def Let_def)

lemma footprint_enqueue: "fst src \<noteq> InflightDir \<Longrightarrow> footprint {p. fst p \<noteq> InflightDir} (enqueue_with_id cd cid src cap now)"
proof -
  assume src: "fst src \<noteq> InflightDir"
  have w: "footprint {p. fst p \<noteq> InflightDir} (write_sidecar_atomic cd (sidecar_at PendingDir cid) e)" for e
    by (auto simp: write_sidecar_atomic_def Let_def split: option.split)
  show ?thesis using src w by (auto simp: enqueue_with_id_def Let_def)
qed

interpretation store_inbox: inbox cd "store_submit cd fmt" for cd fmt
proof
  fix n cap now
  show "footprint {p. fst p \<noteq> InflightDir} (store_submit cd fmt (StagingDir, n) cap now)"
    by (auto simp: store_submit_def enqueue_def footprint_enqueue)
  show "preserves wf_world (store_submit cd fmt (StagingDir, n) cap now)"
    by (auto simp: store_submit_def enqueue_def)
next
  fix w n b cap now fs e w' fs'
  assume ok: "codec_ok cd" and b: "look w (StagingDir, n) = Some b"
    and run: "store_submit cd fmt (StagingDir, n) cap now w fs = (Ok e, w', fs')"
  let ?cid = "fmt cap @ ''-'' @ pad3 (seq w)"
  have "enqueue_with_id cd ?cid (StagingDir, n) cap now (w\<lparr>seq := wrap_u32 (seq w + 1)\<rparr>) fs = (Ok e, w', fs')"
    using run by (auto simp: store_submit_def enqueue_def map_err_def bind_io_def match_io_def next_clip_id_def
        ret_def throw_def split: prod.splits res.splits)
  from wlp_run [OF enqueue_with_id_wlp [OF ok] this, of b] b
  show "captured_at e = cap \<and> entry_outcome e = None \<and> next_attempt_after e = None \<and> clip_id e \<noteq> [] \<and> byte_size e = blen cd b \<and>
      holds_entry cd w' (sidecar_at PendingDir (clip_id e)) e \<and> look w' (media_at PendingDir (clip_id e)) = Some b"
    by auto
qed

interpretation policy_inbox: inbox cd "policy_submit cd pol (store_submit cd fmt)" for cd pol fmt
  by (rule store_inbox.guarded)

text \<open>
  A clip the policy-guarded inbox accepts is on disk: its sidecar and its recording are
  in \<open>pending/\<close>, the recording is byte for byte what was staged and the record carries its
  length; and no submission, accepted or not, touches a clip in flight.
\<close>

theorem policy_submit_accepts:
  assumes "codec_ok cd" "look w (StagingDir, n) = Some b"
    and run: "policy_submit cd pol (store_submit cd fmt) (StagingDir, n) cap now w fs = (r, w', fs')"
  shows "(\<forall>k. look w' (InflightDir, k) = look w (InflightDir, k)) \<and>
    (case r of
       Ok e \<Rightarrow> byte_size e = blen cd b \<and> holds_entry cd w' (sidecar_at PendingDir (clip_id e)) e \<and>
         look w' (media_at PendingDir (clip_id e)) = Some b
     | _ \<Rightarrow> True)"
  using policy_inbox.inflight_kept [OF run] policy_inbox.accepted_is_on_disk [OF assms(1,2)] run
  by (auto split: res.splits)

lemma ex_policy_submit:
  "case policy_submit blob_codec ex_policy (store_submit blob_codec (\<lambda>_. ''T'')) (StagingDir, ''r.mp4'') 10 20 ex_staged [] of
     (r, w', fs') \<Rightarrow> r = Ok (new_entry ''T-000'' 10 20 9)"
proof -
  have p: "pad3 0 = ''000''" by (simp add: pad3_digits digit_chars)
  show ?thesis
    by (simp add: exec_simps store_submit_def enqueue_def next_clip_id_def p ex_staged_def ex_policy_def
        census_totals_def sat_add_def wrap_u64_def u32_max_def u64_max_def)
qed

theorem policy_submit_accepts_witness:
  "\<exists>w' fs'. policy_submit blob_codec ex_policy (store_submit blob_codec (\<lambda>_. ''T'')) (StagingDir, ''r.mp4'') 10 20 ex_staged []
       = (Ok (new_entry ''T-000'' 10 20 9), w', fs') \<and> look w' (PendingDir, ''T-000.mp4'') = Some (Bytes 9)"
proof -
  obtain w' fs' where run: "policy_submit blob_codec ex_policy (store_submit blob_codec (\<lambda>_. ''T''))
      (StagingDir, ''r.mp4'') 10 20 ex_staged [] = (Ok (new_entry ''T-000'' 10 20 9), w', fs')"
    using ex_policy_submit by (auto split: prod.splits)
  then show ?thesis
    using policy_submit_accepts [OF blob_codec_ok _ run, of "Bytes 9"] by (simp add: ex_staged_def media_name_def)
qed

section \<open>Pruning delivered sidecars\<close>

definition is_prunable :: "clip_queue_entry \<Rightarrow> instant \<Rightarrow> bool" where
  "is_prunable e before \<longleftrightarrow>
     entry_outcome e = Some Delivered \<and>
     (classify_lost_at e \<noteq> None \<or>
      (case last_classify_status e of None \<Rightarrow> False | Some s \<Rightarrow> is_terminal_status s)) \<and>
     (case delivered_at e of None \<Rightarrow> False | Some t \<Rightarrow> t < before)"

fun prune_loop :: "'b codec \<Rightarrow> instant \<Rightarrow> string list \<Rightarrow> ('b, queue_error, string list) io" where
  "prune_loop cd before [] = ret []"
| "prune_loop cd before (n # ns) =
     bind_io (map_err (Io (dir_path DeliveredDir)) fs_next_entry) (\<lambda>_.
     if \<not> has_ext ''json'' n then prune_loop cd before ns
     else match_io (fs_read (DeliveredDir, n))
       (\<lambda>bytes. case dec cd bytes of
          None \<Rightarrow> prune_loop cd before ns
        | Some sidecar \<Rightarrow>
            if \<not> is_prunable sidecar before then prune_loop cd before ns
            else
              (let finish =
                 bind_io (attempt (fs_remove_file (DeliveredDir, with_extension n ''mp4''))) (\<lambda>_.
                 bind_io (emit (QueueEv (QueuePrunedDelivered (clip_id sidecar)))) (\<lambda>_.
                 bind_io (prune_loop cd before ns) (\<lambda>rest. ret (clip_id sidecar # rest)))) in
               match_io (fs_remove_file (DeliveredDir, n)) (\<lambda>_. finish)
                 (\<lambda>x. if x = NotFound then finish
                       else bind_io (emit (Warn ''failed to prune delivered sidecar; will retry next round'')) (\<lambda>_.
                            prune_loop cd before ns))))
       (\<lambda>_. prune_loop cd before ns))"

definition prune_delivered :: "'b codec \<Rightarrow> instant \<Rightarrow> ('b, queue_error, string list) io" where
  "prune_delivered cd before =
     bind_io (map_err (Io (dir_path DeliveredDir)) (fs_read_dir DeliveredDir)) (prune_loop cd before)"

lemma uniform_prune_loop [simp]: "uniform (prune_loop cd before ns)"
  by (induction ns) (auto simp: Let_def split: option.split)

text \<open>Files that pruning may remove: prunable sidecars and strays beside them.\<close>

definition keeps_needed :: "'b codec \<Rightarrow> instant \<Rightarrow> 'b world \<Rightarrow> 'b world \<Rightarrow> bool" where
  "keeps_needed cd before w w' \<longleftrightarrow>
     (\<forall>d n. has_ext ''json'' n \<longrightarrow> look w' (d, n) = look w (d, n) \<or>
        d = DeliveredDir \<and> look w' (d, n) = None \<and> (\<exists>e. holds_entry cd w (d, n) e \<and> is_prunable e before))"

lemma keeps_needed_refl [simp]: "keeps_needed cd before w w"
  by (simp add: keeps_needed_def)

lemma keeps_needed_journal [simp]:
  "keeps_needed cd before w (w1\<lparr>journal := j\<rparr>) = keeps_needed cd before w w1"
  by (simp add: keeps_needed_def)

lemma keeps_needed_trans:
  "keeps_needed cd before w w1 \<Longrightarrow> keeps_needed cd before w1 w2 \<Longrightarrow> keeps_needed cd before w w2"
  unfolding keeps_needed_def holds_entry_def by (metis option.distinct(1))

lemma prune_loop_wlp:
  "wlp (prune_loop cd before ns) (\<lambda>_ w'. keeps_needed cd before w w')
     (\<lambda>e w'. (\<exists>k. e = Io (dir_path DeliveredDir) k) \<and> keeps_needed cd before w w')
     (keeps_needed cd before w) w"
proof (induction ns arbitrary: w)
  case Nil
  then show ?case by (simp add: wlp_simps)
next
  case (Cons n ns)
  have IH: "wlp (prune_loop cd before ns) (\<lambda>_ w'. keeps_needed cd before w w')
     (\<lambda>e w'. (\<exists>k. e = Io (dir_path DeliveredDir) k) \<and> keeps_needed cd before w w')
     (keeps_needed cd before w) w1" if "keeps_needed cd before w w1" for w1
    by (rule wlp_mono [OF Cons.IH]) (use keeps_needed_trans [OF that] in auto)
  show ?case
  proof (cases "has_ext ''json'' n")
    case False
    then show ?thesis by (simp add: wlp_simps IH)
  next
    case js: True
    have stray: "k \<noteq> with_extension n ''mp4''" if "has_ext ''json'' k" for k
      using that js by (auto simp: has_ext_json_iff)
    show ?thesis
    proof (cases "\<exists>b e. look w (DeliveredDir, n) = Some b \<and> dec cd b = Some e \<and> is_prunable e before")
      case False
      then show ?thesis by (auto simp: js wlp_simps wlp_match IH split: option.splits)
    next
      case True
      then obtain b e where b: "look w (DeliveredDir, n) = Some b" "dec cd b = Some e" "is_prunable e before" by blast
      then have "keeps_needed cd before w (w\<lparr>files := AList.delete (DeliveredDir, n) (files w)\<rparr>)"
        and "keeps_needed cd before w (w\<lparr>files := AList.delete (DeliveredDir, with_extension n ''mp4'')
           (AList.delete (DeliveredDir, n) (files w))\<rparr>)"
        using stray by (auto simp: keeps_needed_def holds_entry_def)
      then show ?thesis
        by (simp add: js b wlp_simps wlp_match Let_def IH split: option.split)
    qed
  qed
qed

lemma prune_delivered_wlp:
  "wlp (prune_delivered cd before) (\<lambda>_ w'. keeps_needed cd before w w')
     (\<lambda>e w'. (\<exists>k. e = Io (dir_path DeliveredDir) k) \<and> keeps_needed cd before w w')
     (keeps_needed cd before w) w"
  using prune_loop_wlp by (simp add: prune_delivered_def wlp_simps)

definition prunable_at :: "'b codec \<Rightarrow> instant \<Rightarrow> 'b world \<Rightarrow> string \<Rightarrow> bool" where
  "prunable_at cd before w n \<longleftrightarrow> has_ext ''json'' n \<and> (\<exists>e. holds_entry cd w (DeliveredDir, n) e \<and> is_prunable e before)"

lemma run_prune_loop:
  "\<exists>ids w'. prune_loop cd before ns w [] = (Ok ids, w', []) \<and>
     (\<forall>n \<in> set ns. prunable_at cd before w n \<longrightarrow> look w' (DeliveredDir, n) = None)"
proof (induction ns arbitrary: w)
  case Nil
  then show ?case by (simp add: run_simps)
next
  case (Cons n ns)
  show ?case
  proof (cases "prunable_at cd before w n")
    case False
    have "prune_loop cd before (n # ns) w [] = prune_loop cd before ns w []"
      using False by (auto simp: run_simps prunable_at_def holds_entry_def split: option.split)
    then show ?thesis using Cons [of w] False by auto
  next
    case True
    then obtain b e where b: "has_ext ''json'' n" "look w (DeliveredDir, n) = Some b" "dec cd b = Some e" "is_prunable e before"
      by (auto simp: prunable_at_def holds_entry_def)
    define w1 where "w1 = w\<lparr>files := AList.delete (DeliveredDir, with_extension n ''mp4'') (AList.delete (DeliveredDir, n) (files w)),
      journal := journal w @ [QueueEv (QueuePrunedDelivered (clip_id e))]\<rparr>"
    have dm: "AList.delete k xs = xs" if "map_of xs k = None" for k :: path and xs :: "(path \<times> 'a) list"
      using that by (simp add: delete_idem map_of_eq_None_iff)
    obtain ids w' where w': "prune_loop cd before ns w1 [] = (Ok ids, w', [])"
      "\<forall>k \<in> set ns. prunable_at cd before w1 k \<longrightarrow> look w' (DeliveredDir, k) = None"
      using Cons [of w1] by blast
    have run: "prune_loop cd before (n # ns) w [] = (Ok (clip_id e # ids), w', [])"
      using w'(1) by (auto simp: run_simps Let_def b w1_def dm split: option.split)
    have k: "keeps_needed cd before w1 w'" using wlp_run [OF prune_loop_wlp w'(1)] by simp
    have "look w1 (DeliveredDir, n) = None" by (simp add: w1_def)
    then have gone: "look w' (DeliveredDir, n) = None" using k b(1) unfolding keeps_needed_def by metis
    have "look w' (DeliveredDir, j) = None" if "j \<in> set ns" "prunable_at cd before w j" for j
    proof (cases "j = n")
      case False
      have "j \<noteq> with_extension n ''mp4''" using that(2) b(1) by (auto simp: prunable_at_def has_ext_json_iff)
      then have "prunable_at cd before w1 j" using that(2) False by (simp add: prunable_at_def holds_entry_def w1_def)
      then show ?thesis using w'(2) that(1) by blast
    qed (use gone in simp)
    then show ?thesis using run gone by auto
  qed
qed

text \<open>
  Pruning. Under every fault schedule it removes no sidecar except delivered ones whose
  classification is finished and that are older than the retention limit, and only a
  directory error aborts it; without faults every such sidecar is removed.
\<close>

theorem prune_delivered_exact:
  "(case prune_delivered cd before w fs of (r, w', fs') \<Rightarrow>
      (\<forall>d n. has_ext ''json'' n \<longrightarrow> look w' (d, n) = look w (d, n) \<or>
         d = DeliveredDir \<and> look w' (d, n) = None \<and> prunable_at cd before w n) \<and>
      (\<forall>err. r = Err err \<longrightarrow> (\<exists>k. err = Io (dir_path DeliveredDir) k))) \<and>
   (\<exists>ids w'. prune_delivered cd before w [] = (Ok ids, w', []) \<and>
      (\<forall>n. prunable_at cd before w n \<longrightarrow> look w' (DeliveredDir, n) = None))"
proof (intro conjI)
  obtain r w' fs' where run: "prune_delivered cd before w fs = (r, w', fs')"
    by (cases "prune_delivered cd before w fs") auto
  have "keeps_needed cd before w w'" "\<forall>err. r = Err err \<longrightarrow> (\<exists>k. err = Io (dir_path DeliveredDir) k)"
    using wlp_run [OF prune_delivered_wlp run] by (auto split: res.splits)
  then show "case prune_delivered cd before w fs of (r, w', fs') \<Rightarrow>
      (\<forall>d n. has_ext ''json'' n \<longrightarrow> look w' (d, n) = look w (d, n) \<or>
         d = DeliveredDir \<and> look w' (d, n) = None \<and> prunable_at cd before w n) \<and>
      (\<forall>err. r = Err err \<longrightarrow> (\<exists>k. err = Io (dir_path DeliveredDir) k))"
    unfolding run by (auto simp: keeps_needed_def prunable_at_def)
next
  obtain ids w' where "prune_loop cd before (listing DeliveredDir (files w)) w [] = (Ok ids, w', [])"
    "\<forall>n \<in> set (listing DeliveredDir (files w)). prunable_at cd before w n \<longrightarrow> look w' (DeliveredDir, n) = None"
    using run_prune_loop by blast
  moreover have "n \<in> set (listing DeliveredDir (files w))" if "prunable_at cd before w n" for n
    using that by (auto simp: set_listing prunable_at_def holds_entry_def)
  ultimately show "\<exists>ids w'. prune_delivered cd before w [] = (Ok ids, w', []) \<and>
      (\<forall>n. prunable_at cd before w n \<longrightarrow> look w' (DeliveredDir, n) = None)"
    by (auto simp: prune_delivered_def run_simps)
qed

lemma ex_prunable:
  "prunable_at blob_codec 100 \<lparr> files = [(sidecar_at DeliveredDir ''a'',
       Sidecar (ex_done\<lparr>delivered_at := Some 40, last_classify_status := Some Success\<rparr>))], seq = 0, journal = [] \<rparr> ''a.json''"
  using has_ext_json_iff [of "''a.json''"]
  by (auto simp: prunable_at_def holds_entry_def is_prunable_def is_terminal_status_def ex_done_def sidecar_name_def)

theorem prune_delivered_exact_witness:
  "\<exists>ids w'. prune_delivered blob_codec 100 \<lparr> files = [(sidecar_at DeliveredDir ''a'',
       Sidecar (ex_done\<lparr>delivered_at := Some 40, last_classify_status := Some Success\<rparr>))], seq = 0, journal = [] \<rparr> []
     = (Ok ids, w', []) \<and> look w' (DeliveredDir, ''a.json'') = None"
  using prune_delivered_exact [where cd = blob_codec and before = 100] ex_prunable by blast

end
