(* ===== verification/Client.thy ===== *)
theory Client
  imports Queue_Store Config
begin

text \<open>
  The perchpub HTTP client, \<^verbatim>\<open>crates/perchstation-core/src/perchpub/client.rs\<close>: errors, TLS
  material, the outbound allow-list, and the reading and classification of responses.

  Parameters stand for the libraries: \<open>api\<close> for the URL crate, \<open>x509\<close> for the certificate
  parser, \<open>tls\<close> for the construction of the \<^verbatim>\<open>reqwest\<close> client, \<open>srv\<close> for what the network answers
  to a request, \<open>json\<close> for the decoder of the task body, \<open>rfc_date\<close> for chrono's date parser.
  Bodies are lists of bytes (characters); UTF-8 validation does not matter to the control flow.
\<close>

datatype client_error =
    CredentialIo string io_error
  | TlsConfig string
  | InvalidUrl string
  | OutboundDisallowed string string \<comment> \<open>actual, expected authority\<close>
  | Network string
  | Http u16 string "duration option" \<comment> \<open>status, body text, \<^verbatim>\<open>Retry-After\<close>\<close>
  | Decode string
  | UndecodableSuccess string
  | ClipOpen path io_error

section \<open>TLS material\<close>

text \<open>\<^verbatim>\<open>str::lines\<close>: split at newlines, drop a trailing carriage return and a final empty line.\<close>

fun split_lines :: "string \<Rightarrow> string \<Rightarrow> string list" where
  "split_lines acc [] = (if acc = [] then [] else [rev acc])"
| "split_lines acc (c # cs) =
     (if c = CHR 0x0A then rev (if acc \<noteq> [] \<and> hd acc = CHR 0x0D then tl acc else acc) # split_lines [] cs
      else split_lines (c # acc) cs)"

definition str_lines :: "string \<Rightarrow> string list" where
  "str_lines s = split_lines [] s"

definition starts_with :: "string \<Rightarrow> string \<Rightarrow> bool" where
  "starts_with p s \<longleftrightarrow> take (length p) s = p"

definition pem_begin :: string where
  "pem_begin = ''-----BEGIN CERTIFICATE-----''"

definition pem_end :: string where
  "pem_end = ''-----END CERTIFICATE-----''"

fun pem_loop :: "string option \<Rightarrow> string list \<Rightarrow> string list" where
  "pem_loop current [] = []"
| "pem_loop current (line # rest) =
     (let current1 = (if starts_with pem_begin line then Some [] else current);
          current2 = map_option (\<lambda>buf. buf @ line @ [CHR 0x0A]) current1 in
      if starts_with pem_end line then
        (case current2 of Some buf \<Rightarrow> buf # pem_loop None rest | None \<Rightarrow> pem_loop None rest)
      else pem_loop current2 rest)"

definition pem_cert_blocks :: "string \<Rightarrow> string list" where
  "pem_cert_blocks pem = pem_loop None (str_lines pem)"

text \<open>\<open>x509 p\<close>: the subject and the issuer of the first certificate in \<open>p\<close>, if it parses.\<close>

fun issuing_loop :: "(string \<Rightarrow> (string \<times> string) option) \<Rightarrow> string \<Rightarrow> string list \<Rightarrow> string option" where
  "issuing_loop x509 leaf_issuer [] = None"
| "issuing_loop x509 leaf_issuer (block # rest) =
     (case x509 block of
        None \<Rightarrow> issuing_loop x509 leaf_issuer rest
      | Some (subject, issuer) \<Rightarrow>
          if subject = leaf_issuer \<and> subject \<noteq> issuer then Some block
          else issuing_loop x509 leaf_issuer rest)"

definition issuing_intermediate_pem :: "(string \<Rightarrow> (string \<times> string) option) \<Rightarrow> string \<Rightarrow> string \<Rightarrow> string option" where
  "issuing_intermediate_pem x509 leaf ca_chain =
     (case x509 leaf of
        None \<Rightarrow> None
      | Some (_, leaf_issuer) \<Rightarrow> issuing_loop x509 leaf_issuer (pem_cert_blocks ca_chain))"

definition with_newline :: "string \<Rightarrow> string" where
  "with_newline s = (if s \<noteq> [] \<and> last s = CHR 0x0A then s else s @ [CHR 0x0A])"

definition build_inner ::
  "(string \<Rightarrow> (string \<times> string) option) \<Rightarrow> (string \<Rightarrow> string option \<Rightarrow> string + 'c)
     \<Rightarrow> io_error + string \<Rightarrow> io_error + string \<Rightarrow> io_error + string \<Rightarrow> client_error + 'c" where
  "build_inner x509 tls cert key ca =
     (case cert of
        Inl err \<Rightarrow> Inl (CredentialIo ''station.crt'' err)
      | Inr cert_pem \<Rightarrow>
     (case key of
        Inl err \<Rightarrow> Inl (CredentialIo ''station.key'' err)
      | Inr key_pem \<Rightarrow>
     (case (case ca of Inr pem \<Rightarrow> Inr (Some pem)
            | Inl err \<Rightarrow> if err = NotFound then Inr None else Inl (CredentialIo ''ca_chain.pem'' err)) of
        Inl err \<Rightarrow> Inl err
      | Inr ca_pem \<Rightarrow>
          (let intermediate = Option.bind ca_pem (issuing_intermediate_pem x509 cert_pem);
               identity_pem = with_newline cert_pem
                 @ (case intermediate of None \<Rightarrow> [] | Some i \<Rightarrow> with_newline i) @ key_pem in
           case tls identity_pem ca_pem of
             Inl msg \<Rightarrow> Inl (TlsConfig msg)
           | Inr client \<Rightarrow> Inr client))))"

text \<open>The client: base URL and the current inner client behind the lock.\<close>

record 'u url_api = "'u url_lib" +
  authority :: "'u \<Rightarrow> string"

record ('u, 'c) perchpub_client =
  base_url :: 'u
  inner_client :: 'c

definition new_client ::
  "'u url_api \<Rightarrow> client_error + 'c \<Rightarrow> string \<Rightarrow> client_error + ('u, 'c) perchpub_client" where
  "new_client api built url =
     (case built of
        Inl err \<Rightarrow> Inl err
      | Inr inner \<Rightarrow>
          (case url_parse api (trim_end_slashes url) of
             None \<Rightarrow> Inl (InvalidUrl url)
           | Some u \<Rightarrow> Inr \<lparr> base_url = u, inner_client = inner \<rparr>))"

text \<open>A failed reload leaves the running client as it is.\<close>

definition reload_client ::
  "client_error + 'c \<Rightarrow> ('u, 'c) perchpub_client \<Rightarrow> (client_error + unit) \<times> ('u, 'c) perchpub_client" where
  "reload_client built cl =
     (case built of Inl err \<Rightarrow> (Inl err, cl) | Inr inner \<Rightarrow> (Inr (), cl\<lparr>inner_client := inner\<rparr>))"

section \<open>Requests\<close>

definition endpoint :: "'u url_api \<Rightarrow> ('u, 'c) perchpub_client \<Rightarrow> string \<Rightarrow> client_error + 'u" where
  "endpoint api cl p =
     (let s = trim_end_slashes (as_str api (base_url cl)) @ p in
      case url_parse api s of None \<Rightarrow> Inl (InvalidUrl s) | Some u \<Rightarrow> Inr u)"

definition check_authority :: "'u url_api \<Rightarrow> ('u, 'c) perchpub_client \<Rightarrow> 'u \<Rightarrow> client_error + unit" where
  "check_authority api cl u =
     (if authority api u \<noteq> authority api (base_url cl)
      then Inl (OutboundDisallowed (authority api u) (authority api (base_url cl)))
      else Inr ())"

datatype chunk = Chunk string | ChunkErr string

record response =
  resp_status :: u16
  resp_retry_after :: "string option"
  resp_content_length :: "u64 option"
  resp_chunks :: "chunk list"

record capped_response =
  cap_status :: u16
  cap_retry_after :: "duration option"
  cap_body :: string

definition max_response_bytes :: nat where
  "max_response_bytes = 2 ^ 20"

text \<open>
  \<^verbatim>\<open>raw.parse::<u64>()\<close>: an optional plus sign and at least one decimal digit, no overflow.
\<close>

definition is_digit :: "char \<Rightarrow> bool" where
  "is_digit c \<longleftrightarrow> 48 \<le> (of_char c :: nat) \<and> (of_char c :: nat) \<le> 57"

definition digits_value :: "string \<Rightarrow> nat" where
  "digits_value ds = foldl (\<lambda>v c. 10 * v + (of_char c - 48)) 0 ds"

definition parse_u64 :: "string \<Rightarrow> u64 option" where
  "parse_u64 s =
     (let ds = (case s of c # rest \<Rightarrow> if c = CHR ''+'' then rest else s | [] \<Rightarrow> []) in
      if ds \<noteq> [] \<and> list_all is_digit ds \<and> digits_value ds \<le> u64_max then Some (digits_value ds) else None)"

definition is_space :: "char \<Rightarrow> bool" where
  "is_space c \<longleftrightarrow> c = CHR '' '' \<or> (9 \<le> (of_char c :: nat) \<and> (of_char c :: nat) \<le> 13)"

definition trim_spaces :: "string \<Rightarrow> string" where
  "trim_spaces s = rev (dropWhile is_space (rev (dropWhile is_space s)))"

definition parse_retry_after :: "(string \<Rightarrow> instant option) \<Rightarrow> string option \<Rightarrow> instant \<Rightarrow> duration option" where
  "parse_retry_after rfc_date header now =
     (case header of
        None \<Rightarrow> None
      | Some text \<Rightarrow>
          (let raw = trim_spaces text in
           case parse_u64 raw of
             Some secs \<Rightarrow> Some (secs * nat ns_per_sec)
           | None \<Rightarrow>
               (case rfc_date raw of
                  None \<Rightarrow> None
                | Some at \<Rightarrow> Some (if now \<le> at then nat (at - now) else 0))))"

fun read_body :: "string \<Rightarrow> chunk list \<Rightarrow> client_error + string" where
  "read_body body [] = Inr body"
| "read_body body (Chunk c # rest) =
     (if max_response_bytes < length body + length c
      then Inl (Decode ''response body exceeds 1048576-byte cap'')
      else read_body (body @ c) rest)"
| "read_body body (ChunkErr msg # rest) = Inl (Network msg)"

definition read_capped :: "(string \<Rightarrow> instant option) \<Rightarrow> response \<Rightarrow> instant \<Rightarrow> client_error + capped_response" where
  "read_capped rfc_date r now =
     (if (case resp_content_length r of None \<Rightarrow> False | Some len \<Rightarrow> max_response_bytes < len)
      then Inl (Decode ''response Content-Length exceeds 1048576-byte cap'')
      else
        (case read_body [] (resp_chunks r) of
           Inl err \<Rightarrow> Inl err
         | Inr body \<Rightarrow> Inr \<lparr> cap_status = resp_status r,
             cap_retry_after = parse_retry_after rfc_date (resp_retry_after r) now, cap_body = body \<rparr>))"

definition is_success :: "u16 \<Rightarrow> bool" where
  "is_success s \<longleftrightarrow> 200 \<le> s \<and> s \<le> 299"

definition classify_response :: "(string \<Rightarrow> classify_task option) \<Rightarrow> capped_response \<Rightarrow> client_error + classify_task" where
  "classify_response json c =
     (if \<not> is_success (cap_status c) then Inl (Http (cap_status c) (cap_body c) (cap_retry_after c))
      else (case json (cap_body c) of
              None \<Rightarrow> Inl (UndecodableSuccess ''body does not decode'')
            | Some t \<Rightarrow> Inr t))"

definition read_and_classify ::
  "(string \<Rightarrow> instant option) \<Rightarrow> (string \<Rightarrow> classify_task option) \<Rightarrow> response \<Rightarrow> instant
     \<Rightarrow> client_error + classify_task" where
  "read_and_classify rfc_date json r now =
     (case read_capped rfc_date r now of Inl err \<Rightarrow> Inl err | Inr c \<Rightarrow> classify_response json c)"

text \<open>
  The libraries and the network, as one argument of the request operations: \<open>srv\<close> answers a
  request (method, URL text, inner client, optional body) with a response or a transport
  error message.
\<close>

record ('b, 'u, 'c) http_env =
  url_env :: "'u url_api"
  rfc_env :: "string \<Rightarrow> instant option"
  json_env :: "string \<Rightarrow> classify_task option"
  uuid_text :: "uuid \<Rightarrow> string"
  srv :: "string \<Rightarrow> string \<Rightarrow> 'c \<Rightarrow> 'b option \<Rightarrow> string + response"

definition send_request ::
  "('b, 'u, 'c) http_env \<Rightarrow> ('u, 'c) perchpub_client \<Rightarrow> string \<Rightarrow> 'u \<Rightarrow> 'b option \<Rightarrow> instant
     \<Rightarrow> client_error + classify_task" where
  "send_request env cl meth u body now =
     (case srv env meth (as_str (url_env env) u) (inner_client cl) body of
        Inl msg \<Rightarrow> Inl (Network msg)
      | Inr r \<Rightarrow> read_and_classify (rfc_env env) (json_env env) r now)"

definition lift_sum :: "'e + 'a \<Rightarrow> ('b, 'e, 'a) io" where
  "lift_sum x = (case x of Inl e \<Rightarrow> throw e | Inr v \<Rightarrow> ret v)"

definition upload_clip ::
  "('b, 'u, 'c) http_env \<Rightarrow> ('u, 'c) perchpub_client \<Rightarrow> path \<Rightarrow> instant \<Rightarrow> ('b, client_error, classify_task) io" where
  "upload_clip env cl clip now =
     bind_io (lift_sum (endpoint (url_env env) cl ''/api/v1/upload/'')) (\<lambda>u.
     bind_io (lift_sum (check_authority (url_env env) cl u)) (\<lambda>_.
     bind_io (map_err (ClipOpen clip) (fs_read clip)) (\<lambda>bytes.
     lift_sum (send_request env cl ''POST'' u (Some bytes) now))))"

definition get_classify_task ::
  "('b, 'u, 'c) http_env \<Rightarrow> ('u, 'c) perchpub_client \<Rightarrow> uuid \<Rightarrow> instant \<Rightarrow> client_error + classify_task" where
  "get_classify_task env cl tid now =
     (case endpoint (url_env env) cl (''/api/v1/classify-task/'' @ uuid_text env tid) of
        Inl err \<Rightarrow> Inl err
      | Inr u \<Rightarrow>
          (case check_authority (url_env env) cl u of
             Inl err \<Rightarrow> Inl err
           | Inr _ \<Rightarrow> send_request env cl ''GET'' u None now))"

section \<open>Properties\<close>

lemma read_body_bound:
  "read_body body cs = Inr r \<Longrightarrow> length body \<le> max_response_bytes \<Longrightarrow>
     length r \<le> max_response_bytes \<and> r = body @ concat (map (\<lambda>c. case c of Chunk x \<Rightarrow> x | ChunkErr _ \<Rightarrow> []) cs)"
  by (induction body cs rule: read_body.induct) (auto split: if_splits)

lemma read_body_errors:
  "read_body body cs = Inl err \<Longrightarrow> (\<exists>m. err = Decode m) \<or> (\<exists>m. err = Network m)"
  by (induction body cs rule: read_body.induct) (auto split: if_splits)

text \<open>An answer over the cap, by its advertised length or by what arrives, is a decoding or a network error.\<close>

lemma oversized_answer:
  assumes "(\<exists>len. resp_content_length r = Some len \<and> max_response_bytes < len) \<or>
      max_response_bytes < length (concat (map (\<lambda>c. case c of Chunk x \<Rightarrow> x | ChunkErr _ \<Rightarrow> []) (resp_chunks r)))"
  obtains err where "read_and_classify rfc_date json r now = Inl err" "(\<exists>m. err = Decode m) \<or> (\<exists>m. err = Network m)"
proof (cases "read_capped rfc_date r now")
  case (Inl err)
  then have "(\<exists>m. err = Decode m) \<or> (\<exists>m. err = Network m)"
    using read_body_errors by (auto simp: read_capped_def split: if_splits sum.splits)
  then show ?thesis using that Inl by (simp add: read_and_classify_def)
next
  case (Inr c)
  then have "read_body [] (resp_chunks r) = Inr (cap_body c)" "\<not> (\<exists>len. resp_content_length r = Some len \<and> max_response_bytes < len)"
    by (auto simp: read_capped_def split: if_splits sum.splits)
  then show ?thesis using assms read_body_bound [of "[]" "resp_chunks r" "cap_body c"] by auto
qed

lemma read_and_classify_outcome:
  "case read_and_classify rfc_date json r now of
     Inr t \<Rightarrow> is_success (resp_status r) \<and>
       (\<exists>body. json body = Some t \<and> length body \<le> 1048576 \<and>
          body = concat (map (\<lambda>c. case c of Chunk x \<Rightarrow> x | ChunkErr _ \<Rightarrow> []) (resp_chunks r)))
   | Inl (Http s body ra) \<Rightarrow> s = resp_status r \<and> \<not> is_success s \<and> length body \<le> 1048576 \<and>
       ra = parse_retry_after rfc_date (resp_retry_after r) now
   | Inl (UndecodableSuccess m) \<Rightarrow> is_success (resp_status r)
   | Inl (Decode m) \<Rightarrow> True
   | Inl (Network m) \<Rightarrow> True
   | Inl _ \<Rightarrow> False"
proof (cases "read_capped rfc_date r now")
  case (Inl err)
  then have "(\<exists>m. err = Decode m) \<or> (\<exists>m. err = Network m)"
    using read_body_errors by (auto simp: read_capped_def split: if_splits sum.splits)
  then show ?thesis using Inl by (auto simp: read_and_classify_def)
next
  case (Inr c)
  then have c: "read_body [] (resp_chunks r) = Inr (cap_body c)" "cap_status c = resp_status r"
    "cap_retry_after c = parse_retry_after rfc_date (resp_retry_after r) now"
    by (auto simp: read_capped_def split: if_splits sum.splits)
  show ?thesis
    using Inr c read_body_bound [OF c(1)]
    by (auto simp: read_and_classify_def classify_response_def max_response_bytes_def split: option.splits)
qed

text \<open>
  Reading a response. Never more than one mebibyte of body is kept; a task is only
  returned for a 2xx status whose whole body decodes; an HTTP error carries a non-2xx
  status; and a 2xx with an undecodable body is reported as accepted-but-unreadable.
\<close>

theorem read_and_classify_sound:
  "case read_and_classify rfc_date json r now of
     Inr t \<Rightarrow> is_success (resp_status r) \<and>
       (\<exists>body. json body = Some t \<and> length body \<le> 1048576 \<and>
          body = concat (map (\<lambda>c. case c of Chunk x \<Rightarrow> x | ChunkErr _ \<Rightarrow> []) (resp_chunks r)))
   | Inl (Http s body ra) \<Rightarrow> s = resp_status r \<and> \<not> is_success s \<and> length body \<le> 1048576 \<and>
       ra = parse_retry_after rfc_date (resp_retry_after r) now
   | Inl (UndecodableSuccess m) \<Rightarrow> is_success (resp_status r)
   | Inl (Decode m) \<Rightarrow> True
   | Inl (Network m) \<Rightarrow> True
   | Inl _ \<Rightarrow> False"
  by (rule read_and_classify_outcome)

text \<open>
  C31: The outbound allow-list. What the station does and learns depends on the network only
  through the configured authority: two networks that answer alike there cannot be told
  apart by an upload or a poll, whatever they answer elsewhere.
\<close>

theorem requests_stay_on_authority:
  assumes "\<And>u m c b. authority (url_env env) u = authority (url_env env) (base_url cl) \<Longrightarrow>
      srv env m (as_str (url_env env) u) c b = srv' m (as_str (url_env env) u) c b"
  shows "upload_clip env cl clip now w fs = upload_clip (env\<lparr>srv := srv'\<rparr>) cl clip now w fs \<and>
    get_classify_task env cl tid now = get_classify_task (env\<lparr>srv := srv'\<rparr>) cl tid now"
proof -
  have same: "send_request env cl m u b now = send_request (env\<lparr>srv := srv'\<rparr>) cl m u b now"
    if "check_authority (url_env env) cl u = Inr ()" for m u b
    using assms [of u] that by (auto simp: send_request_def check_authority_def split: if_splits sum.split)
  have "get_classify_task env cl tid now = get_classify_task (env\<lparr>srv := srv'\<rparr>) cl tid now"
    using same by (auto simp: get_classify_task_def split: sum.splits)
  moreover have "upload_clip env cl clip now w fs = upload_clip (env\<lparr>srv := srv'\<rparr>) cl clip now w fs"
    using same
    by (auto simp: upload_clip_def bind_io_def match_io_def lift_sum_def ret_def throw_def
        split: sum.splits res.splits prod.splits)
  ultimately show ?thesis by blast
qed

text \<open>A string-based URL library and a server, for evaluation.\<close>

definition ex_api :: "string url_api" where
  "ex_api = \<lparr> url_parse = Some, set_port = (\<lambda>u p. Some u), as_str = id, authority = take 9 \<rparr>"

definition ex_env :: "(blob, string, unit) http_env" where
  "ex_env = \<lparr> url_env = ex_api, rfc_env = (\<lambda>_. None),
     json_env = (\<lambda>s. if s = ''ok'' then Some \<lparr> task_id = 7, task_status = Queued, task_observation = None \<rparr> else None),
     uuid_text = (\<lambda>_. ''7''),
     srv = (\<lambda>m u c b. Inr \<lparr> resp_status = 201, resp_retry_after = None, resp_content_length = Some 2,
       resp_chunks = [Chunk ''ok''] \<rparr>) \<rparr>"

definition ex_client :: "(string, unit) perchpub_client" where
  "ex_client = \<lparr> base_url = ''https://h'', inner_client = () \<rparr>"

theorem requests_stay_on_authority_witness:
  "get_classify_task ex_env ex_client 7 0
   = get_classify_task (ex_env\<lparr>srv := (\<lambda>m u c b. if take 9 u = ''https://h'' then srv ex_env m u c b else Inl ''x'')\<rparr>) ex_client 7 0"
  using requests_stay_on_authority [of ex_env ex_client
      "\<lambda>m u c b. if take 9 u = ''https://h'' then srv ex_env m u c b else Inl ''x''" "(PendingDir, [])" 0
      "\<lparr> files = [], seq = 0, journal = [] \<rparr>" "[]" 7]
  by (simp add: ex_env_def ex_api_def ex_client_def)

lemma issuing_loop_sound:
  "issuing_loop x509 li bs = Some b \<Longrightarrow> b \<in> set bs \<and> (\<exists>s i. x509 b = Some (s, i) \<and> s = li \<and> s \<noteq> i)"
  by (induction bs) (auto split: option.splits if_splits prod.splits)

lemma issuing_loop_complete:
  "issuing_loop x509 li bs = None \<Longrightarrow> b \<in> set bs \<Longrightarrow> x509 b = Some (s, i) \<Longrightarrow> s = li \<Longrightarrow> s = i"
  by (induction bs) (auto split: option.splits if_splits prod.splits)

text \<open>
  Certificate selection. The intermediate that is presented is one of the certificate
  blocks of the chain file, issued the leaf, and is never self-signed.
\<close>

theorem issuing_intermediate_sound:
  "case issuing_intermediate_pem x509 leaf chain of
     Some b \<Rightarrow> b \<in> set (pem_cert_blocks chain) \<and>
       (\<exists>ls li i. x509 leaf = Some (ls, li) \<and> x509 b = Some (li, i) \<and> li \<noteq> i)
   | None \<Rightarrow> x509 leaf = None \<or>
       (\<exists>ls li. x509 leaf = Some (ls, li) \<and>
          (\<forall>b \<in> set (pem_cert_blocks chain). \<forall>i. x509 b = Some (li, i) \<longrightarrow> i = li))"
  using issuing_loop_sound issuing_loop_complete
  by (auto simp: issuing_intermediate_pem_def split: option.splits prod.splits) blast+

definition ex_x509 :: "string \<Rightarrow> (string \<times> string) option" where
  "ex_x509 p = (if p = ''leaf'' then Some (''L'', ''I'') else Some (''I'', ''R''))"

definition ex_chain :: string where
  "ex_chain = pem_begin @ [CHR 0x0A] @ pem_end @ [CHR 0x0A]"

lemma ex_chain_blocks: "pem_cert_blocks ex_chain = [ex_chain]"
  by (simp add: ex_chain_def pem_cert_blocks_def str_lines_def pem_begin_def pem_end_def starts_with_def Let_def)

theorem issuing_intermediate_sound_witness:
  "issuing_intermediate_pem ex_x509 ''leaf'' ex_chain = Some ex_chain \<and>
   (\<exists>ls li i. ex_x509 ''leaf'' = Some (ls, li) \<and> ex_x509 ex_chain = Some (li, i) \<and> li \<noteq> i)"
proof -
  have n: "ex_chain \<noteq> ''leaf''" by (simp add: ex_chain_def pem_begin_def)
  have e: "issuing_intermediate_pem ex_x509 ''leaf'' ex_chain = Some ex_chain"
    using n by (simp add: issuing_intermediate_pem_def ex_chain_blocks ex_x509_def)
  show ?thesis
    using issuing_intermediate_sound [of ex_x509 "''leaf''" ex_chain] by (simp add: e)
qed

lemma of_digit_char [simp]: "d < 10 \<Longrightarrow> of_char (digit_char d) = (48 + d :: nat)"
  by (simp add: digit_char_def)

lemma is_digit_digit_char [simp]: "d < 10 \<Longrightarrow> is_digit (digit_char d)"
  by (simp add: is_digit_def)

lemma show_nat_digits: "list_all is_digit (show_nat n) \<and> show_nat n \<noteq> [] \<and> digits_value (show_nat n) = n"
proof (induction n rule: show_nat.induct)
  case (1 n)
  show ?case
  proof (cases "n < 10")
    case True
    then show ?thesis by (simp add: show_nat.simps [of n] is_digit_def digits_value_def)
  next
    case False
    then have IH: "list_all is_digit (show_nat (n div 10))" "digits_value (show_nat (n div 10)) = n div 10"
      using 1 by auto
    have "10 * (n div 10) + n mod 10 = n" by simp
    then show ?thesis
      using False IH by (simp add: show_nat.simps [of n] digits_value_def)
  qed
qed

lemma digit_not_space: "is_digit c \<Longrightarrow> \<not> is_space c \<and> c \<noteq> CHR ''+''"
  by (auto simp: is_digit_def is_space_def)

lemma trim_digits: "list_all is_digit ds \<Longrightarrow> trim_spaces ds = ds"
proof -
  assume d: "list_all is_digit ds"
  have "dropWhile is_space xs = xs" if "list_all is_digit xs" for xs
    using that digit_not_space by (cases xs) auto
  then show ?thesis using d by (simp add: trim_spaces_def)
qed

text \<open>
  A \<^verbatim>\<open>Retry-After\<close> given in seconds is read exactly: the decimal form of a 64-bit number
  comes back as that many seconds, and a number beyond 64 bits is not taken for a delay.
\<close>

theorem parse_retry_after_roundtrip:
  "parse_retry_after rfc_date (Some (show_nat n)) now =
     (if n \<le> u64_max then Some (n * 10 ^ 9)
      else map_option (\<lambda>at. nat (max 0 (at - now))) (rfc_date (show_nat n)))"
proof -
  have d: "list_all is_digit (show_nat n)" "show_nat n \<noteq> []" "digits_value (show_nat n) = n"
    using show_nat_digits [of n] by auto
  obtain c cs where c: "show_nat n = c # cs" using d(2) by (cases "show_nat n") auto
  have "c \<noteq> CHR ''+''" using d(1) c digit_not_space by auto
  then have p: "parse_u64 (show_nat n) = (if n \<le> u64_max then Some n else None)"
    using d c by (simp add: parse_u64_def)
  show ?thesis
    using d(1) p by (auto simp: parse_retry_after_def trim_digits ns_per_sec_def split: option.split)
qed

end
