(* ===== verification/Retry.thy ===== *)
theory Retry
  imports Complex_Main Client
begin

text \<open>
  The retry scheduler, \<^verbatim>\<open>crates/perchstation-core/src/delivery/retry.rs\<close>: classification of
  failures and the backoff schedule.

  Double-precision arithmetic is exact arithmetic on rationals followed by the rounding
  \<open>rnd\<close> of the argument \<open>fp\<close>, with infinity and not-a-number as separate values; \<open>f_powi\<close> is
  \<^verbatim>\<open>f64::powi\<close>. The argument \<open>lims\<close> holds chrono's largest \<^verbatim>\<open>TimeDelta\<close> and \<^verbatim>\<open>DateTime\<close>. An operation
  that would panic has the value \<open>None\<close>.
\<close>

section \<open>Double-precision numbers\<close>

datatype f64 = Fin rat | PosInf | NaN

record fp_env =
  rnd :: "rat \<Rightarrow> f64"
  f_powi :: "f64 \<Rightarrow> nat \<Rightarrow> f64"

text \<open>
  What the code relies on. IEEE 754 promises that integers of up to 53 bits are exact and that
  rounding is monotone and accurate to one part in two to the 52nd in the normal range. The
  precision of \<^verbatim>\<open>powi\<close> is documented as unspecified; that powers of two are exact until they
  overflow is an assumption about the platform, which repeated multiplication satisfies.
\<close>

definition fp_ok :: "fp_env \<Rightarrow> bool" where
  "fp_ok fp \<longleftrightarrow>
     (\<forall>k :: int. \<bar>k\<bar> \<le> 2 ^ 53 \<longrightarrow> rnd fp (of_int k) = Fin (of_int k)) \<and>
     (\<forall>x y a b. x \<le> y \<longrightarrow> rnd fp x = Fin a \<longrightarrow> rnd fp y = Fin b \<longrightarrow> a \<le> b) \<and>
     (\<forall>x. 0 \<le> x \<longrightarrow> rnd fp x \<noteq> NaN) \<and>
     (\<forall>x. \<bar>x\<bar> \<le> 2 ^ 100 \<longrightarrow> (\<exists>a. rnd fp x = Fin a \<and> \<bar>a - x\<bar> \<le> \<bar>x\<bar> / 2 ^ 52 + 1 / 2 ^ 1000)) \<and>
     (\<forall>n. f_powi fp (Fin 2) n = (if n \<le> 1023 then Fin (2 ^ n) else PosInf))"

fun f_mul :: "fp_env \<Rightarrow> f64 \<Rightarrow> f64 \<Rightarrow> f64" where
  "f_mul fp (Fin x) (Fin y) = rnd fp (x * y)"
| "f_mul fp (Fin x) PosInf = (if 0 < x then PosInf else NaN)"
| "f_mul fp PosInf (Fin y) = (if 0 < y then PosInf else NaN)"
| "f_mul fp PosInf PosInf = PosInf"
| "f_mul fp _ _ = NaN"

text \<open>\<^verbatim>\<open>f64::min\<close> and \<^verbatim>\<open>f64::max\<close> return the other operand when one is not a number.\<close>

fun f_min :: "f64 \<Rightarrow> f64 \<Rightarrow> f64" where
  "f_min (Fin x) (Fin y) = Fin (min x y)"
| "f_min PosInf b = (case b of NaN \<Rightarrow> PosInf | _ \<Rightarrow> b)"
| "f_min a PosInf = (case a of NaN \<Rightarrow> PosInf | _ \<Rightarrow> a)"
| "f_min NaN b = b"
| "f_min a NaN = a"

definition dur_secs :: "duration \<Rightarrow> nat" where
  "dur_secs d = d div 10 ^ 9"

text \<open>\<^verbatim>\<open>Duration::as_secs_f64\<close>: whole seconds plus the fraction of a second, each step rounded.\<close>

fun f_bind :: "f64 \<Rightarrow> (rat \<Rightarrow> f64) \<Rightarrow> f64" where
  "f_bind (Fin x) k = k x"
| "f_bind PosInf k = PosInf"
| "f_bind NaN k = NaN"

definition as_secs_f64 :: "fp_env \<Rightarrow> duration \<Rightarrow> f64" where
  "as_secs_f64 fp d =
     f_bind (rnd fp (of_nat (d div 10 ^ 9))) (\<lambda>s.
     f_bind (rnd fp (of_nat (d mod 10 ^ 9) / 10 ^ 9)) (\<lambda>n.
     rnd fp (s + n)))"

definition round_half_even :: "rat \<Rightarrow> int" where
  "round_half_even x =
     (let f = \<lfloor>x\<rfloor>; d = x - of_int f in
      if d < 1 / 2 then f else if 1 / 2 < d then f + 1 else if even f then f else f + 1)"

text \<open>\<^verbatim>\<open>Duration::from_secs_f64\<close> panics on a negative, overflowing or non-finite argument.\<close>

fun from_secs_f64 :: "f64 \<Rightarrow> duration option" where
  "from_secs_f64 (Fin x) = (if 0 \<le> x \<and> x < 2 ^ 64 then Some (nat (round_half_even (x * 10 ^ 9))) else None)"
| "from_secs_f64 _ = None"

section \<open>Classification of failures\<close>

datatype failure_kind = Transient | Terminal

fun error_kind :: "client_error \<Rightarrow> string" where
  "error_kind (Http _ _ _) = ''http_status''"
| "error_kind (Network _) = ''network''"
| "error_kind (Decode _) = ''decode''"
| "error_kind (UndecodableSuccess _) = ''undecodable_success''"
| "error_kind (OutboundDisallowed _ _) = ''outbound_disallowed''"
| "error_kind (ClipOpen _ _) = ''clip_open''"
| "error_kind (CredentialIo _ _) = ''config''"
| "error_kind (TlsConfig _) = ''config''"
| "error_kind (InvalidUrl _) = ''config''"

definition classify_status :: "u16 \<Rightarrow> failure_kind" where
  "classify_status s =
     (if 200 \<le> s \<and> s \<le> 299 \<or> s = 408 \<or> s = 425 \<or> s = 429 \<or> s = 500 \<or> s = 502 \<or> s = 503 \<or> s = 504
      then Transient else Terminal)"

fun classify_upload_error :: "client_error \<Rightarrow> failure_kind" where
  "classify_upload_error (Http status _ _) = classify_status status"
| "classify_upload_error (Network _) = Transient"
| "classify_upload_error (Decode _) = Transient"
| "classify_upload_error (UndecodableSuccess _) = Terminal"
| "classify_upload_error (OutboundDisallowed _ _) = Terminal"
| "classify_upload_error (ClipOpen _ _) = Terminal"
| "classify_upload_error (CredentialIo _ _) = Terminal"
| "classify_upload_error (TlsConfig _) = Terminal"
| "classify_upload_error (InvalidUrl _) = Terminal"

definition classify_poll_error :: "client_error \<Rightarrow> failure_kind" where
  "classify_poll_error err =
     (case err of UndecodableSuccess _ \<Rightarrow> Transient | other \<Rightarrow> classify_upload_error other)"

section \<open>The schedule\<close>

record backoff_schedule =
  initial_delay :: duration
  max_attempt_delay :: duration
  multiplier :: f64
  jitter_fraction :: f64
  per_clip_max_attempts :: u32
  per_clip_max_wallclock :: duration

definition sat_mul_u64 :: "nat \<Rightarrow> nat \<Rightarrow> nat" where
  "sat_mul_u64 a b = min (a * b) u64_max"

definition schedule_from_config :: "f64 \<Rightarrow> retry_config \<Rightarrow> backoff_schedule" where
  "schedule_from_config default_jitter cfg =
     \<lparr> initial_delay = initial_delay_secs cfg * 10 ^ 9,
       max_attempt_delay = max_attempt_delay_secs cfg * 10 ^ 9,
       multiplier = Fin 2, jitter_fraction = default_jitter,
       per_clip_max_attempts = rc_per_clip_max_attempts cfg,
       per_clip_max_wallclock = sat_mul_u64 (per_clip_max_wallclock_hours cfg) 3600 * 10 ^ 9 \<rparr>"

datatype next_action = Retry instant | Exhausted

record chrono_limits =
  td_max :: delta
  dt_max :: instant

definition max_backoff_secs :: rat where
  "max_backoff_secs = 10 ^ 15"

definition base_delay :: "fp_env \<Rightarrow> backoff_schedule \<Rightarrow> u32 \<Rightarrow> duration option" where
  "base_delay fp s att =
     (let e = min (sat_sub att 1) (2 ^ 31 - 1);
          base_secs = f_mul fp (as_secs_f64 fp (initial_delay s)) (f_powi fp (multiplier s) e);
          capped = f_min base_secs (as_secs_f64 fp (max_attempt_delay s));
          bounded = (case capped of Fin x \<Rightarrow> Fin (max 0 (min x max_backoff_secs)) | _ \<Rightarrow> Fin max_backoff_secs) in
      from_secs_f64 bounded)"

text \<open>The nanoseconds of an instant within its second.\<close>

definition subsec_nanos :: "instant \<Rightarrow> nat" where
  "subsec_nanos t = nat (t mod 10 ^ 9)"

definition jitter_factor :: "fp_env \<Rightarrow> rat \<Rightarrow> instant \<Rightarrow> f64" where
  "jitter_factor fp jf now =
     f_bind (rnd fp (of_nat (subsec_nanos now) / 500000000)) (\<lambda>q.
     f_bind (rnd fp (q - 1)) (\<lambda>normalized.
     f_bind (rnd fp (max (- 1) (min normalized 1) * jf)) (\<lambda>p.
     f_bind (rnd fp (1 + p)) (\<lambda>factor. Fin (max factor 0)))))"

text \<open>
  A jitter fraction that is not finite never comes from \<^verbatim>\<open>from_config\<close>. The factor \<open>1 + n * jf\<close> is then
  not a number, or infinite with the sign of \<open>n\<close>, and \<^verbatim>\<open>max(0.0)\<close> turns all but plus infinity into zero.
\<close>

definition wild_factor :: "fp_env \<Rightarrow> f64 \<Rightarrow> instant \<Rightarrow> f64" where
  "wild_factor fp jf now =
     (case (jf, f_bind (rnd fp (of_nat (subsec_nanos now) / 500000000)) (\<lambda>q. rnd fp (q - 1))) of
        (PosInf, Fin n) \<Rightarrow> if 0 < n then PosInf else Fin 0
      | (PosInf, PosInf) \<Rightarrow> PosInf
      | _ \<Rightarrow> Fin 0)"

definition apply_jitter :: "fp_env \<Rightarrow> duration \<Rightarrow> f64 \<Rightarrow> instant \<Rightarrow> duration option" where
  "apply_jitter fp base jf now =
     (case jf of
        Fin j \<Rightarrow> if j \<le> 0 then Some base
                 else from_secs_f64 (f_mul fp (as_secs_f64 fp base) (jitter_factor fp j now))
      | _ \<Rightarrow> from_secs_f64 (f_mul fp (as_secs_f64 fp base) (wild_factor fp jf now)))"

definition cast_signed :: "u64 \<Rightarrow> int" where
  "cast_signed n = (if n < 2 ^ 63 then int n else int n - 2 ^ 64)"

definition delta_seconds :: "chrono_limits \<Rightarrow> int \<Rightarrow> delta option" where
  "delta_seconds lims n = (if \<bar>n\<bar> * 10 ^ 9 \<le> td_max lims then Some (n * 10 ^ 9) else None)"

definition delta_from_std :: "chrono_limits \<Rightarrow> duration \<Rightarrow> delta option" where
  "delta_from_std lims d = (if int d \<le> td_max lims then Some (int d) else None)"

definition dt_add :: "chrono_limits \<Rightarrow> instant \<Rightarrow> delta \<Rightarrow> instant option" where
  "dt_add lims t d = (if t + d \<le> dt_max lims then Some (t + d) else None)"

definition elapsed_since :: "instant \<Rightarrow> instant \<Rightarrow> duration" where
  "elapsed_since first now = (if first \<le> now then nat (now - first) else 0)"

definition budget_spent :: "backoff_schedule \<Rightarrow> instant \<Rightarrow> u32 \<Rightarrow> instant option \<Rightarrow> bool" where
  "budget_spent s now att first \<longleftrightarrow>
     per_clip_max_attempts s \<le> att \<or>
     (case first of None \<Rightarrow> False | Some f \<Rightarrow> per_clip_max_wallclock s \<le> elapsed_since f now)"

definition schedule ::
  "fp_env \<Rightarrow> chrono_limits \<Rightarrow> backoff_schedule \<Rightarrow> instant \<Rightarrow> u32 \<Rightarrow> instant option \<Rightarrow> duration option
     \<Rightarrow> next_action option" where
  "schedule fp lims s now att first retry_after_floor =
     (if budget_spent s now att first then Some Exhausted
      else
        Option.bind (base_delay fp s att) (\<lambda>base.
        Option.bind (apply_jitter fp base (jitter_fraction s) now) (\<lambda>jittered.
        let delay = (case retry_after_floor of
                       Some ra \<Rightarrow> if jittered < ra then ra else jittered
                     | None \<Rightarrow> jittered) in
        Option.bind (case delta_from_std lims delay of
                       Some d \<Rightarrow> Some d
                     | None \<Rightarrow> delta_seconds lims (cast_signed (dur_secs (max_attempt_delay s)))) (\<lambda>d.
        map_option Retry (dt_add lims now d)))))"

section \<open>Arithmetic facts\<close>

lemma rnd_int: "fp_ok fp \<Longrightarrow> \<bar>k\<bar> \<le> 2 ^ 53 \<Longrightarrow> rnd fp (of_int k) = Fin (of_int k)"
  unfolding fp_ok_def by blast

lemma rnd_nat: "fp_ok fp \<Longrightarrow> n \<le> 2 ^ 53 \<Longrightarrow> rnd fp (of_nat n) = Fin (of_nat n)"
proof -
  assume fp: "fp_ok fp" and "n \<le> 2 ^ 53"
  then have "int n \<le> 2 ^ 53" by (metis of_nat_le_iff of_nat_numeral of_nat_power)
  then show ?thesis using rnd_int [OF fp, of "int n"] by simp
qed

lemma rnd_mono: "fp_ok fp \<Longrightarrow> x \<le> y \<Longrightarrow> rnd fp x = Fin a \<Longrightarrow> rnd fp y = Fin b \<Longrightarrow> a \<le> b"
  unfolding fp_ok_def by blast

lemma rnd_close:
  assumes "fp_ok fp" "\<bar>x\<bar> \<le> 2 ^ 30"
  shows "\<exists>a. rnd fp x = Fin a \<and> \<bar>a - x\<bar> \<le> 1 / 2 ^ 20"
proof -
  have "\<bar>x\<bar> \<le> 2 ^ 100" using assms(2) by simp
  then obtain a where a: "rnd fp x = Fin a" "\<bar>a - x\<bar> \<le> \<bar>x\<bar> / 2 ^ 52 + 1 / 2 ^ 1000"
    using assms(1) unfolding fp_ok_def by blast
  have "\<bar>x\<bar> / 2 ^ 52 \<le> 1 / (2 :: rat) ^ 22" using assms(2) by (simp add: field_simps)
  moreover have "1 / (2 :: rat) ^ 1000 \<le> 1 / 2 ^ 22" by (simp add: frac_le power_increasing)
  ultimately have "\<bar>a - x\<bar> \<le> 1 / 2 ^ 20" using a(2) by simp
  then show ?thesis using a(1) by blast
qed

lemma rnd_near:
  assumes "fp_ok fp" "- 1000000000 \<le> x" "x \<le> 1000000000"
  shows "\<exists>a. rnd fp x = Fin a \<and> x - 1 / 1000000 \<le> a \<and> a \<le> x + 1 / 1000000"
proof -
  have "\<bar>x\<bar> \<le> 2 ^ 30" using assms(2,3) by (simp add: abs_le_iff)
  then obtain a where "rnd fp x = Fin a" "\<bar>a - x\<bar> \<le> 1 / 2 ^ 20" using rnd_close [OF assms(1)] by blast
  moreover have "1 / 2 ^ 20 \<le> (1 / 1000000 :: rat)" by simp
  ultimately have "\<bar>a - x\<bar> \<le> 1 / 1000000" by (meson order_trans)
  then have "x - 1 / 1000000 \<le> a" "a \<le> x + 1 / 1000000" by linarith+
  then show ?thesis using \<open>rnd fp x = Fin a\<close> by blast
qed

lemma as_secs_whole: "fp_ok fp \<Longrightarrow> n \<le> 2 ^ 53 \<Longrightarrow> as_secs_f64 fp (n * 10 ^ 9) = Fin (of_nat n)"
  using rnd_nat [of fp n] rnd_nat [of fp 0] by (simp add: as_secs_f64_def)

lemma round_half_even_int [simp]: "round_half_even (of_int k) = k"
  by (simp add: round_half_even_def)

lemma from_secs_whole: "n < 2 ^ 64 \<Longrightarrow> from_secs_f64 (Fin (of_nat n)) = Some (n * 10 ^ 9)"
proof -
  assume n: "n < 2 ^ 64"
  have e: "of_nat n * 10 ^ 9 = (of_int (int (n * 10 ^ 9)) :: rat)" by simp
  have "(of_nat n :: rat) < of_nat (2 ^ 64)" using n by (simp only: of_nat_less_iff)
  then have "(of_nat n :: rat) < 2 ^ 64" by simp
  then show ?thesis unfolding from_secs_f64.simps e round_half_even_int by simp
qed

lemma doubled_beyond:
  fixes m :: nat
  assumes "m \<le> 604800" "1 \<le> i" "20 \<le> k"
  shows "m \<le> i * 2 ^ k"
proof -
  have "(2 :: nat) ^ 20 \<le> 2 ^ k" using assms(3) by (intro power_increasing) simp_all
  then have "m \<le> 2 ^ k" using assms(1) by simp
  also have "\<dots> \<le> i * 2 ^ k" using assms(2) by simp
  finally show ?thesis .
qed

text \<open>The product of the doubles, capped by the ceiling, is exact: it is rounded only where the ceiling is smaller.\<close>

lemma capped_product:
  assumes fp: "fp_ok fp" and i: "1 \<le> i" and m: "m \<le> 604800"
  shows "f_min (f_mul fp (Fin (of_nat i)) (f_powi fp (Fin 2) e)) (Fin (of_nat m)) = Fin (of_nat (min (i * 2 ^ e) m))"
proof -
  have pw: "f_powi fp (Fin 2) e = (if e \<le> 1023 then Fin (2 ^ e) else PosInf)"
    using fp unfolding fp_ok_def by blast
  have rm: "rnd fp (of_nat m) = Fin (of_nat m)" using fp m by (intro rnd_nat) auto
  show ?thesis
  proof (cases "e \<le> 1023")
    case False
    then show ?thesis using pw i doubled_beyond [OF m i, of e] by simp
  next
    case True
    let ?x = "of_nat (i * 2 ^ e) :: rat"
    have x: "f_mul fp (Fin (of_nat i)) (f_powi fp (Fin 2) e) = rnd fp ?x" using True pw by simp
    show ?thesis
    proof (cases "i * 2 ^ e \<le> m")
      case True
      then have "rnd fp ?x = Fin ?x" using fp m by (intro rnd_nat) auto
      then show ?thesis using x True by (simp add: min_def flip: of_nat_mult of_nat_power)
    next
      case False
      have "rnd fp ?x \<noteq> NaN" using fp unfolding fp_ok_def by (meson of_nat_0_le_iff)
      moreover have "of_nat m \<le> a" if "rnd fp ?x = Fin a" for a
        using rnd_mono [OF fp _ rm that] False by (simp flip: of_nat_mult of_nat_power)
      ultimately show ?thesis using x False by (cases "rnd fp ?x") (auto simp: min_def)
    qed
  qed
qed

lemma base_delay_value:
  assumes fp: "fp_ok fp" and i: "1 \<le> i" "i \<le> m" and m: "m \<le> 604800"
    and s: "initial_delay s = i * 10 ^ 9" "max_attempt_delay s = m * 10 ^ 9" "multiplier s = Fin 2"
  shows "base_delay fp s att = Some (min (i * 2 ^ (att - 1)) m * 10 ^ 9)"
proof -
  define e where "e = min (att - 1) (2 ^ 31 - 1 :: nat)"
  have secs: "as_secs_f64 fp (i * 10 ^ 9) = Fin (of_nat i)" "as_secs_f64 fp (m * 10 ^ 9) = Fin (of_nat m)"
    using i m by (auto simp only: intro!: as_secs_whole [OF fp]) simp_all
  have same: "min (i * 2 ^ e) m = min (i * 2 ^ (att - 1)) m"
  proof (cases "att - 1 \<le> 2 ^ 31 - 1")
    case False
    then have "20 \<le> e" "20 \<le> att - 1" by (simp_all add: e_def min_def)
    then have "m \<le> i * 2 ^ e" "m \<le> i * 2 ^ (att - 1)" by (auto intro: doubled_beyond [OF m i(1)] simp only:)
    then show ?thesis by (simp only: min_absorb2)
  next
    case True
    then have "e = att - 1" by (simp add: e_def min_def)
    then show ?thesis by (simp only:)
  qed
  have "max 0 (min (of_nat k) max_backoff_secs) = (of_nat k :: rat)" if "k \<le> m" for k
  proof -
    have "(of_nat k :: rat) \<le> of_nat 604800" using that m by (simp only: of_nat_le_iff)
    then show ?thesis by (simp add: max_backoff_secs_def)
  qed
  moreover have "from_secs_f64 (Fin (of_nat k)) = Some (k * 10 ^ 9)" if "k \<le> m" for k
    using that m by (intro from_secs_whole) simp
  ultimately show ?thesis
    unfolding base_delay_def s secs Let_def sat_sub_eq e_def [symmetric] same [symmetric] using capped_product [OF fp i(1) m, of e] by simp
qed


text \<open>Exact arithmetic is one way to satisfy the assumptions on floating point.\<close>

definition fp_exact :: fp_env where
  "fp_exact = \<lparr> rnd = Fin, f_powi = (\<lambda>x n. case x of Fin r \<Rightarrow> if n \<le> 1023 then Fin (r ^ n) else PosInf | y \<Rightarrow> y) \<rparr>"

lemma fp_exact_ok: "fp_ok fp_exact"
  unfolding fp_ok_def fp_exact_def by simp

definition ex_schedule :: backoff_schedule where
  "ex_schedule = schedule_from_config (Fin (1 / 5)) default_retry_config"

lemma ex_schedule_sel [simp]:
  "initial_delay ex_schedule = 10 * 10 ^ 9" "max_attempt_delay ex_schedule = 3600 * 10 ^ 9"
  "multiplier ex_schedule = Fin 2" "jitter_fraction ex_schedule = Fin (1 / 5)"
  "per_clip_max_attempts ex_schedule = 12" "per_clip_max_wallclock ex_schedule = 86400 * 10 ^ 9"
  by (simp_all add: ex_schedule_def schedule_from_config_def default_retry_config_def sat_mul_u64_def u64_max_def)


section \<open>Jitter\<close>

lemma jitter_factor_range:
  assumes fp: "fp_ok fp" and j: "0 < j" "j \<le> 200001 / 1000000"
  shows "\<exists>f. jitter_factor fp j now = Fin f \<and> 7999 / 10000 \<le> f \<and> f \<le> 12001 / 10000"
proof -
  let ?n = "of_nat (subsec_nanos now) :: rat"
  have n: "0 \<le> ?n" "?n < 1000000000"
  proof -
    have "subsec_nanos now < 10 ^ 9" by (simp add: subsec_nanos_def nat_less_iff)
    then have "?n < of_nat (10 ^ 9)" by (simp only: of_nat_less_iff)
    then show "?n < 1000000000" by simp
  qed simp
  obtain q where q: "rnd fp (?n / 500000000) = Fin q" "?n / 500000000 - 1 / 1000000 \<le> q" "q \<le> ?n / 500000000 + 1 / 1000000"
    using rnd_near [OF fp, of "?n / 500000000"] n by auto
  have "- 1000000000 \<le> q - 1" "q - 1 \<le> 1000000000" using q n by linarith+
  then obtain d where d: "rnd fp (q - 1) = Fin d" using rnd_near [OF fp] by blast
  define c where "c = max (- 1) (min d 1)"
  have c: "- 1 \<le> c" "c \<le> 1" by (auto simp: c_def)
  have cj: "- 200001 / 1000000 \<le> c * j" "c * j \<le> 200001 / 1000000"
    using mult_right_mono [OF c(1), of j] mult_right_mono [OF c(2), of j] j by linarith+
  obtain p where p: "rnd fp (c * j) = Fin p" "c * j - 1 / 1000000 \<le> p" "p \<le> c * j + 1 / 1000000"
    using rnd_near [OF fp, of "c * j"] cj by auto
  have "- 1000000000 \<le> 1 + p" "1 + p \<le> 1000000000" using p cj by linarith+
  then obtain f where f: "rnd fp (1 + p) = Fin f" "1 + p - 1 / 1000000 \<le> f" "f \<le> 1 + p + 1 / 1000000"
    using rnd_near [OF fp] by blast
  have "7999 / 10000 \<le> f" "f \<le> 12001 / 10000" using f p cj by linarith+
  then show ?thesis
    using q(1) d p(1) f(1) by (simp add: jitter_factor_def c_def)
qed

lemma round_half_even_close: "x - 1 / 2 \<le> of_int (round_half_even x)" "of_int (round_half_even x) \<le> x + 1 / 2"
proof -
  have f: "of_int \<lfloor>x\<rfloor> \<le> x" "x < of_int \<lfloor>x\<rfloor> + 1" by linarith+
  have "round_half_even x = \<lfloor>x\<rfloor> \<and> \<not> 1 / 2 < x - of_int \<lfloor>x\<rfloor> \<or>
      round_half_even x = \<lfloor>x\<rfloor> + 1 \<and> \<not> x - of_int \<lfloor>x\<rfloor> < 1 / 2"
    by (auto simp only: round_half_even_def Let_def split: if_split)
  then show "x - 1 / 2 \<le> of_int (round_half_even x)" "of_int (round_half_even x) \<le> x + 1 / 2"
    using f by (elim disjE conjE; simp only: of_int_add of_int_1; linarith)+
qed

lemma apply_jitter_range:
  assumes fp: "fp_ok fp" and j: "0 < j" "j \<le> 200001 / 1000000" and b: "b \<le> 604800"
  shows "\<exists>d. apply_jitter fp (b * 10 ^ 9) (Fin j) now = Some d \<and>
    7999 / 10000 * of_nat (b * 10 ^ 9) - 1001 \<le> (of_nat d :: rat) \<and>
    of_nat d \<le> 12001 / 10000 * of_nat (b * 10 ^ 9) + (1001 :: rat)"
proof -
  let ?b = "of_nat b :: rat"
  obtain f where f: "jitter_factor fp j now = Fin f" "7999 / 10000 \<le> f" "f \<le> 12001 / 10000"
    using jitter_factor_range [OF fp j] by blast
  have b': "?b \<le> 604800" using b by (metis of_nat_le_iff of_nat_numeral)
  have lo: "7999 / 10000 * ?b \<le> ?b * f" using f(2) mult_left_mono [of "7999 / 10000" f ?b] by (simp add: mult.commute)
  have hi: "?b * f \<le> 12001 / 10000 * ?b" using f(3) mult_left_mono [of f "12001 / 10000" ?b] by (simp add: mult.commute)
  have "0 \<le> ?b * f" using f(2) by simp
  then have "- 1000000000 \<le> ?b * f" "?b * f \<le> 1000000000" using hi b' by linarith+
  then obtain x where x: "rnd fp (?b * f) = Fin x" "?b * f - 1 / 1000000 \<le> x" "x \<le> ?b * f + 1 / 1000000"
    using rnd_near [OF fp] by blast
  have "0 \<le> x"
  proof -
    have "rnd fp 0 = Fin 0" using rnd_nat [OF fp, of 0] by simp
    moreover have "0 \<le> ?b * f" using f(2) by simp
    ultimately show ?thesis using rnd_mono [OF fp _ _ x(1)] by blast
  qed
  moreover have "x < 2 ^ 64"
  proof -
    have "x \<le> 1000000" using x(3) hi b' by linarith
    then show ?thesis by simp
  qed
  moreover have "as_secs_f64 fp (b * 10 ^ 9) = Fin ?b" using b by (intro as_secs_whole [OF fp]) simp
  ultimately have run: "apply_jitter fp (b * 10 ^ 9) (Fin j) now = Some (nat (round_half_even (x * 10 ^ 9)))"
    using j(1) f(1) x(1) by (simp add: apply_jitter_def)
  let ?r = "round_half_even (x * 10 ^ 9)"
  have r: "x * 1000000000 - 1 / 2 \<le> of_int ?r" "of_int ?r \<le> x * 1000000000 + 1 / 2"
    using round_half_even_close [of "x * 10 ^ 9"] by simp_all
  have "of_int ?r > (- 1 :: rat)" using r \<open>0 \<le> x\<close> by linarith
  then have nr: "(of_nat (nat ?r) :: rat) = of_int ?r" by simp
  have e: "(of_nat (b * 10 ^ 9) :: rat) = ?b * 1000000000" by simp
  have "7999 / 10000 * of_nat (b * 10 ^ 9) - 1001 \<le> (of_int ?r :: rat) \<and> (of_int ?r :: rat) \<le> 12001 / 10000 * of_nat (b * 10 ^ 9) + 1001"
    unfolding e using r x(2,3) lo hi by (intro conjI) linarith+
  then show ?thesis using run nr by (metis (no_types, lifting))
qed

section \<open>Properties of the schedule\<close>

definition capped_backoff :: "retry_config \<Rightarrow> u32 \<Rightarrow> nat" where
  "capped_backoff cfg att = min (initial_delay_secs cfg * 2 ^ (att - 1)) (max_attempt_delay_secs cfg)"

lemma capped_backoff_le: "max_attempt_delay_secs cfg \<le> 604800 \<Longrightarrow> capped_backoff cfg att \<le> 604800"
  by (simp add: capped_backoff_def min_le_iff_disj)

lemma backoff_steps:
  fixes att :: u32
  assumes fp: "fp_ok fp" and j: "0 < j" "j \<le> 200001 / 1000000"
    and cfg: "1 \<le> initial_delay_secs cfg" "initial_delay_secs cfg \<le> max_attempt_delay_secs cfg"
      "max_attempt_delay_secs cfg \<le> 604800"
  defines "s \<equiv> schedule_from_config (Fin j) cfg" and "B \<equiv> capped_backoff cfg att * 10 ^ 9"
  obtains d where "base_delay fp s att = Some B" "apply_jitter fp B (jitter_fraction s) now = Some d"
    "7999 / 10000 * of_nat B - 1001 \<le> (of_nat d :: rat)" "of_nat d \<le> 12001 / 10000 * of_nat B + (1001 :: rat)" "d \<le> 10 ^ 15"
proof -
  have base: "base_delay fp s att = Some B"
    unfolding B_def capped_backoff_def
    by (rule base_delay_value [OF fp cfg]) (simp_all add: s_def schedule_from_config_def)
  obtain d where d: "apply_jitter fp B (Fin j) now = Some d"
    "7999 / 10000 * of_nat B - 1001 \<le> (of_nat d :: rat)" "of_nat d \<le> 12001 / 10000 * of_nat B + (1001 :: rat)"
    using apply_jitter_range [OF fp j capped_backoff_le [OF cfg(3)]] unfolding B_def by blast
  have "(of_nat B :: rat) \<le> of_nat (604800 * 10 ^ 9)"
    using capped_backoff_le [OF cfg(3), of att] unfolding B_def by (simp only: of_nat_le_iff mult_le_mono1)
  then have "(of_nat B :: rat) \<le> 604800 * 1000000000" by simp
  then have "(of_nat d :: rat) \<le> of_nat (10 ^ 15)" using d(3) by simp
  then have "d \<le> 10 ^ 15" by (simp only: of_nat_le_iff)
  then show ?thesis using that base d by (simp add: s_def schedule_from_config_def)
qed

text \<open>The test for a spent budget, in the terms of a validated configuration.\<close>

lemma budget_spent_config:
  assumes "per_clip_max_wallclock_hours cfg \<le> 8760"
  shows "budget_spent (schedule_from_config jf cfg) now att first \<longleftrightarrow>
    rc_per_clip_max_attempts cfg \<le> att \<or>
    (\<exists>f. first = Some f \<and> int (per_clip_max_wallclock_hours cfg) * 3600 * 10 ^ 9 \<le> max 0 (now - f))"
proof -
  have "per_clip_max_wallclock_hours cfg * 3600 \<le> u64_max" using assms by (simp add: u64_max_def)
  then have s: "per_clip_max_wallclock (schedule_from_config jf cfg) = per_clip_max_wallclock_hours cfg * 3600 * 10 ^ 9"
    by (simp add: schedule_from_config_def sat_mul_u64_def)
  have "h * 3600 * 10 ^ 9 \<le> elapsed_since f now \<longleftrightarrow> int h * 3600 * 10 ^ 9 \<le> max 0 (now - f)" for h :: nat and f
    by (simp add: elapsed_since_def max_def le_nat_iff)
  then show ?thesis
    unfolding budget_spent_def s by (simp add: schedule_from_config_def split: option.split)
qed

lemma schedule_decides:
  fixes att :: u32
  assumes fp: "fp_ok fp" and j: "0 < j" "j \<le> 200001 / 1000000"
    and cfg: "1 \<le> initial_delay_secs cfg" "initial_delay_secs cfg \<le> max_attempt_delay_secs cfg"
      "max_attempt_delay_secs cfg \<le> 604800" and hours: "per_clip_max_wallclock_hours cfg \<le> 8760"
    and lims: "10 ^ 15 \<le> td_max lims" "now + 10 ^ 15 \<le> dt_max lims"
    and ra: "int ra \<le> td_max lims" "now + int ra \<le> dt_max lims" "retry_after = None \<longrightarrow> ra = 0"
      "\<forall>f. retry_after = Some f \<longrightarrow> ra = f"
  defines "s \<equiv> schedule_from_config (Fin j) cfg" and "B \<equiv> capped_backoff cfg att * 10 ^ 9"
  shows "if rc_per_clip_max_attempts cfg \<le> att \<or>
      (\<exists>f. first = Some f \<and> int (per_clip_max_wallclock_hours cfg) * 3600 * 10 ^ 9 \<le> max 0 (now - f))
    then schedule fp lims s now att first retry_after = Some Exhausted
    else (\<exists>d. schedule fp lims s now att first retry_after = Some (Retry (now + int (max d ra))) \<and>
      7999 / 10000 * of_nat B - 1001 \<le> (of_nat d :: rat) \<and> of_nat d \<le> 12001 / 10000 * of_nat B + (1001 :: rat))"
proof -
  have "if budget_spent s now att first then schedule fp lims s now att first retry_after = Some Exhausted
    else (\<exists>d. schedule fp lims s now att first retry_after = Some (Retry (now + int (max d ra))) \<and>
      7999 / 10000 * of_nat B - 1001 \<le> (of_nat d :: rat) \<and> of_nat d \<le> 12001 / 10000 * of_nat B + (1001 :: rat))"
  proof (cases "budget_spent s now att first")
    case True
    then show ?thesis by (simp add: schedule_def)
  next
    case False
    obtain d where d: "base_delay fp s att = Some B" "apply_jitter fp B (jitter_fraction s) now = Some d"
      "7999 / 10000 * of_nat B - 1001 \<le> (of_nat d :: rat)" "of_nat d \<le> 12001 / 10000 * of_nat B + (1001 :: rat)" "d \<le> 10 ^ 15"
      using backoff_steps [OF fp j cfg] unfolding s_def B_def by metis
    have "int d \<le> 10 ^ 15" using d(5) by (metis of_nat_le_iff of_nat_numeral of_nat_power)
    then have m: "int (max d ra) \<le> td_max lims" "now + int (max d ra) \<le> dt_max lims"
      using lims ra(1,2) by (auto simp: max_def)
    have "(case retry_after of Some r \<Rightarrow> if d < r then r else d | None \<Rightarrow> d) = max d ra"
      using ra(3,4) by (cases retry_after) (auto simp: max_def)
    then have "schedule fp lims s now att first retry_after = Some (Retry (now + int (max d ra)))"
      using False d(1,2) m by (simp add: schedule_def delta_from_std_def dt_add_def)
    then show ?thesis using False d(3,4) by auto
  qed
  then show ?thesis unfolding s_def budget_spent_config [OF hours] .
qed



text \<open>
  A \<^verbatim>\<open>Retry-After\<close> beyond chrono's calendar panics the scheduler: the addition to the
  current time overflows although the delay itself is representable, and no budget check
  stands in the way.
\<close>

theorem schedule_panics_on_huge_retry_after:
  assumes fp: "fp_ok fp" and j: "0 < j" "j \<le> 200001 / 1000000"
    and cfg: "1 \<le> initial_delay_secs cfg" "initial_delay_secs cfg \<le> max_attempt_delay_secs cfg"
      "max_attempt_delay_secs cfg \<le> 604800"
    and ra: "10 ^ 15 < ra" "int ra \<le> td_max lims" "dt_max lims < now + int ra"
    and budget: "\<not> budget_spent (schedule_from_config (Fin j) cfg) now att first"
  shows "schedule fp lims (schedule_from_config (Fin j) cfg) now att first (Some ra) = None"
proof -
  obtain d where d: "base_delay fp (schedule_from_config (Fin j) cfg) att = Some (capped_backoff cfg att * 10 ^ 9)"
    "apply_jitter fp (capped_backoff cfg att * 10 ^ 9) (jitter_fraction (schedule_from_config (Fin j) cfg)) now = Some d"
    "d \<le> 10 ^ 15"
    using backoff_steps [OF fp j cfg] by metis
  then show ?thesis
    using budget ra by (simp add: schedule_def delta_from_std_def dt_add_def)
qed

theorem schedule_panics_on_huge_retry_after_witness:
  "schedule fp_exact \<lparr> td_max = 9223372036854775807 * 10 ^ 6, dt_max = 8210266876799999999999 \<rparr> ex_schedule
     1750000000000000000 1 (Some 1750000000000000000) (Some (9000000000000 * 10 ^ 9)) = None"
  unfolding ex_schedule_def
  by (rule schedule_panics_on_huge_retry_after [OF fp_exact_ok])
    (simp_all add: default_retry_config_def budget_spent_def elapsed_since_def schedule_from_config_def
      sat_mul_u64_def u64_max_def)

section \<open>Jitter and order\<close>

lemma round_half_even_mono:
  assumes "x \<le> y"
  shows "round_half_even x \<le> round_half_even y"
proof -
  have r: "\<lfloor>z\<rfloor> \<le> round_half_even z" "round_half_even z \<le> \<lfloor>z\<rfloor> + 1" for z
    by (auto simp: round_half_even_def Let_def)
  show ?thesis
  proof (cases "\<lfloor>x\<rfloor> = \<lfloor>y\<rfloor>")
    case True
    then show ?thesis using assms by (auto simp only: round_half_even_def Let_def split: if_split)
  next
    case False
    then have "\<lfloor>x\<rfloor> + 1 \<le> \<lfloor>y\<rfloor>" using floor_mono [OF assms] by linarith
    then show ?thesis using r(2) [of x] r(1) [of y] by linarith
  qed
qed

lemma jitter_factor_mono:
  assumes fp: "fp_ok fp" and j: "0 < j" and n: "subsec_nanos t1 \<le> subsec_nanos t2"
    and f: "jitter_factor fp j t1 = Fin f1" "jitter_factor fp j t2 = Fin f2"
  shows "f1 \<le> f2"
proof -
  have bindE: "\<exists>a. x = Fin a \<and> k a = Fin y" if "f_bind x k = Fin y" for x k y
    using that by (cases x) auto
  obtain q1 d1 p1 g1 where 1: "rnd fp (of_nat (subsec_nanos t1) / 500000000) = Fin q1" "rnd fp (q1 - 1) = Fin d1"
    "rnd fp (max (- 1) (min d1 1) * j) = Fin p1" "rnd fp (1 + p1) = Fin g1" "f1 = max g1 0"
    using f(1) unfolding jitter_factor_def by (auto dest!: bindE)
  obtain q2 d2 p2 g2 where 2: "rnd fp (of_nat (subsec_nanos t2) / 500000000) = Fin q2" "rnd fp (q2 - 1) = Fin d2"
    "rnd fp (max (- 1) (min d2 1) * j) = Fin p2" "rnd fp (1 + p2) = Fin g2" "f2 = max g2 0"
    using f(2) unfolding jitter_factor_def by (auto dest!: bindE)
  have "(of_nat (subsec_nanos t1) :: rat) \<le> of_nat (subsec_nanos t2)" using n by (simp only: of_nat_le_iff)
  then have "q1 \<le> q2" using rnd_mono [OF fp _ 1(1) 2(1)] by (simp add: divide_right_mono)
  then have "d1 \<le> d2" using rnd_mono [OF fp _ 1(2) 2(2)] by simp
  then have "max (- 1) (min d1 1) \<le> max (- 1) (min d2 1)" by auto
  then have "p1 \<le> p2" using rnd_mono [OF fp _ 1(3) 2(3)] j by (simp add: mult_right_mono)
  then have "g1 \<le> g2" using rnd_mono [OF fp _ 1(4) 2(4)] by simp
  then show ?thesis using 1(5) 2(5) by auto
qed

text \<open>
  Oldest-first within a second. Two clips on the same backoff step that fail within the
  same second keep their order: the one handled later is never scheduled before the other.
\<close>

theorem jitter_keeps_order:
  assumes fp: "fp_ok fp" and j: "0 < j" "j \<le> 200001 / 1000000" and b: "b \<le> 604800"
    and t: "t1 \<le> t2" "t1 div 10 ^ 9 = t2 div 10 ^ 9"
    and d: "apply_jitter fp (b * 10 ^ 9) (Fin j) t1 = Some d1" "apply_jitter fp (b * 10 ^ 9) (Fin j) t2 = Some d2"
  shows "t1 + int d1 \<le> t2 + int d2"
proof -
  have "t1 mod 10 ^ 9 \<le> t2 mod 10 ^ 9"
    using t by (simp add: minus_div_mult_eq_mod [symmetric])
  then have n: "subsec_nanos t1 \<le> subsec_nanos t2" by (simp add: subsec_nanos_def nat_mono)
  obtain f1 f2 where f: "jitter_factor fp j t1 = Fin f1" "jitter_factor fp j t2 = Fin f2" "0 \<le> f1"
    using jitter_factor_range [OF fp j, of t1] jitter_factor_range [OF fp j, of t2] by fastforce
  have ff: "f1 \<le> f2" using jitter_factor_mono [OF fp j(1) n f(1,2)] .
  have sec: "as_secs_f64 fp (b * 10 ^ 9) = Fin (of_nat b)" using b by (intro as_secs_whole [OF fp]) simp
  have x: "\<exists>x. rnd fp (of_nat b * g) = Fin x \<and> 0 \<le> x \<and> d = nat (round_half_even (x * 10 ^ 9))"
    if "from_secs_f64 (rnd fp (of_nat b * g)) = Some d" for g d
    using that by (cases "rnd fp (of_nat b * g)") (auto split: if_splits)
  obtain x1 where x1: "rnd fp (of_nat b * f1) = Fin x1" "d1 = nat (round_half_even (x1 * 10 ^ 9))"
    using d(1) j(1) x [of f1 d1] by (auto simp: apply_jitter_def sec [simplified] f(1))
  obtain x2 where x2: "rnd fp (of_nat b * f2) = Fin x2" "d2 = nat (round_half_even (x2 * 10 ^ 9))"
    using d(2) j(1) x [of f2 d2] by (auto simp: apply_jitter_def sec [simplified] f(2))
  have "x1 \<le> x2" using rnd_mono [OF fp _ x1(1) x2(1)] ff by (simp add: mult_left_mono)
  then have "round_half_even (x1 * 10 ^ 9) \<le> round_half_even (x2 * 10 ^ 9)"
    by (intro round_half_even_mono) simp
  then show ?thesis using x1(2) x2(2) t(1) by (simp add: nat_mono)
qed

lemma ex_jitter:
  "apply_jitter fp_exact (10 * 10 ^ 9) (Fin (1 / 5)) 500000000 = Some (10 * 10 ^ 9)"
  "apply_jitter fp_exact (10 * 10 ^ 9) (Fin (1 / 5)) 750000000 = Some (11 * 10 ^ 9)"
  "apply_jitter fp_exact (10 * 10 ^ 9) (Fin (1 / 5)) 1000000000 = Some (8 * 10 ^ 9)"
  by (simp_all add: apply_jitter_def fp_exact_def as_secs_f64_def jitter_factor_def subsec_nanos_def
      round_half_even_def)

theorem jitter_keeps_order_witness: "(500000000 :: int) + int (10 * 10 ^ 9) \<le> 750000000 + int (11 * 10 ^ 9)"
  by (rule jitter_keeps_order [OF fp_exact_ok _ _ _ _ _ ex_jitter(1,2)]) simp_all

text \<open>
  Across a second the order can flip: with the default jitter a clip that fails a
  quarter of a second later, but in the next second, is scheduled almost three seconds
  before the older one.
\<close>

theorem jitter_flips_order:
  "\<exists>t1 t2 d1 d2. t1 \<le> t2 \<and> apply_jitter fp_exact (10 * 10 ^ 9) (Fin (1 / 5)) t1 = Some d1 \<and>
     apply_jitter fp_exact (10 * 10 ^ 9) (Fin (1 / 5)) t2 = Some d2 \<and> t2 + int d2 < t1 + int d1"
  by (intro exI [of _ "750000000 :: int"] exI [of _ "1000000000 :: int"] exI [of _ "11 * 10 ^ 9 :: nat"]
      exI [of _ "8 * 10 ^ 9 :: nat"]) (use ex_jitter in simp)

section \<open>Properties of the classification\<close>

text \<open>
  How an upload response is classified, from the wire to the decision: a 2xx is never
  terminal except when its complete body does not decode; a non-2xx status is transient
  exactly for the documented codes; on the poll path no 2xx is terminal.
\<close>

theorem response_classification:
  assumes "read_and_classify rfc_date json r now = Inl err"
  shows "(classify_upload_error err = Terminal \<longleftrightarrow>
      (if is_success (resp_status r) then \<exists>m. err = UndecodableSuccess m
       else (\<exists>b ra. err = Http (resp_status r) b ra) \<and> resp_status r \<notin> {408, 425, 429, 500, 502, 503, 504})) \<and>
    (classify_poll_error err = Terminal \<longrightarrow> \<not> is_success (resp_status r))"
  using read_and_classify_outcome [where rfc_date = rfc_date and json = json and r = r and now = now] assms
  by (cases err) (auto simp: classify_poll_error_def classify_status_def is_success_def)

theorem response_classification_witness:
  "\<exists>err. read_and_classify (\<lambda>_. None) (\<lambda>_. None)
      \<lparr> resp_status = 422, resp_retry_after = None, resp_content_length = None, resp_chunks = [] \<rparr> 0 = Inl err \<and>
    classify_upload_error err = Terminal"
proof -
  let ?r = "\<lparr> resp_status = 422, resp_retry_after = None, resp_content_length = None, resp_chunks = [] \<rparr>"
  have e: "read_and_classify (\<lambda>_. None) (\<lambda>_. None) ?r 0 = Inl (Http 422 [] None)"
    by (simp add: read_and_classify_def read_capped_def classify_response_def is_success_def parse_retry_after_def)
  show ?thesis
    using response_classification [OF e] by (simp add: e is_success_def)
qed

end
