(* ===== verification/Delivery_Runner.thy ===== *)
theory Delivery_Runner
  imports Queue_Policy Retry
begin

text \<open>
  The delivery loop, \<^verbatim>\<open>crates/perchstation-core/src/delivery/runner.rs\<close>: one attempt (\<open>try_once\<close>)
  from the pick to the recorded outcome, the handling of upload errors, and the loop around
  it with its cancellation points.

  The clock is read several times per attempt; the readings are an argument (\<open>reads\<close>). A panic
  of the scheduler ends the process (the release profile aborts on panic), so it is a crash.
  Cancellation can interrupt an attempt only at its one suspension point, the upload.
\<close>

section \<open>The runner\<close>

datatype runner_error = RunnerQueue queue_error | RunnerClient client_error

record reads =
  t_pick :: instant
  t_http :: instant
  t_sched :: instant
  t_stamp :: instant

record ('b, 'u, 'c) delivery_runner =
  rn_codec :: "'b codec"
  rn_env :: "('b, 'u, 'c) http_env"
  rn_client :: "('u, 'c) perchpub_client"
  rn_display :: "client_error \<Rightarrow> string"
  rn_fp :: fp_env
  rn_lims :: chrono_limits
  rn_schedule :: backoff_schedule
  rn_cert_not_after :: instant

definition ms :: "nat \<Rightarrow> duration" where
  "ms n = n * 10 ^ 6"

definition idle_tick :: duration where
  "idle_tick = ms 50"

definition cert_expired_tick :: duration where
  "cert_expired_tick = 60 * 10 ^ 9"

definition disk_full_retry :: duration where
  "disk_full_retry = 5 * 10 ^ 9"

definition disk_full_backoff :: "duration \<Rightarrow> duration" where
  "disk_full_backoff max_delay = min disk_full_retry max_delay"

definition max_upload_bytes :: u64 where
  "max_upload_bytes = 50 * 1024 * 1024"

definition cert_is_expired :: "instant \<Rightarrow> instant \<Rightarrow> bool" where
  "cert_is_expired cert_not_after now \<longleftrightarrow> cert_not_after \<le> now"

definition store_op :: "('b, queue_error, 'a) io \<Rightarrow> ('b, runner_error, 'a) io" where
  "store_op m = map_err RunnerQueue m"

definition preflight_check :: "'b codec \<Rightarrow> path \<Rightarrow> ('b, 'e, string option) io" where
  "preflight_check cd clip =
     match_io (fs_metadata_len cd clip)
       (\<lambda>len. ret (if len = 0 then Some ''zero_length''
                   else if max_upload_bytes < len then Some ''oversize'' else None))
       (\<lambda>_. ret (Some ''unreadable''))"

section \<open>Records of an outcome\<close>

definition mark_undeliverable :: "instant \<Rightarrow> last_error \<Rightarrow> clip_queue_entry \<Rightarrow> clip_queue_entry" where
  "mark_undeliverable now le e =
     e\<lparr>entry_outcome := Some Undeliverable, delivered_at := Some now, last_err := Some le\<rparr>"

definition mark_delivered :: "instant \<Rightarrow> classify_task \<Rightarrow> clip_queue_entry \<Rightarrow> clip_queue_entry" where
  "mark_delivered now task e =
     e\<lparr>entry_outcome := Some Delivered, classify_task_id := Some (task_id task), delivered_at := Some now,
       last_classify_status := Some (task_status task), last_err := None\<rparr>"

definition mark_undecodable :: "instant \<Rightarrow> clip_queue_entry \<Rightarrow> clip_queue_entry" where
  "mark_undecodable now e =
     e\<lparr>entry_outcome := Some Delivered, classify_task_id := None, last_classify_status := Some Unknown,
       delivered_at := Some now, last_err := None\<rparr>"

definition error_status :: "client_error \<Rightarrow> u16 option" where
  "error_status err = (case err of Http status _ _ \<Rightarrow> Some status | _ \<Rightarrow> None)"

definition error_retry_after :: "client_error \<Rightarrow> duration option" where
  "error_retry_after err = (case err of Http _ _ ra \<Rightarrow> ra | _ \<Rightarrow> None)"

definition upload_last_error :: "('b, 'u, 'c) delivery_runner \<Rightarrow> client_error \<Rightarrow> last_error" where
  "upload_last_error rn err =
     \<lparr> le_kind = error_kind err, le_status = error_status err, le_message = rn_display rn err \<rparr>"

section \<open>Error handling\<close>

definition mark_delivered_undecodable ::
  "('b, 'u, 'c) delivery_runner \<Rightarrow> reads \<Rightarrow> clip_queue_entry \<Rightarrow> string \<Rightarrow> ('b, runner_error, unit) io" where
  "mark_delivered_undecodable rn ts e message =
     bind_io (store_op (transition_delivered (rn_codec rn) (mark_undecodable (t_stamp ts) e))) (\<lambda>_.
     emit (DeliveryEv (DeliveryUploadUndecodable (clip_id e) (attempts e) message)))"

definition mark_attempts_exhausted ::
  "('b, 'u, 'c) delivery_runner \<Rightarrow> reads \<Rightarrow> clip_queue_entry \<Rightarrow> last_error \<Rightarrow> ('b, runner_error, unit) io" where
  "mark_attempts_exhausted rn ts e le =
     (let wallclock_secs = (case first_attempt_at e of None \<Rightarrow> 0
                            | Some first \<Rightarrow> max 0 ((t_stamp ts - first) div ns_per_sec)) in
      bind_io (store_op (transition_delivered (rn_codec rn) (mark_undeliverable (t_stamp ts) le e))) (\<lambda>_.
      emit (DeliveryEv (DeliveryAttemptsExhausted (clip_id e) (attempts e) wallclock_secs
        (le_kind le) (le_status le) (le_message le)))))"

definition mark_terminal ::
  "('b, 'u, 'c) delivery_runner \<Rightarrow> reads \<Rightarrow> clip_queue_entry \<Rightarrow> last_error \<Rightarrow> ('b, runner_error, unit) io" where
  "mark_terminal rn ts e le =
     bind_io (store_op (transition_delivered (rn_codec rn) (mark_undeliverable (t_stamp ts) le e))) (\<lambda>_.
     emit (DeliveryEv (DeliveryUploadTerminal (clip_id e) (attempts e) (le_kind le) (le_status le) (le_message le))))"

definition handle_upload_error ::
  "('b, 'u, 'c) delivery_runner \<Rightarrow> reads \<Rightarrow> clip_queue_entry \<Rightarrow> client_error \<Rightarrow> ('b, runner_error, unit) io" where
  "handle_upload_error rn ts e err =
     (case err of
        UndecodableSuccess message \<Rightarrow> mark_delivered_undecodable rn ts e message
      | _ \<Rightarrow>
          (let le = upload_last_error rn err in
           case classify_upload_error err of
             Transient \<Rightarrow>
               (case schedule (rn_fp rn) (rn_lims rn) (rn_schedule rn) (t_sched ts) (attempts e)
                       (first_attempt_at e) (error_retry_after err) of
                  None \<Rightarrow> crash_now
                | Some (Retry next_after) \<Rightarrow>
                    bind_io (store_op (transition_back_to_pending (rn_codec rn)
                      (e\<lparr>next_attempt_after := Some next_after, last_err := Some le\<rparr>))) (\<lambda>_.
                    emit (DeliveryEv (DeliveryUploadTransient (clip_id e) (attempts e) (le_kind le) (le_status le) next_after)))
                | Some Exhausted \<Rightarrow> mark_attempts_exhausted rn ts e le)
           | Terminal \<Rightarrow> mark_terminal rn ts e le))"

section \<open>One attempt\<close>

datatype attempt_result = Progress | Idle | Interrupted

definition skip_event :: "string \<Rightarrow> string \<Rightarrow> event" where
  "skip_event cid reason =
     QueueEv (if reason = ''oversize'' then QueueOversizeSkipped cid reason else QueueZeroLengthSkipped cid reason)"

definition preflight_error :: "string \<Rightarrow> string \<Rightarrow> last_error" where
  "preflight_error cid reason =
     \<lparr> le_kind = reason, le_status = None, le_message = ''pre-flight '' @ reason @ '' for '' @ cid \<rparr>"

definition upload_and_record ::
  "('b, 'u, 'c) delivery_runner \<Rightarrow> reads \<Rightarrow> bool \<Rightarrow> clip_queue_entry \<Rightarrow> ('b, runner_error, attempt_result) io" where
  "upload_and_record rn ts cancelled e =
     (let cid = clip_id e; mp4_path = media_at InflightDir cid in
      bind_io (preflight_check (rn_codec rn) mp4_path) (\<lambda>pre.
      case pre of
        Some reason \<Rightarrow>
          bind_io (emit (skip_event cid reason)) (\<lambda>_.
          bind_io (store_op (transition_delivered (rn_codec rn)
            (mark_undeliverable (t_stamp ts) (preflight_error cid reason) e))) (\<lambda>_. ret Progress))
      | None \<Rightarrow>
          if cancelled then ret Interrupted
          else
            match_io (upload_clip (rn_env rn) (rn_client rn) mp4_path (t_http ts))
              (\<lambda>task.
                 bind_io (store_op (transition_delivered (rn_codec rn) (mark_delivered (t_stamp ts) task e))) (\<lambda>_.
                 bind_io (emit (DeliveryEv (DeliveryUploadSucceeded cid (task_id task) (attempts e)))) (\<lambda>_.
                 ret Progress)))
              (\<lambda>err. bind_io (handle_upload_error rn ts e err) (\<lambda>_. ret Progress))))"

definition try_once ::
  "('b, 'u, 'c) delivery_runner \<Rightarrow> reads \<Rightarrow> bool \<Rightarrow> ('b, runner_error, attempt_result) io" where
  "try_once rn ts cancelled =
     bind_io (store_op (pick_oldest_pending (rn_codec rn) (t_pick ts))) (\<lambda>picked.
     case picked of
       None \<Rightarrow> ret Idle
     | Some e0 \<Rightarrow>
         match_io (transition_inflight (rn_codec rn) e0 (t_pick ts))
           (\<lambda>e. bind_io (emit (DeliveryEv (DeliveryAttemptStarted (clip_id e) (attempts e)))) (\<lambda>_.
                upload_and_record rn ts cancelled e))
           (\<lambda>err. case err of
              MissingMedia cid \<Rightarrow>
                bind_io (emit (QueueEv (QueueMissingMedia cid))) (\<lambda>_.
                bind_io (store_op (quarantine_orphan cid)) (\<lambda>_. ret Progress))
            | _ \<Rightarrow> throw (RunnerQueue err)))"

section \<open>The loop\<close>

datatype loop_next = Continue | Sleep duration | Stop

text \<open>
  One iteration: whether shutdown was already requested, whether it arrives during the
  upload, and the clock. The flag says whether the expiry of the certificate was logged.
\<close>

definition run_iteration ::
  "('b, 'u, 'c) delivery_runner \<Rightarrow> bool \<Rightarrow> instant \<Rightarrow> reads \<Rightarrow> bool \<Rightarrow> bool \<Rightarrow> ('b, unit, loop_next \<times> bool) io" where
  "run_iteration rn logged now ts shutdown interrupted =
     (if shutdown then ret (Stop, logged)
      else if cert_is_expired (rn_cert_not_after rn) now then
        bind_io (if logged then ret () else emit (DeliveryEv (DeliveryCertExpired (rn_cert_not_after rn)))) (\<lambda>_.
        ret (Sleep cert_expired_tick, True))
      else
        match_io (try_once rn ts interrupted)
          (\<lambda>res. ret (case res of Progress \<Rightarrow> Continue | Idle \<Rightarrow> Sleep idle_tick | Interrupted \<Rightarrow> Stop, logged))
          (\<lambda>err. case err of
             RunnerQueue (DiskFull p) \<Rightarrow>
               bind_io (emit (QueueEv (QueueDiskFull p))) (\<lambda>_.
               ret (Sleep (disk_full_backoff (max_attempt_delay (rn_schedule rn))), logged))
           | _ \<Rightarrow>
               bind_io (emit (Warn ''delivery iteration aborted on internal queue error'')) (\<lambda>_.
               ret (Sleep idle_tick, logged))))"

record iteration =
  it_now :: instant
  it_reads :: reads
  it_shutdown :: bool
  it_interrupted :: bool
  it_sleep_cancelled :: bool

text \<open>
  The loop over a finite schedule of iterations: it stops when an iteration says so or when
  a sleep is cancelled; otherwise it goes on.
\<close>

fun run_runner :: "('b, 'u, 'c) delivery_runner \<Rightarrow> bool \<Rightarrow> iteration list \<Rightarrow> ('b, unit, bool) io" where
  "run_runner rn logged [] = ret logged"
| "run_runner rn logged (i # is) =
     bind_io (run_iteration rn logged (it_now i) (it_reads i) (it_shutdown i) (it_interrupted i)) (\<lambda>(next, logged').
     case next of
       Stop \<Rightarrow> ret logged'
     | Continue \<Rightarrow> run_runner rn logged' is
     | Sleep _ \<Rightarrow> if it_sleep_cancelled i then ret logged' else run_runner rn logged' is)"

section \<open>Structure of an attempt\<close>

lemma uniform_runner [simp]:
  "uniform m \<Longrightarrow> uniform (store_op m)" "uniform (preflight_check cd p)" "uniform (lift_sum x)"
  by (auto simp: store_op_def preflight_check_def lift_sum_def split: sum.split)

lemma uniform_upload [simp]: "uniform (upload_clip env cl p now)"
  by (simp add: upload_clip_def)

lemma uniform_marks [simp]:
  "uniform (mark_delivered_undecodable rn ts e msg)" "uniform (mark_attempts_exhausted rn ts e le)"
  "uniform (mark_terminal rn ts e le)"
  by (simp_all add: mark_delivered_undecodable_def mark_attempts_exhausted_def mark_terminal_def Let_def)

lemma uniform_handle [simp]: "uniform (handle_upload_error rn ts e err)"
  by (auto simp: handle_upload_error_def Let_def
      split: client_error.split failure_kind.split option.split next_action.split)

lemma uniform_attempt [simp]: "uniform (upload_and_record rn ts c e)"
  by (auto simp: upload_and_record_def Let_def split: option.split)

lemma uniform_try_once [simp]: "uniform (try_once rn ts c)"
  by (auto simp: try_once_def split: option.split queue_error.split)

lemma footprint_runner [simp]:
  "footprint P m \<Longrightarrow> footprint P (store_op m)" "footprint P (preflight_check cd p)" "footprint P (lift_sum x)"
  by (auto simp: store_op_def preflight_check_def lift_sum_def split: sum.split)

lemma footprint_upload [simp]: "footprint P (upload_clip env cl p now)"
  by (simp add: upload_clip_def)

lemmas clip_footprints [simp] =
  inflight_op.own_files pending_op.own_files delivered_op.own_files orphan_op.own_files

lemma mark_clip_id [simp]:
  "clip_id (mark_undeliverable now le e) = clip_id e" "clip_id (mark_delivered now task e) = clip_id e"
  "clip_id (mark_undecodable now e) = clip_id e"
  by (simp_all add: mark_undeliverable_def mark_delivered_def mark_undecodable_def)

lemma mark_terminals [simp]:
  "is_terminal (mark_undeliverable now le e)" "is_terminal (mark_delivered now task e)"
  "is_terminal (mark_undecodable now e)"
  by (simp_all add: mark_undeliverable_def mark_delivered_def mark_undecodable_def is_terminal_def)

lemma footprint_delivered [simp]:
  "clip_id e' = cid \<Longrightarrow> footprint (clip_paths cid) (transition_delivered cd e')"
  "clip_id e' = cid \<Longrightarrow> footprint (clip_paths cid) (transition_back_to_pending cd e')"
  by auto

lemma footprint_handle [simp]: "footprint (clip_paths (clip_id e)) (handle_upload_error rn ts e err)"
  by (auto simp: handle_upload_error_def Let_def mark_delivered_undecodable_def mark_attempts_exhausted_def
      mark_terminal_def split: client_error.split failure_kind.split option.split next_action.split)

lemma footprint_attempt [simp]: "footprint (clip_paths (clip_id e)) (upload_and_record rn ts c e)"
  by (auto simp: upload_and_record_def Let_def split: option.split)

section \<open>An attempt under faults\<close>

text \<open>
  The recording of a clip is safe: its bytes are in exactly one place, or a terminal record
  of the clip is on disk.
\<close>

definition recording_safe :: "'b codec \<Rightarrow> string \<Rightarrow> 'b \<Rightarrow> 'b world \<Rightarrow> bool" where
  "recording_safe cd cid m w \<longleftrightarrow> media_once cid m w \<or>
     (\<exists>e. clip_id e = cid \<and> is_terminal e \<and>
        (holds_entry cd w (sidecar_at InflightDir cid) e \<or> holds_entry cd w (sidecar_at DeliveredDir cid) e))"

lemma safe_phases [simp]:
  "phase_of cd cid w = Waiting e m \<Longrightarrow> recording_safe cd cid m w"
  "phase_of cd cid w = Flying e m \<Longrightarrow> recording_safe cd cid m w"
  "phase_of cd cid w = Done e \<Longrightarrow> clip_id e = cid \<Longrightarrow> is_terminal e \<Longrightarrow> recording_safe cd cid m w"
  by (auto simp: recording_safe_def phase_simps media_once_def holds_entry_def)

lemma safe_journal [simp]:
  "recording_safe cd cid m (w\<lparr>journal := j\<rparr>) = recording_safe cd cid m w"
  "phase_of cd cid (w\<lparr>journal := j\<rparr>) = phase_of cd cid w"
  by (simp_all add: recording_safe_def media_once_def holds_entry_def phase_of_def)

lemma wlp_store_op [wlp_simps]: "uniform m \<Longrightarrow> wlp (store_op m) Q E C = wlp m Q (\<lambda>e. E (RunnerQueue e)) C"
  by (simp add: store_op_def wlp_simps)

lemma wlp_lift_sum [wlp_simps]: "wlp (lift_sum x) Q E C = (case x of Inl e \<Rightarrow> E e | Inr v \<Rightarrow> Q v)"
  by (simp add: lift_sum_def wlp_simps split: sum.split)

text \<open>What the pre-flight check says of a file of a given length.\<close>

definition preflight_verdict :: "u64 \<Rightarrow> string option" where
  "preflight_verdict len =
     (if len = 0 then Some ''zero_length'' else if max_upload_bytes < len then Some ''oversize'' else None)"

lemma wlp_preflight [wlp_simps]:
  "wlp (preflight_check cd p) Q E C w \<longleftrightarrow>
     C w \<and> Q (Some ''unreadable'') w \<and>
     (case look w p of None \<Rightarrow> True | Some b \<Rightarrow> Q (preflight_verdict (blen cd b)) w)"
  by (auto simp: preflight_check_def wlp_match wlp_simps preflight_verdict_def split: option.splits)

lemma wlp_upload:
  "(\<And>t. Q t w) \<Longrightarrow> (\<And>e. E e w) \<Longrightarrow> C w \<Longrightarrow> wlp (upload_clip env cl p now) Q E C w"
  by (auto simp: upload_clip_def wlp_simps split: sum.split option.split)

lemma back_to_pending_safe:
  assumes "codec_ok cd" "phase_of cd (clip_id e) w = Flying e0 m"
  shows "wlp (transition_back_to_pending cd e) (\<lambda>_ w'. recording_safe cd (clip_id e) m w')
     (\<lambda>_ w'. recording_safe cd (clip_id e) m w') (\<lambda>w'. recording_safe cd (clip_id e) m w') w"
  using assms(2) codec_enc [OF assms(1), of "e"] unfolding phase_simps
  by (auto simp: transition_back_to_pending_def Let_def wlp_simps media_once_def recording_safe_def split: option.splits)

lemma delivered_safe:
  assumes "codec_ok cd" "clip_id e \<noteq> []" "phase_of cd (clip_id e) w = Flying e0 m" "is_terminal e"
  shows "wlp (transition_delivered cd e) (\<lambda>_ w'. recording_safe cd (clip_id e) m w')
     (\<lambda>_ w'. recording_safe cd (clip_id e) m w') (\<lambda>w'. recording_safe cd (clip_id e) m w') w"
  using assms(4)
  by (intro wlp_mono [OF transition_delivered_interrupted [OF assms(1,3,2)]])
    (auto simp: recording_safe_def phase_of_Done phase_of_Flying media_once_def holds_entry_def)

lemma handle_upload_error_safe:
  assumes "codec_ok (rn_codec rn)" "clip_id e \<noteq> []" "phase_of (rn_codec rn) (clip_id e) w = Flying e0 m"
  defines "S \<equiv> recording_safe (rn_codec rn) (clip_id e) m"
  shows "wlp (handle_upload_error rn ts e err) (\<lambda>_. S) (\<lambda>_. S) S w"
proof -
  let ?cd = "rn_codec rn"
  have hand_back: "wlp (transition_back_to_pending ?cd (e\<lparr>next_attempt_after := t, last_err := le\<rparr>))
      (\<lambda>_. S) (\<lambda>_. S) S w" for t le
    using back_to_pending_safe [OF assms(1), of "e\<lparr>next_attempt_after := t, last_err := le\<rparr>"] assms(3)
    by (simp add: S_def)
  have done_ok: "wlp (transition_delivered ?cd u) (\<lambda>_. S) (\<lambda>_. S) S w"
    if "clip_id u = clip_id e" "is_terminal u" for u
    using delivered_safe [OF assms(1), of u w e0 m] assms(2,3) that by (simp add: S_def)
  have journal: "S (v\<lparr>journal := j\<rparr>) = S v" for v j by (simp add: S_def)
  show ?thesis
    using assms(3)
    by (auto simp: handle_upload_error_def Let_def mark_delivered_undecodable_def mark_attempts_exhausted_def
        mark_terminal_def wlp_simps journal hand_back done_ok S_def [symmetric] cong: if_cong
        split: client_error.split failure_kind.split option.split next_action.split)
      (auto simp: S_def)
qed

lemma upload_and_record_safe:
  assumes "codec_ok (rn_codec rn)" "clip_id e \<noteq> []" "phase_of (rn_codec rn) (clip_id e) w = Flying e0 m"
  defines "S \<equiv> recording_safe (rn_codec rn) (clip_id e) m"
  shows "wlp (upload_and_record rn ts c e) (\<lambda>_. S) (\<lambda>_. S) S w"
proof -
  let ?cd = "rn_codec rn"
  have done_ok: "wlp (transition_delivered ?cd u) (\<lambda>_. S) (\<lambda>_. S) S (w\<lparr>journal := j\<rparr>)"
    if "clip_id u = clip_id e" "is_terminal u" for u j
    using delivered_safe [OF assms(1), of u "w\<lparr>journal := j\<rparr>" e0 m] assms(2,3) that by (simp add: S_def)
  have done_ok': "wlp (transition_delivered ?cd u) (\<lambda>_. S) (\<lambda>_. S) S w"
    if "clip_id u = clip_id e" "is_terminal u" for u
    using done_ok [OF that, of "journal w"] by simp
  have journal: "S (v\<lparr>journal := j\<rparr>) = S v" for v j by (simp add: S_def)
  have now_ok: "S w" using assms(3) by (simp add: S_def)
  have handled: "wlp (handle_upload_error rn ts e err) (\<lambda>_. S) (\<lambda>_. S) S w" for err
    using handle_upload_error_safe [OF assms(1,2,3)] by (simp add: S_def)
  have upload: "wlp (match_io (upload_clip (rn_env rn) (rn_client rn) p (t_http ts))
      (\<lambda>task. bind_io (store_op (transition_delivered ?cd (mark_delivered (t_stamp ts) task e))) (\<lambda>_.
         bind_io (emit (DeliveryEv (DeliveryUploadSucceeded (clip_id e) (task_id task) (attempts e)))) (\<lambda>_. ret Progress)))
      (\<lambda>err. bind_io (handle_upload_error rn ts e err) (\<lambda>_. ret Progress))) (\<lambda>_. S) (\<lambda>_. S) S w" for p
    by (simp add: wlp_match) (rule wlp_upload; simp add: wlp_simps journal done_ok' handled now_ok)
  show ?thesis
    by (auto simp: upload_and_record_def Let_def wlp_simps journal done_ok now_ok upload split: option.split)
qed

subsection \<open>The pick leaves readable clips alone\<close>

text \<open>
  The files of one clip are the same in two worlds. The recording and the sidecars of a clip
  determine its phase.
\<close>

definition same_clip :: "string \<Rightarrow> 'b world \<Rightarrow> 'b world \<Rightarrow> bool" where
  "same_clip cid w w' \<longleftrightarrow>
     (\<forall>d. look w' (media_at d cid) = look w (media_at d cid) \<and> look w' (sidecar_at d cid) = look w (sidecar_at d cid))"

lemma same_clip_phase: "same_clip cid w w' \<Longrightarrow> phase_of cd cid w' = phase_of cd cid w"
  by (simp add: same_clip_def phase_of_def)

lemma same_clip_safe: "same_clip cid w w' \<Longrightarrow> recording_safe cd cid m w' = recording_safe cd cid m w"
  by (simp add: same_clip_def recording_safe_def media_once_def holds_entry_def)

lemma same_clip_footprint:
  "footprint (clip_paths cid') m \<Longrightarrow> cid \<noteq> cid' \<Longrightarrow> m w fs = (r, w', fs') \<Longrightarrow> same_clip cid w w'"
  using footprintD [of "clip_paths cid'" m w fs r w' fs'] by (simp add: same_clip_def)

text \<open>What the scan does to \<open>pending/\<close>: sidecars disappear, none is written.\<close>

definition scanned :: "string \<Rightarrow> 'b world \<Rightarrow> 'b world \<Rightarrow> bool" where
  "scanned cid w w' \<longleftrightarrow> same_clip cid w w' \<and>
     (\<forall>n. has_ext ''json'' n \<longrightarrow> look w' (PendingDir, n) \<in> {None, look w (PendingDir, n)})"

lemma scanned_refl [simp]: "scanned cid w w"
  by (simp add: scanned_def same_clip_def)

lemma scanned_journal [simp]:
  "scanned cid w (w'\<lparr>journal := j\<rparr>) = scanned cid w w'" "scanned cid (w\<lparr>journal := j\<rparr>) w' = scanned cid w w'"
  by (simp_all add: scanned_def same_clip_def)

lemma scanned_trans: "scanned cid w w1 \<Longrightarrow> scanned cid w1 w2 \<Longrightarrow> scanned cid w w2"
  by (fastforce simp: scanned_def same_clip_def)

lemma quarantine_scanned:
  assumes "has_ext ''json'' n" "n \<noteq> sidecar_name cid"
  shows "wlp (quarantine_corrupt (PendingDir, n)) (\<lambda>_. scanned cid w) (\<lambda>_. scanned cid w) (scanned cid w) w"
proof -
  obtain c where c: "c \<noteq> []" "n = sidecar_name c" using assms(1) by (auto simp: has_ext_json_iff)
  then have "c \<noteq> cid" using assms(2) by auto
  with c show ?thesis
    by (auto simp: quarantine_corrupt_def Let_def wlp_simps scanned_def same_clip_def has_ext_json_iff split: option.split)
qed

lemma pick_loop_scanned:
  assumes "\<And>n. n \<in> set ns \<Longrightarrow> has_ext ''json'' n"
    and "holds_entry cd w0 (sidecar_at PendingDir cid) e" "scanned cid w0 w"
  shows "wlp (pick_loop cd now ns) (\<lambda>_. scanned cid w0) (\<lambda>_. scanned cid w0) (scanned cid w0) w"
  using assms
proof (induction ns arbitrary: w)
  case Nil
  then show ?case by (simp add: wlp_simps)
next
  case (Cons n ns)
  have IH: "wlp (pick_loop cd now ns) (\<lambda>_. scanned cid w0) (\<lambda>_. scanned cid w0) (scanned cid w0) w1"
    if "scanned cid w0 w1" for w1
    using Cons that by simp
  have own: False if "look w (sidecar_at PendingDir cid) = Some b" "dec cd b = None" for b
    using that Cons.prems(2,3) by (auto simp: scanned_def same_clip_def holds_entry_def)
  have quarantined: "wlp (quarantine_corrupt (PendingDir, n))
      (\<lambda>_ w1. wlp (pick_loop cd now ns) (\<lambda>_. scanned cid w0) (\<lambda>_. scanned cid w0) (scanned cid w0) w1)
      (\<lambda>_ w1. wlp (pick_loop cd now ns) (\<lambda>_. scanned cid w0) (\<lambda>_. scanned cid w0) (scanned cid w0)
         (w1\<lparr>journal := journal w1 @ [Warn msg]\<rparr>)) (scanned cid w0) (w\<lparr>journal := j\<rparr>)"
    if "n \<noteq> sidecar_name cid" for j msg
    by (rule wlp_mono [OF quarantine_scanned [OF _ that]])
      (use Cons.prems in \<open>auto intro!: IH intro: scanned_trans\<close>)
  show ?case
    unfolding pick_loop.simps
    by (auto simp: wlp_match wlp_simps IH Cons.prems(3) intro!: quarantined dest: own
        split: option.splits queue_error.split)
qed

lemma pick_scanned:
  assumes "holds_entry cd w (sidecar_at PendingDir cid) e"
  shows "wlp (pick_oldest_pending cd now) (\<lambda>r w'. scanned cid w w' \<and> pick_result_ok cd now r w')
     (\<lambda>_ w'. scanned cid w w') (scanned cid w) w"
proof -
  have loop: "wlp (pick_loop cd now ns) (\<lambda>r w'. scanned cid w w' \<and> pick_result_ok cd now r w')
      (\<lambda>_ w'. scanned cid w w') (scanned cid w) w" if "\<And>n. n \<in> set ns \<Longrightarrow> has_ext ''json'' n" for ns
    by (rule wlp_mono [OF wlp_conj [OF pick_loop_scanned [OF _ assms scanned_refl] pick_loop_wlp]]) (auto dest: that)
  show ?thesis
    by (simp add: pick_oldest_pending_def wlp_simps) (rule wlp_mono [OF list_sidecars_wlp], auto intro: loop)
qed

lemma foreign_clip_safe:
  assumes "footprint (clip_paths cid') m" "cid \<noteq> cid'" "recording_safe cd cid x w"
  shows "wlp m (\<lambda>_. recording_safe cd cid x) (\<lambda>_. recording_safe cd cid x) (recording_safe cd cid x) w"
  using same_clip_safe [OF same_clip_footprint [OF assms(1,2)]] assms(3)
  unfolding wlp_def by (fastforce split: prod.splits res.splits)

lemma missing_media_own: "wlp (transition_inflight cd e now) (\<lambda>u _. clip_id u = clip_id e)
    (\<lambda>err _. \<forall>c. err = MissingMedia c \<longrightarrow> c = clip_id e) (\<lambda>_. True) w"
  by (auto simp: transition_inflight_def Let_def wlp_simps wlp_match split: option.splits)

text \<open>
  The pending directory is filed when a readable sidecar has the name its record says.
\<close>

definition pending_filed :: "'b codec \<Rightarrow> 'b world \<Rightarrow> bool" where
  "pending_filed cd w \<longleftrightarrow>
     (\<forall>n e. has_ext ''json'' n \<longrightarrow> holds_entry cd w (PendingDir, n) e \<longrightarrow> n = sidecar_name (clip_id e))"

lemma picked_filed:
  assumes "pending_filed cd w" "scanned cid w w1" "pick_result_ok cd now (Some e0) w1"
  shows "holds_entry cd w1 (sidecar_at PendingDir (clip_id e0)) e0"
proof -
  obtain n where n: "has_ext ''json'' n" "holds_entry cd w1 (PendingDir, n) e0"
    using assms(3) by (auto simp: pick_result_ok_def eligible_def)
  then have "look w1 (PendingDir, n) = look w (PendingDir, n)"
    using assms(2) by (auto simp: scanned_def holds_entry_def)
  then have "n = sidecar_name (clip_id e0)"
    using assms(1) n by (auto simp: pending_filed_def holds_entry_def)
  then show ?thesis using n by simp
qed

lemma claim_and_upload_safe:
  assumes "codec_ok (rn_codec rn)" "cid \<noteq> []" "phase_of (rn_codec rn) cid w = Waiting e m"
    and "holds_entry (rn_codec rn) w (sidecar_at PendingDir (clip_id e0)) e0"
  defines "S \<equiv> recording_safe (rn_codec rn) cid m"
  shows "wlp (transition_inflight (rn_codec rn) e0 now)
     (\<lambda>u. wlp (bind_io (emit (ev u)) (\<lambda>_. upload_and_record rn ts c u)) (\<lambda>_. S) (\<lambda>_. S) S)
     (\<lambda>err w'. S w' \<and> (\<forall>k. err = MissingMedia k \<longrightarrow> k \<noteq> cid)) S w"
proof (cases "clip_id e0 = cid")
  case True
  have inflight: "wlp (transition_inflight (rn_codec rn) e0 now)
      (\<lambda>u w'. u = mark_attempt now e0 \<and> phase_of (rn_codec rn) cid w' = Flying u m)
      (\<lambda>err w'. media_once cid m w' \<and> err \<noteq> MissingMedia cid) (media_once cid m) w"
    using transition_inflight_wlp [OF assms(1), of e0 w e m now] assms(3) True by simp
  show ?thesis
  proof (rule wlp_mono [OF inflight])
    fix u w' assume u: "u = mark_attempt now e0 \<and> phase_of (rn_codec rn) cid w' = Flying u m"
    then show "wlp (bind_io (emit (ev u)) (\<lambda>_. upload_and_record rn ts c u)) (\<lambda>_. S) (\<lambda>_. S) S w'"
      using upload_and_record_safe [OF assms(1), of u "w'\<lparr>journal := journal w' @ [ev u]\<rparr>" u m ts c] assms(2) True
      by (simp add: wlp_simps S_def)
  qed (auto simp: S_def recording_safe_def)
next
  case False
  have safe: "S w" using assms(3) by (simp add: S_def)
  have rest: "wlp (bind_io (emit (ev u)) (\<lambda>_. upload_and_record rn ts c u)) (\<lambda>_. S) (\<lambda>_. S) S w'"
    if "S w'" "clip_id u = clip_id e0" for u w'
  proof -
    have "footprint (clip_paths (clip_id u)) (bind_io (emit (ev u)) (\<lambda>_. upload_and_record rn ts c u))" by simp
    then show ?thesis
      using foreign_clip_safe [of "clip_id u" _ cid "rn_codec rn" m w'] that False unfolding S_def by metis
  qed
  have claim: "wlp (transition_inflight (rn_codec rn) e0 now) (\<lambda>_. S) (\<lambda>_. S) S w"
    using foreign_clip_safe [OF inflight_op.own_files False [symmetric] safe [unfolded S_def]] by (simp only: S_def)
  show ?thesis
    by (rule wlp_mono [OF wlp_conj [OF claim missing_media_own]]) (use False in \<open>auto intro!: rest\<close>)
qed

section \<open>An attempt without faults\<close>

lemma run_claim:
  assumes "codec_ok cd" "phase_of cd (clip_id e) w = Waiting e0 m"
  shows "\<exists>w'. transition_inflight cd e now w [] = (Ok (mark_attempt now e), w', []) \<and>
    phase_of cd (clip_id e) w' = Flying (mark_attempt now e) m"
  using assms(2) codec_enc [OF assms(1), of "mark_attempt now e"] unfolding phase_simps
  by (auto simp: transition_inflight_def Let_def run_simps)

lemma run_complete:
  assumes "codec_ok cd" "phase_of cd (clip_id e) w = Flying e0 m"
  shows "\<exists>w'. transition_delivered cd e w [] = (Ok (), w', []) \<and> phase_of cd (clip_id e) w' = Done e"
  using assms(2) codec_enc [OF assms(1), of e] unfolding phase_simps
  by (auto simp: transition_delivered_def Let_def run_simps)

lemma run_hand_back:
  assumes "codec_ok cd" "phase_of cd (clip_id e) w = Flying e0 m"
  shows "\<exists>w'. transition_back_to_pending cd e w [] = (Ok (), w', []) \<and> phase_of cd (clip_id e) w' = Waiting e m"
  using assms(2) codec_enc [OF assms(1), of e] unfolding phase_simps
  by (auto simp: transition_back_to_pending_def Let_def run_simps)

text \<open>The answer to an upload of given bytes when the recording can be read.\<close>

definition upload_answer ::
  "('b, 'u, 'c) delivery_runner \<Rightarrow> instant \<Rightarrow> 'b \<Rightarrow> client_error + classify_task" where
  "upload_answer rn now m =
     (case endpoint (url_env (rn_env rn)) (rn_client rn) ''/api/v1/upload/'' of
        Inl err \<Rightarrow> Inl err
      | Inr u \<Rightarrow>
          (case check_authority (url_env (rn_env rn)) (rn_client rn) u of
             Inl err \<Rightarrow> Inl err
           | Inr _ \<Rightarrow> send_request (rn_env rn) (rn_client rn) ''POST'' u (Some m) now))"

text \<open>
  The specification of an attempt on the abstract life of a clip: what becomes of a clip
  that waits under the record \<open>e\<close> with the recording \<open>m\<close>. \<open>None\<close>: the process dies.
\<close>

definition attempt_spec ::
  "('b, 'u, 'c) delivery_runner \<Rightarrow> reads \<Rightarrow> clip_queue_entry \<Rightarrow> 'b \<Rightarrow> 'b phase option" where
  "attempt_spec rn ts e m =
     (let u = mark_attempt (t_pick ts) e;
          refused = (\<lambda>le. Some (Done (mark_undeliverable (t_stamp ts) le u))) in
      case preflight_verdict (blen (rn_codec rn) m) of
        Some reason \<Rightarrow> refused (preflight_error (clip_id e) reason)
      | None \<Rightarrow>
          (case upload_answer rn (t_http ts) m of
             Inr task \<Rightarrow> Some (Done (mark_delivered (t_stamp ts) task u))
           | Inl err \<Rightarrow>
               if \<exists>msg. err = UndecodableSuccess msg then Some (Done (mark_undecodable (t_stamp ts) u))
               else if classify_upload_error err = Terminal then refused (upload_last_error rn err)
               else map_option (\<lambda>a. case a of
                      Retry t \<Rightarrow> Waiting (u\<lparr>next_attempt_after := Some t, last_err := Some (upload_last_error rn err)\<rparr>) m
                    | Exhausted \<Rightarrow> Done (mark_undeliverable (t_stamp ts) (upload_last_error rn err) u))
                    (schedule (rn_fp rn) (rn_lims rn) (rn_schedule rn) (t_sched ts) (attempts u)
                       (first_attempt_at u) (error_retry_after err))))"

lemma run_store_op [run_simps]:
  "store_op m w fs =
     (case m w fs of (Ok x, w', fs') \<Rightarrow> (Ok x, w', fs') | (Err e, w', fs') \<Rightarrow> (Err (RunnerQueue e), w', fs')
      | (Crashed, w', fs') \<Rightarrow> (Crashed, w', fs'))"
  by (simp add: store_op_def run_simps)

lemma run_lift_sum [run_simps]:
  "lift_sum x w fs = (case x of Inl e \<Rightarrow> (Err e, w, fs) | Inr v \<Rightarrow> (Ok v, w, fs))"
  by (simp add: lift_sum_def run_simps split: sum.split)

lemma run_preflight [run_simps]:
  "look w p = Some b \<Longrightarrow> preflight_check cd p w [] = (Ok (preflight_verdict (blen cd b)), w, [])"
  by (simp add: preflight_check_def preflight_verdict_def run_simps)

lemma run_upload [run_simps]:
  assumes "look w p = Some m"
  shows "upload_clip (rn_env rn) (rn_client rn) p now w [] =
    (case upload_answer rn now m of Inl e \<Rightarrow> (Err e, w, []) | Inr t \<Rightarrow> (Ok t, w, []))"
  by (simp add: upload_clip_def upload_answer_def run_simps assms split: sum.split)

text \<open>One run of an error handler or of a record, summarised on the phase of the clip.\<close>

definition ends_in ::
  "'b codec \<Rightarrow> string \<Rightarrow> 'b phase option \<Rightarrow> ('e, 'a) res \<times> 'b world \<times> 'b fault list \<Rightarrow> bool" where
  "ends_in cd cid ph out = (case out of (r, w', fs') \<Rightarrow> fs' = [] \<and>
     (case ph of None \<Rightarrow> r = Crashed | Some p \<Rightarrow> (\<exists>x. r = Ok x) \<and> phase_of cd cid w' = p))"

lemma record_ends_in:
  assumes "codec_ok cd" "phase_of cd cid w = Flying e0 m" "clip_id u = cid"
  shows "ends_in cd cid (Some (Done u)) (bind_io (store_op (transition_delivered cd u)) (\<lambda>_. emit ev) w [])"
    "ends_in cd cid (Some (Waiting u m)) (bind_io (store_op (transition_back_to_pending cd u)) (\<lambda>_. emit ev) w [])"
  using run_complete [OF assms(1), of u w] run_hand_back [OF assms(1), of u w] assms(2,3)
  by (auto simp: ends_in_def run_simps)

lemma handle_ends_in:
  assumes "codec_ok (rn_codec rn)" "phase_of (rn_codec rn) (clip_id u) w = Flying e0 m"
  shows "ends_in (rn_codec rn) (clip_id u)
     (if \<exists>msg. err = UndecodableSuccess msg then Some (Done (mark_undecodable (t_stamp ts) u))
      else if classify_upload_error err = Terminal then Some (Done (mark_undeliverable (t_stamp ts) (upload_last_error rn err) u))
      else map_option (\<lambda>a. case a of
             Retry t \<Rightarrow> Waiting (u\<lparr>next_attempt_after := Some t, last_err := Some (upload_last_error rn err)\<rparr>) m
           | Exhausted \<Rightarrow> Done (mark_undeliverable (t_stamp ts) (upload_last_error rn err) u))
           (schedule (rn_fp rn) (rn_lims rn) (rn_schedule rn) (t_sched ts) (attempts u)
              (first_attempt_at u) (error_retry_after err)))
     (handle_upload_error rn ts u err w [])"
proof -
  note ends = record_ends_in [OF assms]
  have crash: "ends_in (rn_codec rn) (clip_id u) None (crash_now w [])" by (simp add: ends_in_def run_simps)
  show ?thesis
    unfolding handle_upload_error_def mark_delivered_undecodable_def mark_attempts_exhausted_def mark_terminal_def Let_def
    by (auto simp: ends crash split: client_error.split failure_kind.split option.split next_action.split)
qed

lemma ends_in_then:
  "ends_in cd cid ph (m w fs) \<Longrightarrow> ends_in cd cid ph (bind_io m (\<lambda>_. ret y) w fs)"
  by (auto simp: ends_in_def run_simps split: option.splits prod.splits)

lemma attempt_ends_in:
  assumes "codec_ok (rn_codec rn)" "phase_of (rn_codec rn) (clip_id e) w = Flying e0 m"
  shows "ends_in (rn_codec rn) (clip_id e) (attempt_spec rn ts e m)
     (upload_and_record rn ts False (mark_attempt (t_pick ts) e) w [])"
proof -
  let ?cd = "rn_codec rn" and ?u = "mark_attempt (t_pick ts) e"
  have media: "look w (media_at InflightDir (clip_id e)) = Some m"
    using assms(2) by (simp add: phase_of_Flying)
  have ph: "phase_of ?cd (clip_id ?u) w = Flying e0 m" using assms(2) by simp
  have skip: "ends_in ?cd (clip_id e) (Some (Done (mark_undeliverable t le ?u)))
      (bind_io (emit ev) (\<lambda>_. bind_io (store_op (transition_delivered ?cd (mark_undeliverable t le ?u))) (\<lambda>_. ret Progress)) w [])"
    for t le ev
    using run_complete [OF assms(1), of "mark_undeliverable t le ?u" "w\<lparr>journal := journal w @ [ev]\<rparr>" e0 m] assms(2)
    by (auto simp: ends_in_def run_simps)
  have ok: "ends_in ?cd (clip_id e) (Some (Done (mark_delivered t task ?u)))
      (bind_io (store_op (transition_delivered ?cd (mark_delivered t task ?u))) (\<lambda>_. bind_io (emit ev) (\<lambda>_. ret Progress)) w [])"
    for t task ev
    using run_complete [OF assms(1), of "mark_delivered t task ?u" w e0 m] assms(2)
    by (auto simp: ends_in_def run_simps)
  note err = handle_ends_in [OF assms(1) ph, of _ ts, simplified, THEN ends_in_then [where m = "handle_upload_error rn ts ?u x" for x]]
  have start: "upload_and_record rn ts False ?u w [] =
      (case preflight_verdict (blen ?cd m) of
         Some reason \<Rightarrow> bind_io (emit (skip_event (clip_id e) reason)) (\<lambda>_.
           bind_io (store_op (transition_delivered ?cd
             (mark_undeliverable (t_stamp ts) (preflight_error (clip_id e) reason) ?u))) (\<lambda>_. ret Progress)) w []
       | None \<Rightarrow> (case upload_answer rn (t_http ts) m of
           Inr task \<Rightarrow> bind_io (store_op (transition_delivered ?cd (mark_delivered (t_stamp ts) task ?u))) (\<lambda>_.
             bind_io (emit (DeliveryEv (DeliveryUploadSucceeded (clip_id e) (task_id task) (attempts ?u)))) (\<lambda>_. ret Progress)) w []
         | Inl x \<Rightarrow> bind_io (handle_upload_error rn ts ?u x) (\<lambda>_. ret Progress) w []))"
    using media
    by (simp add: upload_and_record_def Let_def run_bind [of "preflight_check _ _"] run_preflight
        run_match [of "upload_clip _ _ _ _"] run_upload split: option.split sum.split)
  show ?thesis
    unfolding start attempt_spec_def Let_def
    by (simp add: skip ok err split: option.split sum.split split del: if_split)
qed

lemma upload_progress:
  "wlp (upload_and_record rn ts False e) (\<lambda>x _. x = Progress) (\<lambda>_ _. True) (\<lambda>_. True) w"
  by (auto simp: upload_and_record_def Let_def wlp_simps wlp_match intro!: wlp_upload split: option.split)

text \<open>The first eligible clip is what the pick returns, and the pick leaves the waiting clips alone.\<close>

lemma run_pick_first:
  assumes "wf_world w" "cid \<noteq> []" "phase_of cd cid w = Waiting e m"
    and "eligible cd now w (sidecar_name cid) e" "\<And>n e'. eligible cd now w n e' \<Longrightarrow> sidecar_name cid \<le> n"
  shows "\<exists>w1. pick_oldest_pending cd now w [] = (Ok (Some e), w1, []) \<and>
    (\<forall>k e' x. phase_of cd k w = Waiting e' x \<longrightarrow> phase_of cd k w1 = Waiting e' x)"
proof -
  define ns where "ns = sort (filter (has_ext ''json'') (listing PendingDir (files w)))"
  obtain w1 where run: "pick_oldest_pending cd now w [] = (Ok (first_eligible cd now w ns), w1, [])"
    using run_pick [OF assms(1), of cd now] unfolding ns_def by blast
  have ns: "sorted ns" "\<And>n. n \<in> set ns \<longleftrightarrow> has_ext ''json'' n \<and> look w (PendingDir, n) \<noteq> None"
    by (auto simp: ns_def set_listing)
  have mine: "sidecar_name cid \<in> set ns" "entry_of cd w (sidecar_name cid) = Some e"
    "\<not> passed_over cd now w (sidecar_name cid)"
    using assms(4) [unfolded eligible_iff] assms(4) [unfolded eligible_def] by (auto simp: ns(2) holds_entry_def)
  have "first_eligible cd now w ns = Some e"
  proof (cases "first_eligible cd now w ns")
    case None
    then show ?thesis using first_eligible_sorted [OF ns(1), of cd now w] mine by auto
  next
    case (Some e')
    then obtain n where n: "n \<in> set ns" "entry_of cd w n = Some e'" "\<not> passed_over cd now w n"
      "\<forall>k \<in> set ns. \<not> passed_over cd now w k \<longrightarrow> n \<le> k"
      using first_eligible_sorted [OF ns(1), of cd now w] by auto
    then have "n = sidecar_name cid"
      using assms(5) [of n e'] mine ns(2) by (auto simp: eligible_iff intro: antisym)
    then show ?thesis using n mine Some by simp
  qed
  moreover have "phase_of cd k w1 = Waiting e' x" if "phase_of cd k w = Waiting e' x" for k e' x
  proof -
    have "holds_entry cd w (sidecar_at PendingDir k) e'" using that by (auto simp: phase_of_Waiting holds_entry_def)
    from wlp_run [OF pick_scanned [OF this] run] have "same_clip k w w1" by (simp add: scanned_def)
    then show ?thesis using same_clip_phase that by metis
  qed
  ultimately show ?thesis using run by auto
qed

lemma attempt_refines:
  assumes "codec_ok (rn_codec rn)" "wf_world w" "cid \<noteq> []" "clip_id e = cid"
    and "phase_of (rn_codec rn) cid w = Waiting e m"
    and "eligible (rn_codec rn) (t_pick ts) w (sidecar_name cid) e"
    and "\<And>n e'. eligible (rn_codec rn) (t_pick ts) w n e' \<Longrightarrow> sidecar_name cid \<le> n"
  shows "\<exists>r w'. try_once rn ts False w [] = (r, w', []) \<and>
    (case attempt_spec rn ts e m of
       None \<Rightarrow> r = Crashed
     | Some p \<Rightarrow> r = Ok Progress \<and> phase_of (rn_codec rn) cid w' = p) \<and>
    (\<forall>k e' x. k \<noteq> cid \<longrightarrow> phase_of (rn_codec rn) k w = Waiting e' x \<longrightarrow> phase_of (rn_codec rn) k w' = Waiting e' x)"
proof -
  let ?cd = "rn_codec rn" and ?u = "mark_attempt (t_pick ts) e"
  obtain w1 where pick: "pick_oldest_pending ?cd (t_pick ts) w [] = (Ok (Some e), w1, [])"
    and kept: "\<And>k e' x. phase_of ?cd k w = Waiting e' x \<Longrightarrow> phase_of ?cd k w1 = Waiting e' x"
    using run_pick_first [OF assms(2,3,5,6)] assms(7) by blast
  have "phase_of ?cd (clip_id e) w1 = Waiting e m" using kept [OF assms(5)] assms(4) by simp
  then obtain w2 where claim: "transition_inflight ?cd e (t_pick ts) w1 [] = (Ok ?u, w2, [])"
    "phase_of ?cd (clip_id e) w2 = Flying ?u m"
    using run_claim [OF assms(1)] by blast
  define w3 where "w3 = w2\<lparr>journal := journal w2 @ [DeliveryEv (DeliveryAttemptStarted (clip_id e) (attempts ?u))]\<rparr>"
  obtain r w' fs' where up: "upload_and_record rn ts False ?u w3 [] = (r, w', fs')"
    by (cases "upload_and_record rn ts False ?u w3 []") auto
  have run: "try_once rn ts False w [] = (r, w', fs')"
    by (simp add: try_once_def run_simps pick claim(1) w3_def [symmetric] up)
  have spec: "ends_in ?cd cid (attempt_spec rn ts e m) (r, w', fs')"
    using attempt_ends_in [OF assms(1), of e w3 ?u m ts] claim(2) assms(4) up by (simp add: w3_def)
  have progress: "x = Progress" if "r = Ok x" for x
    using wlp_run [OF upload_progress up] that by simp
  have others: "phase_of ?cd k w' = Waiting e' x" if "k \<noteq> cid" "phase_of ?cd k w = Waiting e' x" for k e' x
  proof -
    have "same_clip k w1 w2" using same_clip_footprint [OF inflight_op.own_files _ claim(1)] that assms(4) by blast
    moreover have "same_clip k w3 w'"
      using same_clip_footprint [OF footprint_attempt _ up] that assms(4) by simp
    ultimately have "same_clip k w1 w'" by (simp add: same_clip_def w3_def)
    then show ?thesis using kept [OF that(2)] same_clip_phase by metis
  qed
  show ?thesis
    using run spec progress others by (auto simp: ends_in_def split: option.splits)
qed

section \<open>A concrete runner\<close>

text \<open>
  A runner whose server accepts every upload with task 7, on the default schedule, and one
  whose server is overloaded and asks to come back in a minute.
\<close>

definition ex_runner :: "(blob, string, unit) delivery_runner" where
  "ex_runner = \<lparr> rn_codec = blob_codec, rn_env = ex_env, rn_client = ex_client, rn_display = (\<lambda>_. ''error''),
     rn_fp = fp_exact, rn_lims = \<lparr> td_max = 10 ^ 20, dt_max = 10 ^ 22 \<rparr>, rn_schedule = ex_schedule,
     rn_cert_not_after = 1000 \<rparr>"

definition ex_reads :: reads where
  "ex_reads = \<lparr> t_pick = 30, t_http = 31, t_sched = 32, t_stamp = 33 \<rparr>"

lemma ex_runner_sel [simp]:
  "rn_codec ex_runner = blob_codec" "rn_env ex_runner = ex_env" "rn_client ex_runner = ex_client"
  "rn_schedule ex_runner = ex_schedule" "rn_cert_not_after ex_runner = 1000"
  "t_pick ex_reads = 30" "t_http ex_reads = 31" "t_stamp ex_reads = 33"
  by (simp_all add: ex_runner_def ex_reads_def)

lemma ex_pending_filed [simp]: "pending_filed blob_codec ex_waiting"
  by (auto simp: pending_filed_def holds_entry_def ex_waiting_def has_ext_json_iff split: if_splits)

lemma ex_eligible [simp]:
  "eligible blob_codec now ex_waiting n e \<longleftrightarrow> n = sidecar_name ''a'' \<and> e = ex_entry"
  by (auto simp: eligible_def holds_entry_def ex_waiting_def has_ext_json_iff in_backoff_def ex_entry_def new_entry_def
      split: if_splits)

lemma ex_answer:
  "upload_answer ex_runner 31 (Bytes n) = Inr \<lparr> task_id = 7, task_status = Queued, task_observation = None \<rparr>"
  by (simp add: upload_answer_def endpoint_def check_authority_def send_request_def ex_env_def ex_api_def ex_client_def
      trim_end_slashes_def
      read_and_classify_def read_capped_def classify_response_def is_success_def max_response_bytes_def)

lemma ex_spec:
  "attempt_spec ex_runner ex_reads ex_entry (Bytes 5) =
     Some (Done (mark_delivered 33 \<lparr> task_id = 7, task_status = Queued, task_observation = None \<rparr> (mark_attempt 30 ex_entry)))"
  by (simp add: attempt_spec_def preflight_verdict_def max_upload_bytes_def ex_answer)

section \<open>Properties\<close>

text \<open>
  C6: An attempt never loses a recording. Take any clip that waits with its recording, and
  run one attempt of the delivery loop, which may work on this clip or on another one, with
  any server answer, under any fault schedule and also when the process dies or is shut down
  inside it: afterwards the recording is in exactly one place, or a terminal record of the
  clip is on disk.
\<close>

theorem try_once_keeps_recording:
  assumes "codec_ok (rn_codec rn)" "pending_filed (rn_codec rn) w" "cid \<noteq> []"
    and "phase_of (rn_codec rn) cid w = Waiting e m"
    and run: "try_once rn ts c w fs = (r, w', fs')"
  shows "recording_safe (rn_codec rn) cid m w'"
proof -
  let ?S = "recording_safe (rn_codec rn) cid m"
  have entry: "holds_entry (rn_codec rn) w (sidecar_at PendingDir cid) e"
    using assms(4) by (auto simp: phase_of_Waiting holds_entry_def)
  have phase: "phase_of (rn_codec rn) cid w1 = Waiting e m" if "scanned cid w w1" for w1
    using that same_clip_phase assms(4) unfolding scanned_def by metis
  have orphan: "wlp (quarantine_orphan k) (\<lambda>_. ?S) (\<lambda>_. ?S) ?S v" if "k \<noteq> cid" "?S v" for k v
    by (rule foreign_clip_safe [of k]) (use that in auto)
  have "wlp (try_once rn ts c) (\<lambda>_. ?S) (\<lambda>_. ?S) ?S w"
    unfolding try_once_def
  proof (simp add: wlp_simps, rule wlp_mono [OF pick_scanned [OF entry]])
    fix picked w1 assume p: "scanned cid w w1 \<and> pick_result_ok (rn_codec rn) (t_pick ts) picked w1"
    have ph: "phase_of (rn_codec rn) cid w1 = Waiting e m" using phase p by blast
    show "wlp (case picked of None \<Rightarrow> ret Idle
       | Some e0 \<Rightarrow> match_io (transition_inflight (rn_codec rn) e0 (t_pick ts))
           (\<lambda>e. bind_io (emit (DeliveryEv (DeliveryAttemptStarted (clip_id e) (attempts e)))) (\<lambda>_.
                upload_and_record rn ts c e))
           (\<lambda>err. case err of
              MissingMedia cid \<Rightarrow>
                bind_io (emit (QueueEv (QueueMissingMedia cid))) (\<lambda>_.
                bind_io (store_op (quarantine_orphan cid)) (\<lambda>_. ret Progress))
            | _ \<Rightarrow> throw (RunnerQueue err))) (\<lambda>_. ?S) (\<lambda>_. ?S) ?S w1"
    proof (cases picked)
      case None
      then show ?thesis using ph by (simp add: wlp_simps)
    next
      case (Some e0)
      have own: "holds_entry (rn_codec rn) w1 (sidecar_at PendingDir (clip_id e0)) e0"
        using picked_filed [OF assms(2)] p Some by blast
      show ?thesis
        by (simp add: Some wlp_match)
          (rule wlp_mono [OF claim_and_upload_safe [OF assms(1,3) ph own, of "t_pick ts" _ ts c]],
            auto simp: wlp_simps orphan split: queue_error.split)
    qed
  qed (use phase in auto)
  from wlp_run [OF this run] show ?thesis by (auto split: res.splits)
qed

theorem try_once_keeps_recording_witness:
  "\<exists>r w' fs'. try_once ex_runner ex_reads False ex_waiting [NoFault, NoFault, NoFault, NoFault, Crash None] = (r, w', fs') \<and>
     recording_safe blob_codec ''a'' (Bytes 5) w'"
proof -
  obtain r w' fs' where run: "try_once ex_runner ex_reads False ex_waiting
      [NoFault, NoFault, NoFault, NoFault, Crash None] = (r, w', fs')"
    by (cases "try_once ex_runner ex_reads False ex_waiting [NoFault, NoFault, NoFault, NoFault, Crash None]") auto
  show ?thesis
    using try_once_keeps_recording [OF _ _ _ _ run, of "''a''" ex_entry "Bytes 5"] run by simp
qed

text \<open>
  C7: An attempt refines its specification. Without faults the loop works on the oldest
  eligible clip, and what becomes of it is a function of its record, its bytes, the server's
  answer and the clock: done as delivered, done as undeliverable, or waiting again. Every
  other waiting clip stays as it was.
\<close>

theorem try_once_refines_spec:
  assumes "codec_ok (rn_codec rn)" "wf_world w" "cid \<noteq> []" "clip_id e = cid"
    and "phase_of (rn_codec rn) cid w = Waiting e m"
    and "eligible (rn_codec rn) (t_pick ts) w (sidecar_name cid) e"
    and "\<And>n e'. eligible (rn_codec rn) (t_pick ts) w n e' \<Longrightarrow> sidecar_name cid \<le> n"
  shows "\<exists>r w'. try_once rn ts False w [] = (r, w', []) \<and>
    (case attempt_spec rn ts e m of
       None \<Rightarrow> r = Crashed
     | Some p \<Rightarrow> r = Ok Progress \<and> phase_of (rn_codec rn) cid w' = p) \<and>
    (\<forall>k e' x. k \<noteq> cid \<longrightarrow> phase_of (rn_codec rn) k w = Waiting e' x \<longrightarrow> phase_of (rn_codec rn) k w' = Waiting e' x)"
  using attempt_refines [OF assms(1-6)] assms(7) by blast

theorem try_once_refines_spec_witness:
  "\<exists>w'. try_once ex_runner ex_reads False ex_waiting [] = (Ok Progress, w', []) \<and>
     phase_of blob_codec ''a'' w' =
       Done (mark_delivered 33 \<lparr> task_id = 7, task_status = Queued, task_observation = None \<rparr> (mark_attempt 30 ex_entry))"
  using try_once_refines_spec [of ex_runner ex_waiting "''a''" ex_entry "Bytes 5" ex_reads] by (auto simp: ex_spec)

section \<open>Bounded retries\<close>

text \<open>
  The attempts on one clip: fault-free attempts of the loop that pick this clip, with
  anything that leaves the files of the clip alone in between.
\<close>

definition picks ::
  "('b, 'u, 'c) delivery_runner \<Rightarrow> string \<Rightarrow> reads \<Rightarrow> 'b world \<Rightarrow> clip_queue_entry \<Rightarrow> 'b \<Rightarrow> bool" where
  "picks rn cid ts w e m \<longleftrightarrow> wf_world w \<and> clip_id e = cid \<and> phase_of (rn_codec rn) cid w = Waiting e m \<and>
     eligible (rn_codec rn) (t_pick ts) w (sidecar_name cid) e \<and>
     (\<forall>n e'. eligible (rn_codec rn) (t_pick ts) w n e' \<longrightarrow> sidecar_name cid \<le> n)"

inductive attempts_on ::
  "('b, 'u, 'c) delivery_runner \<Rightarrow> string \<Rightarrow> 'b world \<Rightarrow> nat \<Rightarrow> 'b world \<Rightarrow> bool" for rn cid w where
  start: "attempts_on rn cid w 0 w"
| other: "attempts_on rn cid w n w1 \<Longrightarrow> same_clip cid w1 w2 \<Longrightarrow> attempts_on rn cid w n w2"
| tried: "attempts_on rn cid w n w1 \<Longrightarrow> picks rn cid ts w1 e m \<Longrightarrow>
     try_once rn ts False w1 [] = (Ok Progress, w2, []) \<Longrightarrow> attempts_on rn cid w (Suc n) w2"

lemma attempt_spec_requeue:
  assumes "attempt_spec rn ts e m = Some (Waiting e' m')" "attempts e < u32_max"
  shows "m' = m \<and> clip_id e' = clip_id e \<and> attempts e' = Suc (attempts e) \<and>
    attempts e' < per_clip_max_attempts (rn_schedule rn)"
proof -
  let ?u = "mark_attempt (t_pick ts) e"
  obtain err where err: "preflight_verdict (blen (rn_codec rn) m) = None" "upload_answer rn (t_http ts) m = Inl err"
    "\<not> (\<exists>msg. err = UndecodableSuccess msg)" "classify_upload_error err \<noteq> Terminal"
    using assms(1) by (auto simp: attempt_spec_def Let_def split: option.splits sum.splits if_splits)
  obtain a where a: "schedule (rn_fp rn) (rn_lims rn) (rn_schedule rn) (t_sched ts) (attempts ?u)
      (first_attempt_at ?u) (error_retry_after err) = Some a"
    using assms(1) err by (auto simp: attempt_spec_def Let_def)
  then obtain t where t: "a = Retry t" using assms(1) err by (cases a) (auto simp: attempt_spec_def Let_def)
  then have "attempts ?u < per_clip_max_attempts (rn_schedule rn)"
    using a by (auto simp: schedule_def budget_spent_def split: if_splits)
  moreover have "e' = ?u\<lparr>next_attempt_after := Some t, last_err := Some (upload_last_error rn err)\<rparr>" "m' = m"
    using assms(1) err a t by (auto simp: attempt_spec_def Let_def)
  ultimately show ?thesis using assms(2) by (simp add: mark_attempt_def sat_add_def)
qed

lemma attempts_on_count:
  assumes "attempts_on rn cid w n w'" "codec_ok (rn_codec rn)" "cid \<noteq> []"
    and "phase_of (rn_codec rn) cid w = Waiting e0 m0" "attempts e0 + n \<le> u32_max"
    and "per_clip_max_attempts (rn_schedule rn) \<le> u32_max"
  shows "\<forall>e m. phase_of (rn_codec rn) cid w' = Waiting e m \<longrightarrow>
    attempts e = attempts e0 + n \<and> m = m0 \<and> (0 < n \<longrightarrow> attempts e < per_clip_max_attempts (rn_schedule rn))"
  using assms(1,5)
proof (induction rule: attempts_on.induct)
  case start
  then show ?case using assms(4) by simp
next
  case (other n w1 w2)
  then show ?case using same_clip_phase by metis
next
  case (tried n w1 ts e m w2)
  have p: "wf_world w1" "clip_id e = cid" "phase_of (rn_codec rn) cid w1 = Waiting e m"
    using tried.hyps(2) by (auto simp: picks_def)
  have e: "attempts e = attempts e0 + n" "m = m0" using tried.IH tried.prems p(3) by auto
  obtain r' w2' where run: "try_once rn ts False w1 [] = (r', w2', [])"
    and spec: "case attempt_spec rn ts e m of None \<Rightarrow> r' = (Crashed :: (runner_error, attempt_result) res)
      | Some q \<Rightarrow> r' = Ok Progress \<and> phase_of (rn_codec rn) cid w2' = q"
    using attempt_refines [OF assms(2) p(1) assms(3) p(2,3)] tried.hyps(2) unfolding picks_def by blast
  show ?case
  proof (intro allI impI)
    fix e' m' assume w: "phase_of (rn_codec rn) cid w2 = Waiting e' m'"
    have "w2' = w2" using run tried.hyps(3) by simp
    then have "attempt_spec rn ts e m = Some (Waiting e' m')"
      using spec w run tried.hyps(3) by (auto split: option.splits)
    then show "attempts e' = attempts e0 + Suc n \<and> m' = m0 \<and>
        (0 < Suc n \<longrightarrow> attempts e' < per_clip_max_attempts (rn_schedule rn))"
      using attempt_spec_requeue e tried.prems by fastforce
  qed
qed

lemma attempts_on_last:
  assumes "attempts_on rn cid w k w'" "codec_ok (rn_codec rn)" "cid \<noteq> []"
    and "phase_of (rn_codec rn) cid w = Waiting e0 m0" "attempts e0 + k \<le> u32_max"
    and "per_clip_max_attempts (rn_schedule rn) \<le> u32_max"
  shows "k \<le> 1 \<or> attempts e0 + (k - 1) < per_clip_max_attempts (rn_schedule rn)"
  using assms(1,5)
proof (induction rule: attempts_on.induct)
  case (tried n w1 ts e m w2)
  then show ?case
    using attempts_on_count [OF tried.hyps(1) assms(2-4) _ assms(6)] by (auto simp: picks_def)
qed auto



section \<open>An answer that is too long\<close>

lemma attempt_spec_transient:
  assumes "preflight_verdict (blen (rn_codec rn) m) = None" "upload_answer rn (t_http ts) m = Inl err"
    and "(\<exists>x. err = Decode x) \<or> (\<exists>x. err = Network x)"
  shows "attempt_spec rn ts e m =
    map_option (\<lambda>a. case a of
        Retry t \<Rightarrow> Waiting ((mark_attempt (t_pick ts) e)\<lparr>next_attempt_after := Some t, last_err := Some (upload_last_error rn err)\<rparr>) m
      | Exhausted \<Rightarrow> Done (mark_undeliverable (t_stamp ts) (upload_last_error rn err) (mark_attempt (t_pick ts) e)))
      (schedule (rn_fp rn) (rn_lims rn) (rn_schedule rn) (t_sched ts) (attempts (mark_attempt (t_pick ts) e))
        (first_attempt_at (mark_attempt (t_pick ts) e)) None)"
  using assms by (auto simp: attempt_spec_def error_retry_after_def Let_def)

lemma waiting_eligible:
  "cid \<noteq> [] \<Longrightarrow> phase_of cd cid w = Waiting e m \<Longrightarrow> next_attempt_after e = Some t \<Longrightarrow> t \<le> now \<Longrightarrow> eligible cd now w (sidecar_name cid) e"
  by (auto simp: eligible_def phase_of_Waiting holds_entry_def in_backoff_def has_ext_json_iff)

text \<open>
  C40: A clip that perchpub has accepted is uploaded again, and in the end reported as undeliverable, when the
  answer is too long. On a working host, with a validated configuration, let the server answer the
  upload of the oldest waiting clip with a body that exceeds the cap, by its advertised length or by what arrives, under any
  status, a 201 for a stored clip included. If that attempt was the last one the budget allows, the clip is filed as undeliverable. Otherwise it waits
  again with its recording and one more attempt counted, and from some instant on it can be picked for another upload.
\<close>

theorem accepted_upload_retried:
  assumes cd: "codec_ok (rn_codec rn)" and w: "wf_world w" "cid \<noteq> []" "clip_id e = cid" "phase_of (rn_codec rn) cid w = Waiting e m"
    and first: "eligible (rn_codec rn) (t_pick ts) w (sidecar_name cid) e"
      "\<And>n e'. eligible (rn_codec rn) (t_pick ts) w n e' \<Longrightarrow> sidecar_name cid \<le> n"
    and size: "preflight_verdict (blen (rn_codec rn) m) = None" "attempts e < u32_max"
    and url: "endpoint (url_env (rn_env rn)) (rn_client rn) ''/api/v1/upload/'' = Inr u"
      "check_authority (url_env (rn_env rn)) (rn_client rn) u = Inr ()"
    and answer: "srv (rn_env rn) ''POST'' (as_str (url_env (rn_env rn)) u) (inner_client (rn_client rn)) (Some m) = Inr resp"
    and long: "(\<exists>len. resp_content_length resp = Some len \<and> max_response_bytes < len) \<or>
      max_response_bytes < length (concat (map (\<lambda>c. case c of Chunk x \<Rightarrow> x | ChunkErr _ \<Rightarrow> []) (resp_chunks resp)))"
    and fp: "fp_ok (rn_fp rn)" "0 < j" "j \<le> 200001 / 1000000" "rn_schedule rn = schedule_from_config (Fin j) cfg"
    and cfg: "1 \<le> initial_delay_secs cfg" "initial_delay_secs cfg \<le> max_attempt_delay_secs cfg"
      "max_attempt_delay_secs cfg \<le> 604800" "per_clip_max_wallclock_hours cfg \<le> 8760"
    and lims: "10 ^ 15 \<le> td_max (rn_lims rn)" "t_sched ts + 10 ^ 15 \<le> dt_max (rn_lims rn)"
  defines "start \<equiv> (case first_attempt_at e of None \<Rightarrow> t_pick ts | Some t \<Rightarrow> t)"
  shows "\<exists>w'. try_once rn ts False w [] = (Ok Progress, w', []) \<and>
    (if rc_per_clip_max_attempts cfg \<le> attempts e + 1 \<or>
        int (per_clip_max_wallclock_hours cfg) * 3600 * 10 ^ 9 \<le> max 0 (t_sched ts - start)
     then \<exists>e'. phase_of (rn_codec rn) cid w' = Done e' \<and> entry_outcome e' = Some Undeliverable
     else \<exists>e' t. phase_of (rn_codec rn) cid w' = Waiting e' m \<and> attempts e' = attempts e + 1 \<and>
       (\<forall>now \<ge> t. eligible (rn_codec rn) now w' (sidecar_name cid) e'))"
proof -
  let ?u = "mark_attempt (t_pick ts) e" and ?cd = "rn_codec rn"
  obtain err where a: "read_and_classify (rfc_env (rn_env rn)) (json_env (rn_env rn)) resp (t_http ts) = Inl err"
    and e: "(\<exists>x. err = Decode x) \<or> (\<exists>x. err = Network x)"
    using oversized_answer [OF long] .
  have err: "upload_answer rn (t_http ts) m = Inl err" using a url answer by (simp add: upload_answer_def send_request_def)
  note spec = attempt_spec_transient [where e = e, OF size(1) err e]
  obtain r w' where run: "try_once rn ts False w [] = (r, w', [])"
    "case attempt_spec rn ts e m of None \<Rightarrow> r = (Crashed :: (runner_error, attempt_result) res) | Some p \<Rightarrow> r = Ok Progress \<and> phase_of ?cd cid w' = p"
    using attempt_refines [OF cd w first(1)] first(2) by blast
  have u: "attempts ?u = attempts e + 1" "first_attempt_at ?u = Some start"
    using size(2) by (simp_all add: mark_attempt_def sat_add_def start_def split: option.split)
  define spent where "spent \<longleftrightarrow> rc_per_clip_max_attempts cfg \<le> attempts e + 1 \<or>
        int (per_clip_max_wallclock_hours cfg) * 3600 * 10 ^ 9 \<le> max 0 (t_sched ts - start)"
  have decide: "if spent then schedule (rn_fp rn) (rn_lims rn) (rn_schedule rn) (t_sched ts) (attempts e + 1) (Some start) None = Some Exhausted
      else \<exists>t. schedule (rn_fp rn) (rn_lims rn) (rn_schedule rn) (t_sched ts) (attempts e + 1) (Some start) None = Some (Retry t)"
    using schedule_decides [OF fp(1-3) cfg lims, of 0 None "attempts e + 1" "Some start"] lims
    unfolding fp(4) spent_def by (auto split: if_splits)
  show ?thesis
  proof (cases spent)
    case True
    then have "attempt_spec rn ts e m = Some (Done (mark_undeliverable (t_stamp ts) (upload_last_error rn err) ?u))"
      using decide spec by (simp add: u)
    then show ?thesis using run True unfolding spent_def [symmetric] by (auto simp: mark_undeliverable_def)
  next
    case False
    then obtain t where "attempt_spec rn ts e m = Some (Waiting (?u\<lparr>next_attempt_after := Some t, last_err := Some (upload_last_error rn err)\<rparr>) m)"
      using decide spec by (auto simp: u)
    then have p: "r = Ok Progress" "phase_of ?cd cid w' = Waiting (?u\<lparr>next_attempt_after := Some t, last_err := Some (upload_last_error rn err)\<rparr>) m"
      using run(2) by simp_all
    then have "\<forall>now \<ge> t. eligible ?cd now w' (sidecar_name cid) (?u\<lparr>next_attempt_after := Some t, last_err := Some (upload_last_error rn err)\<rparr>)"
      using waiting_eligible [OF w(2) p(2)] by simp
    then show ?thesis using run(1) p False u(1) unfolding spent_def [symmetric] by fastforce
  qed
qed

text \<open>A server that accepts an upload and answers with two mebibytes.\<close>

definition ex_verbose :: "(blob, string, unit) delivery_runner" where
  "ex_verbose = ex_runner\<lparr>rn_env := ex_env\<lparr>srv := (\<lambda>m u c b. Inr \<lparr> resp_status = 201, resp_retry_after = None,
     resp_content_length = Some (2 ^ 21), resp_chunks = [] \<rparr>)\<rparr>\<rparr>"

theorem accepted_upload_retried_witness:
  "\<exists>w' e'. try_once ex_verbose ex_reads False ex_waiting [] = (Ok Progress, w', []) \<and>
     phase_of blob_codec ''a'' w' = Waiting e' (Bytes 5) \<and> attempts e' = 1"
proof -
  have r: "rn_codec ex_verbose = blob_codec" "rn_schedule ex_verbose = schedule_from_config (Fin (1 / 5)) default_retry_config"
    "rn_fp ex_verbose = fp_exact" "rn_lims ex_verbose = \<lparr> td_max = 10 ^ 20, dt_max = 10 ^ 22 \<rparr>" "rn_client ex_verbose = ex_client"
    "url_env (rn_env ex_verbose) = ex_api" "srv (rn_env ex_verbose) = (\<lambda>m u c b. Inr \<lparr> resp_status = 201, resp_retry_after = None,
      resp_content_length = Some (2 ^ 21), resp_chunks = [] \<rparr>)" "t_sched ex_reads = 32"
    by (simp_all add: ex_verbose_def ex_runner_def ex_schedule_def ex_env_def ex_reads_def)
  have e: "attempts ex_entry = 0" "first_attempt_at ex_entry = None" by (simp_all add: ex_entry_def new_entry_def)
  have "endpoint ex_api ex_client ''/api/v1/upload/'' = Inr ''https://h/api/v1/upload/''"
    "check_authority ex_api ex_client ''https://h/api/v1/upload/'' = Inr ()"
    by (simp_all add: endpoint_def check_authority_def ex_api_def ex_client_def trim_end_slashes_def)
  note url = this
  have "\<exists>w'. try_once ex_verbose ex_reads False ex_waiting [] = (Ok Progress, w', []) \<and>
    (if rc_per_clip_max_attempts default_retry_config \<le> attempts ex_entry + 1 \<or>
        int (per_clip_max_wallclock_hours default_retry_config) * 3600 * 10 ^ 9 \<le>
          max 0 (t_sched ex_reads - (case first_attempt_at ex_entry of None \<Rightarrow> t_pick ex_reads | Some t \<Rightarrow> t))
     then \<exists>e'. phase_of (rn_codec ex_verbose) ''a'' w' = Done e' \<and> entry_outcome e' = Some Undeliverable
     else \<exists>e' t. phase_of (rn_codec ex_verbose) ''a'' w' = Waiting e' (Bytes 5) \<and> attempts e' = attempts ex_entry + 1 \<and>
       (\<forall>now \<ge> t. eligible (rn_codec ex_verbose) now w' (sidecar_name ''a'') e'))"
    by (rule accepted_upload_retried [where u = "''https://h/api/v1/upload/''" and j = "1 / 5" and
        resp = "\<lparr> resp_status = 201, resp_retry_after = None, resp_content_length = Some (2 ^ 21), resp_chunks = [] \<rparr>"])
      (simp_all add: r e url fp_exact_ok preflight_verdict_def max_upload_bytes_def u32_max_def max_response_bytes_def default_retry_config_def)
  then show ?thesis by (auto simp: r e default_retry_config_def)
qed

section \<open>The expired certificate\<close>

text \<open>
  C28: An expired certificate halts the loop without touching anything. Over any number of
  iterations that see the certificate expired, no system call is made (the fault schedule is
  not consumed), no file and no sequence number changes, and the expiry is logged exactly
  once, or not at all when it had been logged before or shutdown comes first.
\<close>

theorem cert_expired_halts:
  assumes "\<And>i. i \<in> set is \<Longrightarrow> cert_is_expired (rn_cert_not_after rn) (it_now i)"
  shows "\<exists>logged'. run_runner rn logged is w fs =
    (Ok logged', w\<lparr>journal := journal w @
       (if logged \<or> is = [] \<or> it_shutdown (hd is) then [] else [DeliveryEv (DeliveryCertExpired (rn_cert_not_after rn))])\<rparr>, fs)"
  using assms
proof (induction "is" arbitrary: logged w)
  case Nil
  then show ?case by (simp add: run_simps)
next
  case (Cons i "is")
  have i: "cert_is_expired (rn_cert_not_after rn) (it_now i)" using Cons.prems by simp
  have IH: "\<exists>logged'. run_runner rn True is v fs = (Ok logged', v, fs)" for v
    using Cons.IH [of True v] Cons.prems by simp
  show ?case
    using i IH by (auto simp: run_iteration_def run_simps)
qed

definition ex_tick :: "instant \<Rightarrow> iteration" where
  "ex_tick now = \<lparr> it_now = now, it_reads = ex_reads, it_shutdown = False, it_interrupted = False, it_sleep_cancelled = False \<rparr>"

theorem cert_expired_halts_witness:
  "\<exists>logged'. run_runner ex_runner False [ex_tick 1000, ex_tick 2000] ex_waiting [Crash None] =
    (Ok logged', ex_waiting\<lparr>journal := [DeliveryEv (DeliveryCertExpired 1000)]\<rparr>, [Crash None])"
proof -
  have "i \<in> set [ex_tick 1000, ex_tick 2000] \<Longrightarrow> cert_is_expired (rn_cert_not_after ex_runner) (it_now i)" for i
    by (auto simp: cert_is_expired_def ex_tick_def)
  moreover have "journal ex_waiting = []" "\<not> it_shutdown (ex_tick 1000)" by (simp_all add: ex_waiting_def ex_tick_def)
  ultimately show ?thesis
    using cert_expired_halts [of "[ex_tick 1000, ex_tick 2000]" ex_runner False ex_waiting "[Crash None]"]
    by (simp del: run_runner.simps)
qed

end
