(* ===== verification/Classify_Poller.thy ===== *)
theory Classify_Poller
  imports Delivery_Runner
begin

text \<open>
  The classify-task poller, \<^verbatim>\<open>crates/perchstation-core/src/delivery/classify.rs\<close>: the scan of
  \<open>delivered/\<close> with its in-memory skip set, one poll, one round, the pruning round and the loop.

  The skip set is part of the poller and outlives a failed round, so a round returns it
  beside its result. The clock is read up to three times per entry; the readings are an
  argument, a function of the file name. Shutdown can cut a round short at one of its
  requests; \<open>quota\<close> says after how many.
\<close>

section \<open>The poller\<close>

datatype poller_error = PollQueue queue_error | DeliveredIo path io_error

record poll_clock =
  c_budget :: instant
  c_http :: instant
  c_lost :: instant

record ('b, 'u, 'c) classify_poller =
  pl_codec :: "'b codec"
  pl_env :: "('b, 'u, 'c) http_env"
  pl_client :: "('u, 'c) perchpub_client"
  pl_lims :: chrono_limits
  pl_dt_min :: instant
  pl_retention_hours :: int

definition idle_scan_tick :: duration where
  "idle_scan_tick = ms 50"

definition active_scan_tick :: duration where
  "active_scan_tick = ms 5"

definition prune_interval :: duration where
  "prune_interval = 300 * 10 ^ 9"

definition classify_poll_max_hours :: int where
  "classify_poll_max_hours = 24"

definition is_pollable :: "clip_queue_entry \<Rightarrow> bool" where
  "is_pollable e \<longleftrightarrow>
     classify_task_id e \<noteq> None \<and> classify_lost_at e = None \<and>
     \<not> (case last_classify_status e of None \<Rightarrow> False | Some s \<Rightarrow> is_terminal_status s)"

definition classify_budget_exhausted :: "instant \<Rightarrow> clip_queue_entry \<Rightarrow> bool" where
  "classify_budget_exhausted now e =
     (case delivered_at e of None \<Rightarrow> False
      | Some t \<Rightarrow> classify_poll_max_hours * 3600 * ns_per_sec \<le> now - t)"

definition with_retention_hours ::
  "u64 \<Rightarrow> ('b, 'u, 'c) classify_poller \<Rightarrow> ('b, 'u, 'c) classify_poller" where
  "with_retention_hours hours pl = pl\<lparr>pl_retention_hours := min (int hours) i64_max\<rparr>"

section \<open>The scan\<close>

definition mark_lost :: "instant \<Rightarrow> clip_queue_entry \<Rightarrow> clip_queue_entry" where
  "mark_lost now e = e\<lparr>classify_lost_at := Some now\<rparr>"

definition emit_classify_lost :: "clip_queue_entry \<Rightarrow> string \<Rightarrow> u16 option \<Rightarrow> ('b, 'e, unit) io" where
  "emit_classify_lost e kind status =
     (case classify_task_id e of None \<Rightarrow> ret ()
      | Some tid \<Rightarrow> emit (ClassifyEv (ClassifyLost (clip_id e) tid kind status)))"

fun scan_loop ::
  "('b, 'u, 'c) classify_poller \<Rightarrow> (string \<Rightarrow> poll_clock) \<Rightarrow> string set \<Rightarrow> string list
     \<Rightarrow> ('b, unit, string set \<times> (poller_error + clip_queue_entry list)) io" where
  "scan_loop pl clk seen [] = ret (seen, Inr [])"
| "scan_loop pl clk seen (n # ns) =
     match_io fs_next_entry
       (\<lambda>_.
         if \<not> has_ext ''json'' n then scan_loop pl clk seen ns
         else if file_stem n \<in> seen then scan_loop pl clk seen ns
         else match_io (read_sidecar (pl_codec pl) (DeliveredDir, n))
           (\<lambda>e.
             if \<not> is_pollable e then scan_loop pl clk (insert (clip_id e) seen) ns
             else if classify_budget_exhausted (c_budget (clk n)) e then
               match_io (update_delivered_sidecar (pl_codec pl) (mark_lost (c_lost (clk n)) e))
                 (\<lambda>_. bind_io (emit_classify_lost e ''poll_timeout'' None) (\<lambda>_.
                      scan_loop pl clk (insert (clip_id e) seen) ns))
                 (\<lambda>err. ret (seen, Inl (PollQueue err)))
             else
               bind_io (scan_loop pl clk seen ns) (\<lambda>(seen', r).
               ret (seen', map_sum id (\<lambda>es. e # es) r)))
           (\<lambda>err. case err of
              Deserialise p \<Rightarrow>
                bind_io (emit (QueueEv (QueueCorruptSidecar (DeliveredDir, n)))) (\<lambda>_.
                match_io (quarantine_corrupt (DeliveredDir, n))
                  (\<lambda>_. scan_loop pl clk seen ns)
                  (\<lambda>_. bind_io (emit (Warn ''failed to quarantine corrupt delivered sidecar'')) (\<lambda>_.
                       scan_loop pl clk seen ns)))
            | _ \<Rightarrow>
                bind_io (emit (Warn ''skipping unreadable delivered sidecar'')) (\<lambda>_. scan_loop pl clk seen ns)))
       (\<lambda>x. ret (seen, Inl (DeliveredIo (dir_path DeliveredDir) x)))"

definition scan_non_terminal ::
  "('b, 'u, 'c) classify_poller \<Rightarrow> (string \<Rightarrow> poll_clock) \<Rightarrow> string set
     \<Rightarrow> ('b, unit, string set \<times> (poller_error + clip_queue_entry list)) io" where
  "scan_non_terminal pl clk seen =
     match_io (fs_read_dir DeliveredDir) (scan_loop pl clk seen)
       (\<lambda>x. ret (seen, Inl (DeliveredIo (dir_path DeliveredDir) x)))"

section \<open>Polling\<close>

definition mark_polled :: "classify_task \<Rightarrow> clip_queue_entry \<Rightarrow> clip_queue_entry" where
  "mark_polled task e = e\<lparr>last_classify_status := Some (task_status task)\<rparr>"

text \<open>
  An entry without a task panics; \<open>scan_non_terminal\<close> never returns one.
\<close>

definition poll_one ::
  "('b, 'u, 'c) classify_poller \<Rightarrow> (string \<Rightarrow> poll_clock) \<Rightarrow> string set \<Rightarrow> clip_queue_entry
     \<Rightarrow> ('b, unit, string set \<times> (poller_error + unit)) io" where
  "poll_one pl clk seen e =
     (let rd = clk (sidecar_name (clip_id e)) in
      case classify_task_id e of
        None \<Rightarrow> crash_now
      | Some tid \<Rightarrow>
          (case get_classify_task (pl_env pl) (pl_client pl) tid (c_http rd) of
             Inr task \<Rightarrow>
               match_io (update_delivered_sidecar (pl_codec pl) (mark_polled task e))
                 (\<lambda>_. if is_terminal_status (task_status task) then
                        bind_io (emit (ClassifyEv (ClassifyTerminal (clip_id e) tid (task_status task)
                          (task_observation task)))) (\<lambda>_.
                        ret (insert (clip_id e) seen, Inr ()))
                      else
                        bind_io (emit (ClassifyEv (ClassifyPolled (clip_id e) tid (task_status task)))) (\<lambda>_.
                        ret (seen, Inr ())))
                 (\<lambda>err. ret (seen, Inl (PollQueue err)))
           | Inl err \<Rightarrow>
               (case classify_poll_error err of
                  Transient \<Rightarrow>
                    bind_io (emit (Warn ''classify poll transient failure; will retry'')) (\<lambda>_. ret (seen, Inr ()))
                | Terminal \<Rightarrow>
                    match_io (update_delivered_sidecar (pl_codec pl) (mark_lost (c_lost rd) e))
                      (\<lambda>_. bind_io (emit_classify_lost e (error_kind err) (error_status err)) (\<lambda>_.
                           ret (insert (clip_id e) seen, Inr ())))
                      (\<lambda>err. ret (seen, Inl (PollQueue err))))))"

datatype round_result = Processed nat | RoundFailed poller_error | RoundCut

fun poll_entries ::
  "('b, 'u, 'c) classify_poller \<Rightarrow> (string \<Rightarrow> poll_clock) \<Rightarrow> nat option \<Rightarrow> nat \<Rightarrow> string set
     \<Rightarrow> clip_queue_entry list \<Rightarrow> ('b, unit, string set \<times> round_result) io" where
  "poll_entries pl clk quota polled seen [] = ret (seen, Processed polled)"
| "poll_entries pl clk quota polled seen (e # es) =
     (if quota = Some 0 then ret (seen, RoundCut)
      else
        bind_io (poll_one pl clk seen e) (\<lambda>(seen', r).
        case r of
          Inl err \<Rightarrow> ret (seen', RoundFailed err)
        | Inr _ \<Rightarrow> poll_entries pl clk (map_option (\<lambda>q. q - 1) quota) (Suc polled) seen' es))"

definition poll_round ::
  "('b, 'u, 'c) classify_poller \<Rightarrow> (string \<Rightarrow> poll_clock) \<Rightarrow> nat option \<Rightarrow> string set
     \<Rightarrow> ('b, unit, string set \<times> round_result) io" where
  "poll_round pl clk quota seen =
     bind_io (scan_non_terminal pl clk seen) (\<lambda>(seen', r).
     case r of
       Inl err \<Rightarrow> ret (seen', RoundFailed err)
     | Inr entries \<Rightarrow> poll_entries pl clk quota 0 seen' entries)"

section \<open>Pruning and the loop\<close>

text \<open>\<^verbatim>\<open>chrono::Duration::seconds\<close> and the subtraction panic outside chrono's range.\<close>

definition prune_cutoff :: "('b, 'u, 'c) classify_poller \<Rightarrow> instant \<Rightarrow> instant option" where
  "prune_cutoff pl now =
     Option.bind (delta_seconds (pl_lims pl) (min (pl_retention_hours pl * 3600) i64_max)) (\<lambda>retention.
     if pl_dt_min pl \<le> now - retention then Some (now - retention) else None)"

definition prune_round ::
  "('b, 'u, 'c) classify_poller \<Rightarrow> instant \<Rightarrow> string set \<Rightarrow> ('b, unit, string set) io" where
  "prune_round pl now seen =
     (case prune_cutoff pl now of
        None \<Rightarrow> crash_now
      | Some cutoff \<Rightarrow>
          match_io (prune_delivered (pl_codec pl) cutoff)
            (\<lambda>pruned. ret (seen - set pruned))
            (\<lambda>_. bind_io (emit (Warn ''classify poller delivered-prune round failed'')) (\<lambda>_. ret seen)))"

record poll_iteration =
  pi_shutdown :: bool
  pi_mono :: nat
  pi_mono_after :: nat
  pi_now :: instant
  pi_clk :: "string \<Rightarrow> poll_clock"
  pi_cut :: "nat option"
  pi_sleep_cancelled :: bool

definition poll_tick :: "nat \<Rightarrow> duration" where
  "poll_tick processed = (if 0 < processed then active_scan_tick else idle_scan_tick)"

definition poller_iteration ::
  "('b, 'u, 'c) classify_poller \<Rightarrow> poll_iteration \<Rightarrow> string set \<times> nat
     \<Rightarrow> ('b, unit, (string set \<times> nat) \<times> loop_next) io" where
  "poller_iteration pl i = (\<lambda>(seen, next_prune).
     if pi_shutdown i then ret ((seen, next_prune), Stop)
     else
       bind_io (if next_prune \<le> pi_mono i
                then bind_io (prune_round pl (pi_now i) seen) (\<lambda>seen'. ret (seen', pi_mono_after i + prune_interval))
                else ret (seen, next_prune)) (\<lambda>(seen1, next1).
       bind_io (poll_round pl (pi_clk i) (pi_cut i) seen1) (\<lambda>(seen2, r).
       case r of
         RoundCut \<Rightarrow> ret ((seen2, next1), Stop)
       | Processed k \<Rightarrow> ret ((seen2, next1), Sleep (poll_tick k))
       | RoundFailed err \<Rightarrow>
           bind_io (emit (Warn ''classify poller iteration failed'')) (\<lambda>_.
           ret ((seen2, next1), Sleep (poll_tick 0))))))"

fun run_poller ::
  "('b, 'u, 'c) classify_poller \<Rightarrow> poll_iteration list \<Rightarrow> string set \<times> nat
     \<Rightarrow> ('b, unit, string set \<times> nat) io" where
  "run_poller pl [] st = ret st"
| "run_poller pl (i # is) st =
     bind_io (poller_iteration pl i st) (\<lambda>(st', next).
     if next = Stop \<or> pi_sleep_cancelled i then ret st' else run_poller pl is st')"

section \<open>What polling may change\<close>

text \<open>
  Two records describe the same upload when they differ at most in the classification: its
  last status and the time it was given up.
\<close>

definition same_upload :: "clip_queue_entry \<Rightarrow> clip_queue_entry \<Rightarrow> bool" where
  "same_upload e e' \<longleftrightarrow>
     e' = e\<lparr>last_classify_status := last_classify_status e', classify_lost_at := classify_lost_at e'\<rparr>"

lemma same_upload_fields:
  "same_upload e e' \<longleftrightarrow>
     clip_id e' = clip_id e \<and> captured_at e' = captured_at e \<and> enqueued_at e' = enqueued_at e \<and>
     byte_size e' = byte_size e \<and> attempts e' = attempts e \<and> first_attempt_at e' = first_attempt_at e \<and>
     last_attempt_at e' = last_attempt_at e \<and> next_attempt_after e' = next_attempt_after e \<and>
     last_err e' = last_err e \<and> entry_outcome e' = entry_outcome e \<and>
     classify_task_id e' = classify_task_id e \<and> delivered_at e' = delivered_at e"
  by (cases e; cases e') (auto simp: same_upload_def)

lemma same_upload_refl [simp]: "same_upload e e"
  by (simp add: same_upload_fields)

lemma same_upload_sym: "same_upload e e' \<Longrightarrow> same_upload e' e"
  by (simp add: same_upload_fields)

lemma same_upload_trans: "same_upload e e' \<Longrightarrow> same_upload e' e'' \<Longrightarrow> same_upload e e''"
  by (simp add: same_upload_fields)

lemma same_upload_marks [simp]:
  "same_upload e (mark_lost now e)" "same_upload e (mark_polled task e)"
  by (simp_all add: same_upload_fields mark_lost_def mark_polled_def)

lemma mark_ids [simp]: "clip_id (mark_lost now e) = clip_id e" "clip_id (mark_polled task e) = clip_id e"
  by (simp_all add: mark_lost_def mark_polled_def)

lemma lost_not_pollable [simp]: "\<not> is_pollable (mark_lost now e)"
  by (simp add: is_pollable_def mark_lost_def)

text \<open>
  A poll moves a record: the upload stays the same, and a record that needs no polling is
  left alone.
\<close>

definition moved :: "clip_queue_entry \<Rightarrow> clip_queue_entry \<Rightarrow> bool" where
  "moved e e' \<longleftrightarrow> same_upload e e' \<and> (\<not> is_pollable e \<longrightarrow> e' = e)"

lemma moved_refl [simp]: "moved e e"
  by (simp add: moved_def)

lemma moved_trans: "moved e e' \<Longrightarrow> moved e' e'' \<Longrightarrow> moved e e''"
  unfolding moved_def by (auto intro: same_upload_trans)

lemma moved_id: "moved e e' \<Longrightarrow> clip_id e' = clip_id e"
  by (simp add: moved_def same_upload_fields)

text \<open>The files of a poll: only sidecars named in \<open>N\<close>, in \<open>delivered/\<close>, and whatever is in \<open>corrupt/\<close>.\<close>

definition poll_frame :: "string set \<Rightarrow> 'b world \<Rightarrow> 'b world \<Rightarrow> bool" where
  "poll_frame N w w' \<longleftrightarrow>
     (\<forall>p. fst p \<notin> {DeliveredDir, CorruptDir} \<longrightarrow> look w' p = look w p) \<and>
     (\<forall>k. has_ext ''json'' k \<longrightarrow> k \<notin> N \<longrightarrow> look w' (DeliveredDir, k) = look w (DeliveredDir, k))"

lemma poll_frame_refl [simp]: "poll_frame N w w"
  by (simp add: poll_frame_def)

lemma poll_frame_journal [simp]:
  "poll_frame N w (w'\<lparr>journal := j\<rparr>) = poll_frame N w w'" "poll_frame N (w\<lparr>journal := j\<rparr>) w' = poll_frame N w w'"
  by (simp_all add: poll_frame_def)

lemma poll_frame_trans: "poll_frame N w w1 \<Longrightarrow> poll_frame M w1 w2 \<Longrightarrow> N \<subseteq> K \<Longrightarrow> M \<subseteq> K \<Longrightarrow> poll_frame K w w2"
  unfolding poll_frame_def by (metis subsetD)

text \<open>
  The delivered sidecars are the same uploads as before; unreadable ones may be gone.
\<close>

definition delivered_entry :: "'b codec \<Rightarrow> 'b world \<Rightarrow> string \<Rightarrow> clip_queue_entry option" where
  "delivered_entry cd w n = Option.bind (look w (DeliveredDir, n)) (dec cd)"

lemma holds_delivered: "holds_entry cd w (DeliveredDir, n) e \<longleftrightarrow> delivered_entry cd w n = Some e"
  by (auto simp: holds_entry_def delivered_entry_def bind_eq_Some_conv)

definition tended :: "'b codec \<Rightarrow> 'b world \<Rightarrow> 'b world \<Rightarrow> bool" where
  "tended cd w w' \<longleftrightarrow>
     (\<forall>p. fst p \<notin> {DeliveredDir, CorruptDir} \<longrightarrow> look w' p = look w p) \<and>
     (\<forall>n. has_ext ''json'' n \<longrightarrow> rel_option moved (delivered_entry cd w n) (delivered_entry cd w' n))"

lemma tended_refl [simp]: "tended cd w w"
  by (auto simp: tended_def option.rel_refl)

lemma tended_journal [simp]:
  "tended cd w (w'\<lparr>journal := j\<rparr>) = tended cd w w'" "tended cd (w\<lparr>journal := j\<rparr>) w' = tended cd w w'"
  by (simp_all add: tended_def delivered_entry_def)

lemma moved_option_trans:
  "rel_option moved x y \<Longrightarrow> rel_option moved y z \<Longrightarrow> rel_option moved x z"
  by (cases x; cases y; cases z) (auto intro: moved_trans)

lemma tended_trans: "tended cd w w1 \<Longrightarrow> tended cd w1 w2 \<Longrightarrow> tended cd w w2"
  unfolding tended_def by (auto intro: moved_option_trans)

lemma tendedD:
  "tended cd w w' \<Longrightarrow> has_ext ''json'' n \<Longrightarrow> holds_entry cd w (DeliveredDir, n) e \<Longrightarrow>
     \<exists>e'. holds_entry cd w' (DeliveredDir, n) e' \<and> moved e e'"
  "tended cd w w' \<Longrightarrow> has_ext ''json'' n \<Longrightarrow> holds_entry cd w' (DeliveredDir, n) e' \<Longrightarrow>
     \<exists>e. holds_entry cd w (DeliveredDir, n) e \<and> moved e e'"
  by (auto simp: tended_def holds_delivered option_rel_Some1 option_rel_Some2)

definition delivered_filed :: "'b codec \<Rightarrow> 'b world \<Rightarrow> bool" where
  "delivered_filed cd w \<longleftrightarrow>
     (\<forall>n e. has_ext ''json'' n \<longrightarrow> holds_entry cd w (DeliveredDir, n) e \<longrightarrow> n = sidecar_name (clip_id e))"

lemma delivered_filedD:
  "delivered_filed cd w \<Longrightarrow> has_ext ''json'' n \<Longrightarrow> holds_entry cd w (DeliveredDir, n) e \<Longrightarrow> n = sidecar_name (clip_id e)"
  unfolding delivered_filed_def by blast

lemma tended_filed: "tended cd w w' \<Longrightarrow> delivered_filed cd w \<Longrightarrow> delivered_filed cd w'"
  unfolding delivered_filed_def using tendedD(2) by (fastforce dest: moved_id)

text \<open>The skip set is sound: no id in it belongs to a record that still needs polling.\<close>

definition seen_ok :: "'b codec \<Rightarrow> 'b world \<Rightarrow> string set \<Rightarrow> bool" where
  "seen_ok cd w seen \<longleftrightarrow> [] \<notin> seen \<and>
     (\<forall>cid e. cid \<in> seen \<longrightarrow> holds_entry cd w (sidecar_at DeliveredDir cid) e \<longrightarrow> \<not> is_pollable e)"

lemma seen_ok_journal [simp]: "seen_ok cd (w\<lparr>journal := j\<rparr>) seen = seen_ok cd w seen"
  by (simp add: seen_ok_def holds_entry_def)

lemma seen_ok_insert:
  "seen_ok cd w seen \<Longrightarrow> cid \<noteq> [] \<Longrightarrow> holds_entry cd w (sidecar_at DeliveredDir cid) e \<Longrightarrow> \<not> is_pollable e \<Longrightarrow>
     seen_ok cd w (insert cid seen)"
  by (auto simp: seen_ok_def holds_entry_def)

lemma holds_entry_journal [simp]: "holds_entry cd (w\<lparr>journal := j\<rparr>) p e = holds_entry cd w p e"
  by (simp add: holds_entry_def)

lemma holds_entry_unique: "holds_entry cd w p e \<Longrightarrow> holds_entry cd w p e' \<Longrightarrow> e = e'"
  by (auto simp: holds_entry_def)

text \<open>One sidecar of \<open>delivered/\<close> is replaced by a record of the same upload.\<close>

definition replaced :: "'b codec \<Rightarrow> clip_queue_entry \<Rightarrow> 'b world \<Rightarrow> 'b world \<Rightarrow> bool" where
  "replaced cd e w w' \<longleftrightarrow> poll_frame {sidecar_name (clip_id e)} w w' \<and>
     holds_entry cd w' (sidecar_at DeliveredDir (clip_id e)) e"

lemma update_wlp:
  assumes "codec_ok cd"
  shows "wlp (update_delivered_sidecar cd e) (\<lambda>_ w'. replaced cd e w w') (\<lambda>_ w'. poll_frame {} w w') (poll_frame {} w) w"
proof -
  obtain b where "enc cd e = Some b" "dec cd b = Some e" using codec_enc [OF assms] by blast
  then show ?thesis
    by (auto simp: update_delivered_sidecar_def wlp_simps replaced_def poll_frame_def holds_entry_def has_ext_json_iff Let_def)
qed

lemma poll_frame_tended:
  assumes "poll_frame {n} w w'" "holds_entry cd w (DeliveredDir, n) e" "holds_entry cd w' (DeliveredDir, n) e'" "moved e e'"
  shows "tended cd w w'"
proof -
  have "rel_option moved (delivered_entry cd w k) (delivered_entry cd w' k)" if "has_ext ''json'' k" for k
    using assms that by (cases "k = n") (auto simp: poll_frame_def holds_delivered delivered_entry_def option.rel_refl)
  then show ?thesis using assms(1) by (simp add: tended_def poll_frame_def)
qed

lemma poll_frame_empty_tended: "poll_frame {} w w' \<Longrightarrow> tended cd w w'"
  by (auto simp: poll_frame_def tended_def delivered_entry_def option.rel_refl)

lemma replaced_tended:
  "replaced cd e' w w' \<Longrightarrow> holds_entry cd w (sidecar_at DeliveredDir (clip_id e')) e \<Longrightarrow> moved e e' \<Longrightarrow> tended cd w w'"
  unfolding replaced_def using poll_frame_tended by blast

lemma frame_look:
  "poll_frame N w w' \<Longrightarrow> cid \<noteq> [] \<Longrightarrow> sidecar_name cid \<notin> N \<Longrightarrow>
     look w' (sidecar_at DeliveredDir cid) = look w (sidecar_at DeliveredDir cid)"
  unfolding poll_frame_def using has_ext_json_iff by blast

lemma frame_seen_ok:
  assumes "poll_frame {sidecar_name cid} w w'" "seen_ok cd w seen"
    and "\<And>e. holds_entry cd w' (sidecar_at DeliveredDir cid) e \<Longrightarrow> cid \<in> seen \<Longrightarrow> \<not> is_pollable e"
  shows "seen_ok cd w' seen"
  unfolding seen_ok_def
proof (intro conjI allI impI)
  show "[] \<notin> seen" using assms(2) by (simp add: seen_ok_def)
next
  fix k e assume k: "k \<in> seen" "holds_entry cd w' (sidecar_at DeliveredDir k) e"
  show "\<not> is_pollable e"
  proof (cases "k = cid")
    case False
    have "k \<noteq> []" using assms(2) k(1) by (auto simp: seen_ok_def)
    then have "holds_entry cd w (sidecar_at DeliveredDir k) e"
      using frame_look [OF assms(1), of k] k(2) False by (simp add: holds_entry_def)
    then show ?thesis using assms(2) k(1) by (auto simp: seen_ok_def)
  qed (use assms(3) k in auto)
qed

lemma frame_empty_seen_ok:
  assumes "poll_frame {} w w'" "seen_ok cd w seen"
  shows "seen_ok cd w' seen"
proof -
  have "holds_entry cd w' (sidecar_at DeliveredDir cid) e = holds_entry cd w (sidecar_at DeliveredDir cid) e"
    if "cid \<in> seen" for cid e
  proof -
    have "cid \<noteq> []" using assms(2) that by (auto simp: seen_ok_def)
    then show ?thesis using frame_look [OF assms(1), of cid] by (simp add: holds_entry_def)
  qed
  then show ?thesis using assms(2) by (auto simp: seen_ok_def)
qed

lemma replaced_seen_ok:
  "replaced cd e w w' \<Longrightarrow> seen_ok cd w seen \<Longrightarrow> (clip_id e \<in> seen \<Longrightarrow> \<not> is_pollable e) \<Longrightarrow> seen_ok cd w' seen"
  unfolding replaced_def by (rule frame_seen_ok) (auto dest: holds_entry_unique)

lemma replaced_seen_insert:
  "replaced cd e w w' \<Longrightarrow> seen_ok cd w seen \<Longrightarrow> clip_id e \<noteq> [] \<Longrightarrow> \<not> is_pollable e \<Longrightarrow>
     seen_ok cd w' (insert (clip_id e) seen)"
  using replaced_seen_ok [of cd e w w' seen] by (auto simp: replaced_def intro: seen_ok_insert)

text \<open>Moving an unreadable delivered sidecar aside.\<close>

lemma quarantine_delivered:
  assumes "has_ext ''json'' n"
  shows "wlp (quarantine_corrupt (DeliveredDir, n))
     (\<lambda>_ w'. poll_frame {n} w w' \<and> look w' (DeliveredDir, n) \<in> {None, look w (DeliveredDir, n)})
     (\<lambda>_ w'. poll_frame {n} w w' \<and> look w' (DeliveredDir, n) \<in> {None, look w (DeliveredDir, n)})
     (\<lambda>w'. poll_frame {n} w w' \<and> look w' (DeliveredDir, n) \<in> {None, look w (DeliveredDir, n)}) w"
proof -
  obtain c where c: "c \<noteq> []" "n = sidecar_name c" using assms by (auto simp: has_ext_json_iff)
  then show ?thesis
    by (auto simp: quarantine_corrupt_def Let_def wlp_simps poll_frame_def has_ext_json_iff split: option.split)
qed

lemma quarantined_ok:
  assumes "poll_frame {n} w w'" "look w' (DeliveredDir, n) \<in> {None, look w (DeliveredDir, n)}"
    and "delivered_entry cd w n = None" "has_ext ''json'' n"
  shows "tended cd w w'" "seen_ok cd w seen \<Longrightarrow> seen_ok cd w' seen"
proof -
  have n: "delivered_entry cd w' n = None" using assms(2,3) by (auto simp: delivered_entry_def)
  have "rel_option moved (delivered_entry cd w k) (delivered_entry cd w' k)" if "has_ext ''json'' k" for k
    using assms that n by (cases "k = n") (auto simp: poll_frame_def delivered_entry_def option.rel_refl)
  then show "tended cd w w'" using assms(1) by (simp add: tended_def poll_frame_def)
  obtain c where "n = sidecar_name c" using assms(4) by (auto simp: has_ext_json_iff)
  then show "seen_ok cd w' seen" if "seen_ok cd w seen"
    using frame_seen_ok [OF _ that, of c w'] assms(1) n by (simp add: holds_delivered)
qed

section \<open>The scan under faults\<close>

definition scan_post ::
  "('b, 'u, 'c) classify_poller \<Rightarrow> (string \<Rightarrow> poll_clock) \<Rightarrow> string list \<Rightarrow> 'b world
     \<Rightarrow> string set \<times> (poller_error + clip_queue_entry list) \<Rightarrow> 'b world \<Rightarrow> bool" where
  "scan_post pl clk ns w = (\<lambda>(seen', r) w'.
     tended (pl_codec pl) w w' \<and> poll_frame (set ns) w w' \<and> seen_ok (pl_codec pl) w' seen' \<and>
     (case r of Inl _ \<Rightarrow> True | Inr es \<Rightarrow> distinct (map clip_id es) \<and>
        (\<forall>e \<in> set es. clip_id e \<noteq> [] \<and> sidecar_name (clip_id e) \<in> set ns \<and> is_pollable e \<and>
           \<not> classify_budget_exhausted (c_budget (clk (sidecar_name (clip_id e)))) e \<and>
           holds_entry (pl_codec pl) w' (sidecar_at DeliveredDir (clip_id e)) e)))"

lemma scan_post_step:
  assumes "scan_post pl clk ns w1 x w'" "tended (pl_codec pl) w w1" "poll_frame {n} w w1"
  shows "scan_post pl clk (n # ns) w x w'"
  using assms tended_trans [OF assms(2)] poll_frame_trans [OF assms(3), of "set ns" w' "set (n # ns)"]
  by (auto simp: scan_post_def split: sum.splits)

lemma scan_post_keep:
  assumes "scan_post pl clk ns w (seen', r) w'" "n \<notin> set ns" "n = sidecar_name (clip_id e)" "clip_id e \<noteq> []"
    and "is_pollable e" "\<not> classify_budget_exhausted (c_budget (clk n)) e"
    and "holds_entry (pl_codec pl) w (DeliveredDir, n) e"
  shows "scan_post pl clk (n # ns) w (seen', map_sum id ((#) e) r) w'"
proof -
  have "holds_entry (pl_codec pl) w' (DeliveredDir, n) e"
    using assms(1-4,7) by (auto simp: scan_post_def poll_frame_def holds_entry_def has_ext_json_iff)
  moreover have "poll_frame (set (n # ns)) w w'"
    using assms(1) by (auto simp: scan_post_def poll_frame_def)
  ultimately show ?thesis using assms by (cases r) (auto simp: scan_post_def)
qed

lemma uniform_emit_lost [simp]: "uniform (emit_classify_lost e kind st)"
  by (simp add: emit_classify_lost_def split: option.split)

lemma uniform_scan_loop [simp]: "uniform (scan_loop pl clk seen ns)"
  by (induction ns arbitrary: seen) (auto split: queue_error.split prod.split)

lemma wlp_emit_lost [wlp_simps]:
  "wlp (emit_classify_lost e kind st) Q E C =
     (\<lambda>w. case classify_task_id e of None \<Rightarrow> Q () w
      | Some tid \<Rightarrow> Q () (w\<lparr>journal := journal w @ [ClassifyEv (ClassifyLost (clip_id e) tid kind st)]\<rparr>))"
  by (simp add: fun_eq_iff emit_classify_lost_def wlp_simps split: option.split)

lemma scan_loop_wlp:
  assumes "codec_ok (pl_codec pl)" "delivered_filed (pl_codec pl) w" "seen_ok (pl_codec pl) w seen" "distinct ns"
  shows "wlp (scan_loop pl clk seen ns) (scan_post pl clk ns w) (\<lambda>_ _. False) (tended (pl_codec pl) w) w"
  using assms(2-4)
proof (induction ns arbitrary: w seen)
  case Nil
  then show ?case by (simp add: wlp_simps scan_post_def)
next
  case (Cons n ns)
  let ?cd = "pl_codec pl"
  have skip: "wlp (scan_loop pl clk seen' ns) (scan_post pl clk (n # ns) w) (\<lambda>_ _. False) (tended ?cd w) w1"
    if "tended ?cd w w1" "poll_frame {n} w w1" "seen_ok ?cd w1 seen'" for seen' w1
    by (rule wlp_mono [OF Cons.IH])
      (use that Cons.prems tended_filed scan_post_step tended_trans in auto)
  have stop: "scan_post pl clk (n # ns) w (seen, Inl err) w1" if "poll_frame {} w w1" for err w1
    using poll_frame_empty_tended [OF that] frame_empty_seen_ok [OF that Cons.prems(2)] that
    by (simp add: scan_post_def poll_frame_def)
  show ?case
  proof (cases "has_ext ''json'' n \<and> file_stem n \<notin> seen")
    case False
    then show ?thesis using stop [of w] by (auto simp: wlp_simps wlp_match skip Cons.prems)
  next
    case js: True
    show ?thesis
    proof (cases "delivered_entry ?cd w n")
      case None
      have q: "wlp (quarantine_corrupt (DeliveredDir, n)) (\<lambda>_ w1. wlp (scan_loop pl clk seen ns)
           (scan_post pl clk (n # ns) w) (\<lambda>_ _. False) (tended ?cd w) w1)
         (\<lambda>_ w1. wlp (scan_loop pl clk seen ns) (scan_post pl clk (n # ns) w) (\<lambda>_ _. False) (tended ?cd w)
            (w1\<lparr>journal := journal w1 @ [ev]\<rparr>)) (tended ?cd w) (w\<lparr>journal := j\<rparr>)" for j ev
        by (rule wlp_mono [OF quarantine_delivered])
          (use js quarantined_ok [OF _ _ None] Cons.prems in \<open>auto intro!: skip\<close>)
      show ?thesis
        using js None stop [of w]
        by (auto simp: wlp_simps wlp_match skip Cons.prems delivered_entry_def q
            split: option.splits queue_error.split)
    next
      case (Some e)
      then have holds: "holds_entry ?cd w (DeliveredDir, n) e" by (simp add: holds_delivered)
      have n: "n = sidecar_name (clip_id e)" using delivered_filedD [OF Cons.prems(1)] js holds by blast
      have c: "clip_id e \<noteq> []" using js n has_ext_json_iff [of n] by auto
      obtain b where b: "look w (DeliveredDir, n) = Some b" "dec ?cd b = Some e"
        using holds by (auto simp: holds_entry_def)
      have known: "wlp (scan_loop pl clk (insert (clip_id e) seen) ns) (scan_post pl clk (n # ns) w) (\<lambda>_ _. False) (tended ?cd w) w"
        if "\<not> is_pollable e"
        using skip seen_ok_insert [OF Cons.prems(2) c] holds that n by simp
      have unread: "wlp (scan_loop pl clk seen ns) (scan_post pl clk (n # ns) w) (\<lambda>_ _. False) (tended ?cd w)
          (w\<lparr>journal := j\<rparr>)" for j
        using skip Cons.prems by simp
      have later: "wlp (scan_loop pl clk seen ns) (\<lambda>(seen', r). scan_post pl clk (n # ns) w (seen', map_sum id ((#) e) r))
          (\<lambda>_ _. False) (tended ?cd w) w" if "is_pollable e" "\<not> classify_budget_exhausted (c_budget (clk n)) e"
        by (rule wlp_mono [OF Cons.IH])
          (use Cons.prems that n c holds in \<open>auto intro: scan_post_keep\<close>)
      have lost: "wlp (update_delivered_sidecar ?cd (mark_lost t e))
         (\<lambda>_ w1. wlp (bind_io (emit_classify_lost e ''poll_timeout'' None) (\<lambda>_. scan_loop pl clk (insert (clip_id e) seen) ns))
            (scan_post pl clk (n # ns) w) (\<lambda>_ _. False) (tended ?cd w) w1)
         (\<lambda>err w1. scan_post pl clk (n # ns) w (seen, Inl (PollQueue err)) w1) (tended ?cd w) w" if "is_pollable e" for t
      proof (rule wlp_mono [OF update_wlp [OF assms(1)]])
        fix w1 assume r: "replaced ?cd (mark_lost t e) w w1"
        have "tended ?cd w w1" using replaced_tended [OF r, of e] holds n that by (simp add: moved_def)
        moreover have "poll_frame {n} w w1" using r n by (simp add: replaced_def)
        moreover have "seen_ok ?cd w1 (insert (clip_id e) seen)"
          using replaced_seen_insert [OF r Cons.prems(2)] c by simp
        ultimately show "wlp (bind_io (emit_classify_lost e ''poll_timeout'' None) (\<lambda>_. scan_loop pl clk (insert (clip_id e) seen) ns))
            (scan_post pl clk (n # ns) w) (\<lambda>_ _. False) (tended ?cd w) w1"
          by (simp add: wlp_simps skip split: option.split)
      qed (auto intro: stop poll_frame_empty_tended)
      show ?thesis
        using js b stop [of w] known unread later lost
        by (auto simp: wlp_simps wlp_match case_prod_unfold split: queue_error.split)
    qed
  qed
qed

lemma uniform_scan [simp]: "uniform (scan_non_terminal pl clk seen)"
  by (simp add: scan_non_terminal_def)

lemma uniform_poll_one [simp]: "uniform (poll_one pl clk seen e)"
  by (auto simp: poll_one_def Let_def split: option.split sum.split failure_kind.split)

lemma uniform_poll_entries [simp]: "uniform (poll_entries pl clk quota polled seen es)"
  by (induction es arbitrary: quota polled seen) (auto split: prod.split sum.split)

lemma uniform_poll_round [simp]: "uniform (poll_round pl clk quota seen)"
  by (auto simp: poll_round_def split: prod.split sum.split)

lemma scan_wlp:
  assumes "codec_ok (pl_codec pl)" "wf_world w" "delivered_filed (pl_codec pl) w" "seen_ok (pl_codec pl) w seen"
  shows "wlp (scan_non_terminal pl clk seen) (scan_post pl clk (listing DeliveredDir (files w)) w) (\<lambda>_ _. False)
     (tended (pl_codec pl) w) w"
  using scan_loop_wlp [OF assms(1,3,4) distinct_listing [OF assms(2)]] assms(4)
  by (simp add: scan_non_terminal_def wlp_match wlp_simps scan_post_def)

section \<open>Polling under faults\<close>

lemma poll_one_wlp:
  assumes "codec_ok (pl_codec pl)" "seen_ok (pl_codec pl) w seen" "clip_id e \<noteq> []" "is_pollable e"
    and "holds_entry (pl_codec pl) w (sidecar_at DeliveredDir (clip_id e)) e"
  shows "wlp (poll_one pl clk seen e)
     (\<lambda>(seen', _) w'. tended (pl_codec pl) w w' \<and> poll_frame {sidecar_name (clip_id e)} w w' \<and> seen_ok (pl_codec pl) w' seen')
     (\<lambda>_ _. False) (tended (pl_codec pl) w) w"
proof -
  let ?cd = "pl_codec pl"
  have fresh: "clip_id e \<notin> seen" using assms(2,4,5) by (auto simp: seen_ok_def)
  have written: "wlp (update_delivered_sidecar ?cd u)
      (\<lambda>_ w'. tended ?cd w w' \<and> poll_frame {sidecar_name (clip_id e)} w w' \<and> seen_ok ?cd w' seen \<and>
         (\<not> is_pollable u \<longrightarrow> seen_ok ?cd w' (insert (clip_id e) seen)))
      (\<lambda>_ w'. tended ?cd w w' \<and> poll_frame {sidecar_name (clip_id e)} w w' \<and> seen_ok ?cd w' seen) (tended ?cd w) w"
    if "same_upload e u" for u
  proof (rule wlp_mono [OF update_wlp [OF assms(1)]])
    have c: "clip_id u = clip_id e" using that by (simp add: same_upload_fields)
    fix w' assume r: "replaced ?cd u w w'"
    then show "tended ?cd w w' \<and> poll_frame {sidecar_name (clip_id e)} w w' \<and> seen_ok ?cd w' seen \<and>
         (\<not> is_pollable u \<longrightarrow> seen_ok ?cd w' (insert (clip_id e) seen))"
      using replaced_tended [OF r, of e] replaced_seen_ok [OF r assms(2)] replaced_seen_insert [OF r assms(2)]
        assms(3,4,5) that c fresh by (auto simp: replaced_def moved_def)
  qed (auto intro: poll_frame_empty_tended frame_empty_seen_ok [OF _ assms(2)] simp: poll_frame_def)
  have polled: "\<not> is_pollable (mark_polled task e)" if "is_terminal_status (task_status task)" for task
    using that by (simp add: is_pollable_def mark_polled_def)
  obtain tid where tid: "classify_task_id e = Some tid" using assms(4) by (auto simp: is_pollable_def)
  have ok: "wlp (update_delivered_sidecar ?cd (mark_polled task e)) Q E C w"
    if "\<And>w'. tended ?cd w w' \<and> poll_frame {sidecar_name (clip_id e)} w w' \<and> seen_ok ?cd w' seen \<and>
         (\<not> is_pollable (mark_polled task e) \<longrightarrow> seen_ok ?cd w' (insert (clip_id e) seen)) \<Longrightarrow> Q () w'"
      "\<And>x w'. tended ?cd w w' \<and> poll_frame {sidecar_name (clip_id e)} w w' \<and> seen_ok ?cd w' seen \<Longrightarrow> E x w'"
      "\<And>w'. tended ?cd w w' \<Longrightarrow> C w'" for task Q E C
    by (rule wlp_mono [OF written]) (use that in auto)
  have gone: "wlp (update_delivered_sidecar ?cd (mark_lost t e)) Q E C w"
    if "\<And>w'. tended ?cd w w' \<and> poll_frame {sidecar_name (clip_id e)} w w' \<and> seen_ok ?cd w' (insert (clip_id e) seen) \<Longrightarrow> Q () w'"
      "\<And>x w'. tended ?cd w w' \<and> poll_frame {sidecar_name (clip_id e)} w w' \<and> seen_ok ?cd w' seen \<Longrightarrow> E x w'"
      "\<And>w'. tended ?cd w w' \<Longrightarrow> C w'" for t Q E C
    by (rule wlp_mono [OF written]) (use that in auto)
  show ?thesis
    using assms(2) polled
    by (auto simp: poll_one_def Let_def tid wlp_simps wlp_match intro!: ok gone
        split: sum.split failure_kind.split)
qed

lemma poll_entries_wlp:
  assumes "codec_ok (pl_codec pl)" "seen_ok (pl_codec pl) w seen" "distinct (map clip_id es)"
    and "\<And>e. e \<in> set es \<Longrightarrow> clip_id e \<noteq> [] \<and> is_pollable e \<and> holds_entry (pl_codec pl) w (sidecar_at DeliveredDir (clip_id e)) e"
  shows "wlp (poll_entries pl clk quota polled seen es) (\<lambda>(seen', _) w'. tended (pl_codec pl) w w' \<and> seen_ok (pl_codec pl) w' seen')
     (\<lambda>_ _. False) (tended (pl_codec pl) w) w"
  using assms(2-4)
proof (induction es arbitrary: w seen quota polled)
  case Nil
  then show ?case by (simp add: wlp_simps)
next
  case (Cons e es)
  let ?cd = "pl_codec pl"
  have e: "clip_id e \<noteq> []" "is_pollable e" "holds_entry ?cd w (sidecar_at DeliveredDir (clip_id e)) e"
    using Cons.prems(3) [of e] by auto
  have rest: "wlp (poll_entries pl clk q k seen' es) (\<lambda>(s, _) w'. tended ?cd w w' \<and> seen_ok ?cd w' s) (\<lambda>_ _. False) (tended ?cd w) w1"
    if t: "tended ?cd w w1" and f: "poll_frame {sidecar_name (clip_id e)} w w1" and s: "seen_ok ?cd w1 seen'" for q k seen' w1
  proof (rule wlp_mono [OF Cons.IH [OF s]])
    show "distinct (map clip_id es)" using Cons.prems(2) by simp
    show "clip_id x \<noteq> [] \<and> is_pollable x \<and> holds_entry ?cd w1 (sidecar_at DeliveredDir (clip_id x)) x" if "x \<in> set es" for x
    proof -
      have x: "clip_id x \<noteq> []" "is_pollable x" "holds_entry ?cd w (sidecar_at DeliveredDir (clip_id x)) x"
        using Cons.prems(3) [of x] that by auto
      have "clip_id x \<in> set (map clip_id es)" using that by simp
      then have "clip_id x \<noteq> clip_id e" using Cons.prems(2) by (metis distinct.simps(2) list.simps(9))
      then show ?thesis using frame_look [OF f x(1)] x by (simp add: holds_entry_def)
    qed
  qed (use tended_trans [OF t] in auto)
  show ?case
  proof (cases "quota = Some 0")
    case True
    then show ?thesis using Cons.prems by (simp add: wlp_simps)
  next
    case False
    then show ?thesis
      by (simp add: wlp_simps)
        (rule wlp_mono [OF poll_one_wlp [OF assms(1) Cons.prems(1) e]], auto simp: wlp_simps rest split: sum.split)
  qed
qed

lemma poll_round_wlp:
  assumes "codec_ok (pl_codec pl)" "wf_world w" "delivered_filed (pl_codec pl) w" "seen_ok (pl_codec pl) w seen"
  shows "wlp (poll_round pl clk quota seen) (\<lambda>(seen', _) w'. tended (pl_codec pl) w w' \<and> seen_ok (pl_codec pl) w' seen')
     (\<lambda>_ _. False) (tended (pl_codec pl) w) w"
proof -
  let ?cd = "pl_codec pl"
  have rest: "wlp (poll_entries pl clk quota 0 seen' es) (\<lambda>(s, _) w'. tended ?cd w w' \<and> seen_ok ?cd w' s) (\<lambda>_ _. False) (tended ?cd w) w1"
    if p: "scan_post pl clk ns w (seen', Inr es) w1" for ns seen' es w1
    by (rule wlp_mono [OF poll_entries_wlp [OF assms(1)]])
      (use p tended_trans in \<open>auto simp: scan_post_def\<close>)
  have failed: "tended ?cd w w1 \<and> seen_ok ?cd w1 seen'" if "scan_post pl clk ns w (seen', Inl err) w1" for ns seen' err w1
    using that by (simp add: scan_post_def)
  show ?thesis
    by (simp add: poll_round_def wlp_simps)
      (rule wlp_mono [OF scan_wlp [OF assms]], auto simp: wlp_simps rest dest: failed split: sum.split)
qed

section \<open>The scan without faults\<close>

text \<open>
  The reference scan, which knows no skip set: the record a file contributes to the round,
  and what becomes of the record of a file.
\<close>

definition due_entry :: "('b, 'u, 'c) classify_poller \<Rightarrow> (string \<Rightarrow> poll_clock) \<Rightarrow> 'b world \<Rightarrow> string \<Rightarrow> clip_queue_entry option" where
  "due_entry pl clk w n =
     (if has_ext ''json'' n then
        (case delivered_entry (pl_codec pl) w n of
           None \<Rightarrow> None
         | Some e \<Rightarrow> if is_pollable e \<and> \<not> classify_budget_exhausted (c_budget (clk n)) e then Some e else None)
      else None)"

definition given_up :: "('b, 'u, 'c) classify_poller \<Rightarrow> (string \<Rightarrow> poll_clock) \<Rightarrow> 'b world \<Rightarrow> string \<Rightarrow> clip_queue_entry option" where
  "given_up pl clk w n =
     map_option (\<lambda>e. if is_pollable e \<and> classify_budget_exhausted (c_budget (clk n)) e
                      then mark_lost (c_lost (clk n)) e else e) (delivered_entry (pl_codec pl) w n)"

definition scan_ref ::
  "('b, 'u, 'c) classify_poller \<Rightarrow> (string \<Rightarrow> poll_clock) \<Rightarrow> string list \<Rightarrow> 'b world
     \<Rightarrow> (unit, string set \<times> (poller_error + clip_queue_entry list)) res \<times> 'b world \<times> 'b fault list \<Rightarrow> bool" where
  "scan_ref pl clk ns w = (\<lambda>(r, w', fs').
     (\<exists>seen'. r = Ok (seen', Inr (List.map_filter (due_entry pl clk w) ns))) \<and> fs' = [] \<and>
     (\<forall>n. has_ext ''json'' n \<longrightarrow> delivered_entry (pl_codec pl) w' n =
        (if n \<in> set ns then given_up pl clk w n else delivered_entry (pl_codec pl) w n)))"

lemma scan_ref_step:
  assumes "scan_ref pl clk ns w1 x" "n \<notin> set ns" "due_entry pl clk w n = None"
    and "\<And>k. has_ext ''json'' k \<Longrightarrow> k \<noteq> n \<Longrightarrow> delivered_entry (pl_codec pl) w1 k = delivered_entry (pl_codec pl) w k"
    and "has_ext ''json'' n \<Longrightarrow> delivered_entry (pl_codec pl) w1 n = given_up pl clk w n"
  shows "scan_ref pl clk (n # ns) w x"
proof -
  have due: "due_entry pl clk w1 k = due_entry pl clk w k" "has_ext ''json'' k \<Longrightarrow> given_up pl clk w1 k = given_up pl clk w k"
    if "k \<in> set ns" for k
  proof -
    have "k \<noteq> n" using that assms(2) by auto
    then show "due_entry pl clk w1 k = due_entry pl clk w k" "has_ext ''json'' k \<Longrightarrow> given_up pl clk w1 k = given_up pl clk w k"
      using assms(4) [of k] by (simp_all add: due_entry_def given_up_def)
  qed
  have "List.map_filter (due_entry pl clk w1) ns = List.map_filter (due_entry pl clk w) (n # ns)"
    using due(1) assms(3) by (simp add: List.map_filter_def cong: filter_cong map_cong)
  then show ?thesis
    using assms(1,2,4,5) due(2) by (auto simp: scan_ref_def split: prod.splits)
qed

lemma run_update:
  assumes "codec_ok cd"
  shows "\<exists>w'. update_delivered_sidecar cd e w [] = (Ok (), w', []) \<and> replaced cd e w w'"
proof -
  obtain b where b: "enc cd e = Some b" "dec cd b = Some e" using codec_enc [OF assms] by blast
  then have run: "\<exists>w'. update_delivered_sidecar cd e w [] = (Ok (), w', [])"
    by (simp add: update_delivered_sidecar_def run_simps)
  then show ?thesis using wlp_run [OF update_wlp [OF assms]] by fastforce
qed

lemma replaced_entry:
  assumes "replaced cd e w w'" "has_ext ''json'' k"
  shows "delivered_entry cd w' k = (if k = sidecar_name (clip_id e) then Some e else delivered_entry cd w k)"
  using assms by (auto simp: replaced_def poll_frame_def holds_delivered [symmetric]) (simp add: delivered_entry_def)

lemma run_quarantine_delivered:
  assumes "has_ext ''json'' n"
  shows "\<exists>w' r. quarantine_corrupt (DeliveredDir, n) w [] = (r, w', []) \<and> r \<noteq> Crashed \<and> poll_frame {n} w w' \<and>
    look w' (DeliveredDir, n) \<in> {None, look w (DeliveredDir, n)}"
proof -
  have "\<exists>r w'. quarantine_corrupt (DeliveredDir, n) w [] = (r, w', []) \<and> r \<noteq> Crashed"
    by (auto simp: quarantine_corrupt_def Let_def run_simps split: option.split)
  then obtain r w' where run: "quarantine_corrupt (DeliveredDir, n) w [] = (r, w', [])" "r \<noteq> Crashed" by blast
  then show ?thesis
    using wlp_run [OF quarantine_delivered [OF assms] run(1)] by (cases r) auto
qed

lemma file_stem_sidecar [simp]: "cid \<noteq> [] \<Longrightarrow> file_stem (sidecar_name cid) = cid"
  by (simp add: sidecar_name_def name_simps)

lemma delivered_entry_journal [simp]: "delivered_entry cd (w\<lparr>journal := j\<rparr>) n = delivered_entry cd w n"
  by (simp add: delivered_entry_def)

lemma scan_ref_keep:
  assumes "scan_ref pl clk ns w (scan_loop pl clk seen ns w [])" "n \<notin> set ns" "has_ext ''json'' n"
    and "delivered_entry (pl_codec pl) w n = Some e" "is_pollable e" "\<not> classify_budget_exhausted (c_budget (clk n)) e"
  shows "scan_ref pl clk (n # ns) w
    (bind_io (scan_loop pl clk seen ns) (\<lambda>(seen', r). ret (seen', map_sum id ((#) e) r)) w [])"
  using assms
  by (auto simp: scan_ref_def run_simps List.map_filter_simps due_entry_def given_up_def)

text \<open>The rest of the scan after the sidecar \<open>n\<close>, which is not polled in this round, has been dealt with.\<close>

definition scan_goes_on :: "('b, 'u, 'c) classify_poller \<Rightarrow> (string \<Rightarrow> poll_clock) \<Rightarrow> string \<Rightarrow> string list \<Rightarrow> 'b world \<Rightarrow> bool" where
  "scan_goes_on pl clk n ns w \<longleftrightarrow>
     (\<forall>seen' w1. tended (pl_codec pl) w w1 \<longrightarrow> seen_ok (pl_codec pl) w1 seen' \<longrightarrow> due_entry pl clk w n = None \<longrightarrow>
        (\<forall>k. has_ext ''json'' k \<longrightarrow> k \<noteq> n \<longrightarrow> delivered_entry (pl_codec pl) w1 k = delivered_entry (pl_codec pl) w k) \<longrightarrow>
        (has_ext ''json'' n \<longrightarrow> delivered_entry (pl_codec pl) w1 n = given_up pl clk w n) \<longrightarrow>
        scan_ref pl clk (n # ns) w (scan_loop pl clk seen' ns w1 []))"

lemma scan_goes_onD:
  assumes "scan_goes_on pl clk n ns w" "tended (pl_codec pl) w w1" "seen_ok (pl_codec pl) w1 seen'" "due_entry pl clk w n = None"
    "\<And>k. has_ext ''json'' k \<Longrightarrow> k \<noteq> n \<Longrightarrow> delivered_entry (pl_codec pl) w1 k = delivered_entry (pl_codec pl) w k"
    "has_ext ''json'' n \<Longrightarrow> delivered_entry (pl_codec pl) w1 n = given_up pl clk w n"
  shows "scan_ref pl clk (n # ns) w (scan_loop pl clk seen' ns w1 [])"
  using assms unfolding scan_goes_on_def by blast

lemma scan_corrupt_step:
  assumes go: "scan_goes_on pl clk n ns w" and seen: "seen_ok (pl_codec pl) w seen"
    and corrupt: "has_ext ''json'' n" "file_stem n \<notin> seen" "delivered_entry (pl_codec pl) w n = None"
  shows "scan_ref pl clk (n # ns) w (scan_loop pl clk seen (n # ns) w [])"
proof -
  let ?cd = "pl_codec pl"
  have none: "due_entry pl clk w n = None" "given_up pl clk w n = None"
    using corrupt by (simp_all add: due_entry_def given_up_def)
  show ?thesis
  proof (cases "look w (DeliveredDir, n)")
    case None
    then show ?thesis
      using corrupt none scan_goes_onD [OF go, where seen' = seen and ?w1.0 = "w\<lparr>journal := j\<rparr>" for j] seen
      by (simp add: run_simps)
  next
    case (Some b)
    then have b: "dec ?cd b = None" using corrupt(3) by (simp add: delivered_entry_def)
    define w0 where "w0 = w\<lparr>journal := journal w @ [QueueEv (QueueCorruptSidecar (DeliveredDir, n))]\<rparr>"
    obtain r w1 where q: "quarantine_corrupt (DeliveredDir, n) w0 [] = (r, w1, [])" "r \<noteq> Crashed"
      "poll_frame {n} w w1" "look w1 (DeliveredDir, n) \<in> {None, look w (DeliveredDir, n)}"
      using run_quarantine_delivered [OF corrupt(1), of w0] unfolding w0_def by auto
    have q4: "tended ?cd w w1" "seen_ok ?cd w1 seen"
      using quarantined_ok [OF q(3,4) corrupt(3,1)] seen by auto
    have "delivered_entry ?cd w1 n = None" using q(4) corrupt(3) by (auto simp: delivered_entry_def)
    moreover have "delivered_entry ?cd w1 k = delivered_entry ?cd w k" if "has_ext ''json'' k" "k \<noteq> n" for k
      using q(3) that by (simp add: poll_frame_def delivered_entry_def)
    ultimately have on: "scan_ref pl clk (n # ns) w (scan_loop pl clk seen ns (w1\<lparr>journal := j\<rparr>) [])" for j
      using scan_goes_onD [OF go, where seen' = seen and ?w1.0 = "w1\<lparr>journal := j\<rparr>"] q4 none by simp
    then show ?thesis
      using corrupt Some b q(1,2) on [of "journal w1"]
      by (cases r) (auto simp: run_simps w0_def)
  qed
qed

lemma scan_lost_step:
  assumes go: "scan_goes_on pl clk n ns w" and codec: "codec_ok (pl_codec pl)" and seen: "seen_ok (pl_codec pl) w seen"
    and entry: "has_ext ''json'' n" "file_stem n \<notin> seen" "delivered_entry (pl_codec pl) w n = Some e"
    and n: "n = sidecar_name (clip_id e)" and c: "clip_id e \<noteq> []"
    and lost: "is_pollable e" "classify_budget_exhausted (c_budget (clk n)) e"
  shows "scan_ref pl clk (n # ns) w (scan_loop pl clk seen (n # ns) w [])"
proof -
  let ?cd = "pl_codec pl"
  obtain b where b: "look w (DeliveredDir, n) = Some b" "dec ?cd b = Some e"
    using entry(3) by (auto simp: delivered_entry_def bind_eq_Some_conv)
  have holds: "holds_entry ?cd w (DeliveredDir, n) e" using entry(3) by (simp add: holds_delivered)
  obtain w1 where u: "update_delivered_sidecar ?cd (mark_lost (c_lost (clk n)) e) w [] = (Ok (), w1, [])"
    "replaced ?cd (mark_lost (c_lost (clk n)) e) w w1"
    using run_update [OF codec] by blast
  have "tended ?cd w w1" "seen_ok ?cd w1 (insert (clip_id e) seen)"
    using replaced_tended [OF u(2), of e] replaced_seen_insert [OF u(2) seen] holds n c lost
    by (auto simp: moved_def)
  then have on: "scan_ref pl clk (n # ns) w (scan_loop pl clk (insert (clip_id e) seen) ns (w1\<lparr>journal := j\<rparr>) [])" for j
    using scan_goes_onD [OF go, where seen' = "insert (clip_id e) seen" and ?w1.0 = "w1\<lparr>journal := j\<rparr>"] lost entry(3)
      replaced_entry [OF u(2)] n by (simp add: due_entry_def given_up_def)
  then show ?thesis
    using lost entry b u(1) on [of "journal w1"]
    by (auto simp: run_simps emit_classify_lost_def split: option.split)
qed

lemma run_scan_loop:
  assumes "codec_ok (pl_codec pl)" "delivered_filed (pl_codec pl) w" "seen_ok (pl_codec pl) w seen" "distinct ns"
  shows "scan_ref pl clk ns w (scan_loop pl clk seen ns w [])"
  using assms(2-4)
proof (induction ns arbitrary: w seen)
  case Nil
  then show ?case by (simp add: scan_ref_def run_simps List.map_filter_simps)
next
  case (Cons n ns)
  let ?cd = "pl_codec pl"
  have dist: "n \<notin> set ns" "distinct ns" using Cons.prems(3) by auto
  have go: "scan_goes_on pl clk n ns w"
    unfolding scan_goes_on_def
    by (intro allI impI, rule scan_ref_step [OF Cons.IH [OF tended_filed [OF _ Cons.prems(1)] _ dist(2)] dist(1)]) auto
  note skip = scan_goes_onD [OF go]
  consider (foreign) "\<not> has_ext ''json'' n" | (known) "has_ext ''json'' n" "file_stem n \<in> seen"
    | (corrupt) "has_ext ''json'' n" "file_stem n \<notin> seen" "delivered_entry ?cd w n = None"
    | (entry) e where "has_ext ''json'' n" "file_stem n \<notin> seen" "delivered_entry ?cd w n = Some e"
    by (cases "delivered_entry ?cd w n") auto
  then show ?case
  proof cases
    case foreign
    then show ?thesis using skip [OF tended_refl Cons.prems(2)] by (simp add: run_simps due_entry_def)
  next
    case known
    have "\<not> is_pollable e" if "delivered_entry ?cd w n = Some e" for e
      using known Cons.prems(1,2) that delivered_filedD [of ?cd w n e]
      by (auto simp: seen_ok_def holds_delivered has_ext_json_iff)
    then have "due_entry pl clk w n = None" "given_up pl clk w n = delivered_entry ?cd w n"
      by (cases "delivered_entry ?cd w n"; simp add: due_entry_def given_up_def)+
    then show ?thesis using known skip [OF tended_refl Cons.prems(2)] by (simp add: run_simps)
  next
    case corrupt
    then show ?thesis using scan_corrupt_step [OF go Cons.prems(2)] by simp
  next
    case entry
    obtain b where b: "look w (DeliveredDir, n) = Some b" "dec ?cd b = Some e"
      using entry(3) by (auto simp: delivered_entry_def bind_eq_Some_conv)
    have holds: "holds_entry ?cd w (DeliveredDir, n) e" using entry(3) by (simp add: holds_delivered)
    have n: "n = sidecar_name (clip_id e)" using delivered_filedD [OF Cons.prems(1) entry(1) holds] .
    have c: "clip_id e \<noteq> []" using entry(1) n has_ext_json_iff [of n] by auto
    consider (settled) "\<not> is_pollable e" | (lost) "is_pollable e" "classify_budget_exhausted (c_budget (clk n)) e"
      | (due) "is_pollable e" "\<not> classify_budget_exhausted (c_budget (clk n)) e" by blast
    then show ?thesis
    proof cases
      case settled
      have "seen_ok ?cd w (insert (clip_id e) seen)"
        using seen_ok_insert [OF Cons.prems(2) c] holds n settled by simp
      then show ?thesis
        using skip [OF tended_refl] settled entry b by (simp add: run_simps due_entry_def given_up_def)
    next
      case lost
      then show ?thesis using scan_lost_step [OF go assms(1) Cons.prems(2) entry n c] by simp
    next
      case due
      then show ?thesis
        using scan_ref_keep [OF Cons.IH [OF Cons.prems(1,2) dist(2)] dist(1) entry(1,3)] entry b
        by (simp add: run_match [of fs_next_entry] run_match [of "read_sidecar _ _"] run_read_sidecar run_calls)
    qed
  qed
qed

section \<open>The loop under faults\<close>

lemma wf_scan_loop [simp]: "preserves wf_world (scan_loop pl clk seen ns)"
proof (induction ns arbitrary: seen)
  case (Cons n ns)
  have "preserves wf_world (quarantine_corrupt (DeliveredDir, n) :: ('a, queue_error, unit) io)"
    by (auto simp: quarantine_corrupt_def Let_def)
  then show ?case
    using Cons by (auto simp: update_op.keeps_wf emit_classify_lost_def split: queue_error.split prod.split option.split)
qed auto

lemma wf_poll_one [simp]: "preserves wf_world (poll_one pl clk seen e)"
  by (auto simp: poll_one_def Let_def update_op.keeps_wf emit_classify_lost_def
      split: option.split sum.split failure_kind.split)

lemma wf_poll_entries [simp]: "preserves wf_world (poll_entries pl clk quota polled seen es)"
  by (induction es arbitrary: quota polled seen) (auto split: prod.split sum.split)

lemma wf_prune_loop [simp]: "preserves wf_world (prune_loop cd before ns)"
  by (induction ns) (auto simp: Let_def split: option.split)

lemma uniform_prunes [simp]: "uniform (prune_delivered cd before)" "uniform (prune_round pl now seen)"
  by (auto simp: prune_delivered_def prune_round_def split: option.split)

lemma wf_rounds [simp]:
  "preserves wf_world (poll_round pl clk quota seen)" "preserves wf_world (prune_round pl now seen)"
  by (auto simp: poll_round_def scan_non_terminal_def prune_round_def prune_delivered_def
      split: prod.split sum.split option.split)

text \<open>
  What may become of a delivered record in one step: it moves, or it leaves because \<open>G\<close> holds of it
  as it was before the step.
\<close>

definition finished :: "clip_queue_entry \<Rightarrow> bool" where
  "finished e \<longleftrightarrow> classify_lost_at e \<noteq> None \<or>
     (case last_classify_status e of None \<Rightarrow> False | Some s \<Rightarrow> is_terminal_status s)"

lemma finished_not_pollable: "finished e \<Longrightarrow> \<not> is_pollable e"
  by (auto simp: finished_def is_pollable_def)

fun aged :: "(clip_queue_entry \<Rightarrow> bool) \<Rightarrow> clip_queue_entry option \<Rightarrow> clip_queue_entry option \<Rightarrow> bool" where
  "aged G None x \<longleftrightarrow> x = None"
| "aged G (Some e) (Some e') \<longleftrightarrow> moved e e'"
| "aged G (Some e) None \<longleftrightarrow> G e"

lemma aged_refl [simp]: "aged G x x"
  by (cases x) auto

lemma moved_aged: "rel_option moved x y \<Longrightarrow> aged G x y"
  by (cases x; cases y) auto

lemma aged_then_moved: "aged G x y \<Longrightarrow> rel_option moved y z \<Longrightarrow> aged G x z"
  by (cases x; cases y; cases z) (auto intro: moved_trans)

definition aged_world :: "'b codec \<Rightarrow> (clip_queue_entry \<Rightarrow> bool) \<Rightarrow> 'b world \<Rightarrow> 'b world \<Rightarrow> bool" where
  "aged_world cd G w w' \<longleftrightarrow> (\<forall>n. has_ext ''json'' n \<longrightarrow> aged G (delivered_entry cd w n) (delivered_entry cd w' n))"

lemma aged_world_refl [simp]: "aged_world cd G w w"
  by (simp add: aged_world_def)

lemma aged_world_journal [simp]:
  "aged_world cd G w (w'\<lparr>journal := j\<rparr>) = aged_world cd G w w'" "aged_world cd G (w\<lparr>journal := j\<rparr>) w' = aged_world cd G w w'"
  by (simp_all add: aged_world_def)

lemma aged_world_tended: "aged_world cd G w w1 \<Longrightarrow> tended cd w1 w2 \<Longrightarrow> aged_world cd G w w2"
  unfolding aged_world_def tended_def by (blast intro: aged_then_moved)

text \<open>
  What pruning at the time \<open>now\<close> may take: a delivered upload, its classification over, filed longer ago than
  the retention.
\<close>

definition past_retention :: "('b, 'u, 'c) classify_poller \<Rightarrow> instant \<Rightarrow> clip_queue_entry \<Rightarrow> bool" where
  "past_retention pl now e \<longleftrightarrow> entry_outcome e = Some Delivered \<and> finished e \<and>
     (\<exists>t. delivered_at e = Some t \<and> t + min (pl_retention_hours pl * 3600) i64_max * 10 ^ 9 < now)"

lemma prunable_past_retention:
  "prune_cutoff pl now = Some before \<Longrightarrow> is_prunable e before \<Longrightarrow> past_retention pl now e"
  by (auto simp: prune_cutoff_def delta_seconds_def is_prunable_def past_retention_def finished_def bind_eq_Some_conv
      split: if_splits option.splits)

text \<open>The invariant of the poller between two steps.\<close>

definition poller_inv :: "'b codec \<Rightarrow> string set \<Rightarrow> 'b world \<Rightarrow> bool" where
  "poller_inv cd seen w \<longleftrightarrow> wf_world w \<and> delivered_filed cd w \<and> seen_ok cd w seen"

lemma poller_inv_journal [simp]: "poller_inv cd seen (w\<lparr>journal := j\<rparr>) = poller_inv cd seen w"
  by (simp add: poller_inv_def wf_world_def delivered_filed_def)

lemma round_step:
  assumes "codec_ok (pl_codec pl)" "poller_inv (pl_codec pl) seen w"
    and "poll_round pl clk quota seen w fs = (r, w', fs')"
  shows "tended (pl_codec pl) w w' \<and> (case r of Ok (seen', _) \<Rightarrow> poller_inv (pl_codec pl) seen' w' | Err _ \<Rightarrow> False | Crashed \<Rightarrow> True)"
proof -
  have inv: "wf_world w" "delivered_filed (pl_codec pl) w" "seen_ok (pl_codec pl) w seen"
    using assms(2) by (auto simp: poller_inv_def)
  have "wf_world w'" using preservesD [OF wf_rounds(1) assms(3) inv(1)] .
  then show ?thesis
    using wlp_run [OF poll_round_wlp [OF assms(1) inv] assms(3)] tended_filed inv
    by (auto simp: poller_inv_def split: res.splits)
qed

lemma keeps_needed_entry:
  assumes "keeps_needed cd before w w'" "has_ext ''json'' n"
  shows "delivered_entry cd w' n = delivered_entry cd w n \<or>
    delivered_entry cd w' n = None \<and> (\<exists>e. delivered_entry cd w n = Some e \<and> is_prunable e before)"
proof -
  have "look w' (DeliveredDir, n) = look w (DeliveredDir, n) \<or> look w' (DeliveredDir, n) = None \<and>
      (\<exists>e. holds_entry cd w (DeliveredDir, n) e \<and> is_prunable e before)"
    using assms unfolding keeps_needed_def by blast
  then show ?thesis by (auto simp: delivered_entry_def holds_delivered)
qed

lemma prune_step:
  assumes "poller_inv (pl_codec pl) seen w" "prune_round pl now seen w fs = (r, w', fs')"
  shows "aged_world (pl_codec pl) (past_retention pl now) w w' \<and>
    (case r of Ok seen' \<Rightarrow> poller_inv (pl_codec pl) seen' w' | Err _ \<Rightarrow> False | Crashed \<Rightarrow> True)"
proof -
  let ?cd = "pl_codec pl" and ?G = "past_retention pl now"
  have inv: "wf_world w" "delivered_filed ?cd w" "seen_ok ?cd w seen"
    using assms(1) by (auto simp: poller_inv_def)
  have wf: "wf_world w'" using preservesD [OF wf_rounds(2) assms(2) inv(1)] .
  have kept: "aged_world ?cd ?G w v \<and> delivered_filed ?cd v \<and> (S \<subseteq> seen \<longrightarrow> seen_ok ?cd v S)"
    if k: "keeps_needed ?cd before w v" and before: "prune_cutoff pl now = Some before" for before v S
  proof -
    have entry: "delivered_entry ?cd v n = Some e \<Longrightarrow> delivered_entry ?cd w n = Some e" if "has_ext ''json'' n" for n e
      using keeps_needed_entry [OF k that] by auto
    have aged: "aged ?G (delivered_entry ?cd w n) (delivered_entry ?cd v n)" if "has_ext ''json'' n" for n
      using keeps_needed_entry [OF k that] prunable_past_retention [OF before] by auto
    have side: "has_ext ''json'' (sidecar_name c)" if "c \<noteq> []" for c using that has_ext_json_iff by blast
    have "seen_ok ?cd v S" if sub: "S \<subseteq> seen"
      unfolding seen_ok_def holds_delivered
    proof (intro conjI allI impI)
      show "[] \<notin> S" using inv(3) sub by (auto simp: seen_ok_def)
      fix c e assume c: "c \<in> S" "delivered_entry ?cd v (sidecar_name c) = Some e"
      then have "c \<in> seen" "c \<noteq> []" using inv(3) sub by (auto simp: seen_ok_def)
      then show "\<not> is_pollable e"
        using inv(3) entry [OF side c(2)] by (simp add: seen_ok_def holds_delivered)
    qed
    moreover have "delivered_filed ?cd v"
      unfolding delivered_filed_def holds_delivered
      using delivered_filedD [OF inv(2)] entry by (simp add: holds_delivered)
    ultimately show ?thesis using aged by (simp add: aged_world_def)
  qed
  have "wlp (prune_round pl now seen) (\<lambda>s v. aged_world ?cd ?G w v \<and> delivered_filed ?cd v \<and> seen_ok ?cd v s) (\<lambda>_ _. False)
      (aged_world ?cd ?G w) w"
  proof (cases "prune_cutoff pl now")
    case None
    then show ?thesis by (simp add: prune_round_def wlp_simps)
  next
    case (Some before)
    show ?thesis
      by (simp add: prune_round_def Some wlp_match wlp_simps)
        (rule wlp_mono [OF prune_delivered_wlp], auto simp: kept [OF _ Some] wlp_simps)
  qed
  from wlp_run [OF this assms(2)] show ?thesis using wf by (auto simp: poller_inv_def split: res.splits)
qed

text \<open>One iteration prunes first and polls then, so what leaves has been past its retention before the iteration.\<close>

definition poller_step_ok ::
  "'b codec \<Rightarrow> (clip_queue_entry \<Rightarrow> bool) \<Rightarrow> ('a \<Rightarrow> string set) \<Rightarrow> 'b world \<Rightarrow> (unit, 'a) res \<times> 'b world \<times> 'b fault list \<Rightarrow> bool" where
  "poller_step_ok cd G seen_of w = (\<lambda>(r, w', fs'). aged_world cd G w w' \<and>
     (case r of Ok x \<Rightarrow> poller_inv cd (seen_of x) w' | Err _ \<Rightarrow> False | Crashed \<Rightarrow> True))"

lemma iteration_step:
  assumes "codec_ok (pl_codec pl)" "poller_inv (pl_codec pl) seen w"
  shows "poller_step_ok (pl_codec pl) (past_retention pl (pi_now i)) (fst \<circ> fst) w (poller_iteration pl i (seen, np) w fs)"
proof (cases "pi_shutdown i")
  case True
  then show ?thesis using assms(2) by (simp add: poller_iteration_def poller_step_ok_def run_simps)
next
  case False
  let ?cd = "pl_codec pl" and ?G = "past_retention pl (pi_now i)"
  define pruning where "pruning = (if np \<le> pi_mono i
      then bind_io (prune_round pl (pi_now i) seen) (\<lambda>seen'. ret (seen', pi_mono_after i + prune_interval)) else ret (seen, np))"
  define polling where "polling = (\<lambda>(seen1, next1 :: nat).
      bind_io (poll_round pl (pi_clk i) (pi_cut i) seen1) (\<lambda>(seen2, r).
       case r of
         RoundCut \<Rightarrow> ret ((seen2, next1), Stop)
       | Processed k \<Rightarrow> ret ((seen2, next1), Sleep (poll_tick k))
       | RoundFailed err \<Rightarrow>
           bind_io (emit (Warn ''classify poller iteration failed'')) (\<lambda>_. ret ((seen2, next1), Sleep (poll_tick 0)))))"
  have it: "poller_iteration pl i (seen, np) = bind_io pruning polling"
    using False by (simp add: poller_iteration_def pruning_def polling_def)
  obtain r1 w1 fs1 where p: "pruning w fs = (r1, w1, fs1)" by (cases "pruning w fs") auto
  have pruned: "poller_step_ok ?cd ?G fst w (r1, w1, fs1)"
  proof (cases "np \<le> pi_mono i")
    case True
    obtain r0 w0 fs0 where run: "prune_round pl (pi_now i) seen w fs = (r0, w0, fs0)" by (cases "prune_round pl (pi_now i) seen w fs") auto
    show ?thesis using prune_step [OF assms(2) run] run p True
      by (cases r0) (auto simp: pruning_def run_simps poller_step_ok_def)
  qed (use p assms(2) in \<open>auto simp: pruning_def run_simps poller_step_ok_def\<close>)
  show ?thesis
  proof (cases r1)
    case (Ok st)
    obtain seen1 next1 where st: "st = (seen1, next1)" by (cases st)
    obtain r2 w2 fs2 where q: "poll_round pl (pi_clk i) (pi_cut i) seen1 w1 fs1 = (r2, w2, fs2)"
      by (cases "poll_round pl (pi_clk i) (pi_cut i) seen1 w1 fs1") auto
    have "poller_inv ?cd seen1 w1" "aged_world ?cd ?G w w1" using pruned Ok st by (auto simp: poller_step_ok_def)
    then show ?thesis
      using round_step [OF assms(1) _ q] p q Ok st unfolding it
      by (cases r2) (auto simp: polling_def run_simps poller_step_ok_def intro: aged_world_tended split: round_result.splits)
  qed (use pruned p in \<open>auto simp: it run_simps poller_step_ok_def\<close>)
qed

text \<open>
  The whole loop. A record that is gone was past its retention in a world the loop passed through, right before
  the iteration that removed it.
\<close>

definition left_when_done ::
  "('b, 'u, 'c) classify_poller \<Rightarrow> poll_iteration list \<Rightarrow> string set \<times> nat \<Rightarrow> 'b world \<Rightarrow> 'b fault list \<Rightarrow> string
     \<Rightarrow> clip_queue_entry \<Rightarrow> bool" where
  "left_when_done pl is st w fs n e \<longleftrightarrow>
     (\<exists>is1 i is2 st1 w1 fs1 e1. is = is1 @ i # is2 \<and> run_poller pl is1 st w fs = (Ok st1, w1, fs1) \<and>
        delivered_entry (pl_codec pl) w1 n = Some e1 \<and> moved e e1 \<and> past_retention pl (pi_now i) e1)"

lemma left_now: "delivered_entry (pl_codec pl) w n = Some e \<Longrightarrow> past_retention pl (pi_now i) e \<Longrightarrow>
    left_when_done pl (i # is) st w fs n e"
  unfolding left_when_done_def
  by (intro exI [of _ "[]"] exI [of _ i] exI [of _ "is"] exI [of _ st] exI [of _ w] exI [of _ fs] exI [of _ e]) (simp add: run_simps)

lemma left_later:
  assumes "poller_iteration pl i st w fs = (Ok (st', nx), w1, fs1)" "nx \<noteq> Stop" "\<not> pi_sleep_cancelled i"
    and "moved e e'" "left_when_done pl is st' w1 fs1 n e'"
  shows "left_when_done pl (i # is) st w fs n e"
proof -
  obtain is1 j is2 st2 w2 fs2 e2 where l: "is = is1 @ j # is2" "run_poller pl is1 st' w1 fs1 = (Ok st2, w2, fs2)"
    "delivered_entry (pl_codec pl) w2 n = Some e2" "moved e' e2" "past_retention pl (pi_now j) e2"
    using assms(5) unfolding left_when_done_def by blast
  have "run_poller pl (i # is1) st w fs = (Ok st2, w2, fs2)" using l(2) assms(1-3) by (simp add: run_simps)
  moreover have "i # is = (i # is1) @ j # is2" using l(1) by simp
  ultimately show ?thesis
    using l(3,5) moved_trans [OF assms(4) l(4)] unfolding left_when_done_def by blast
qed

lemma run_poller_ok:
  assumes "codec_ok (pl_codec pl)" "poller_inv (pl_codec pl) seen w"
    and "run_poller pl is (seen, np) w fs = (r, w', fs')"
  shows "(\<forall>n. has_ext ''json'' n \<longrightarrow>
      aged (left_when_done pl is (seen, np) w fs n) (delivered_entry (pl_codec pl) w n) (delivered_entry (pl_codec pl) w' n)) \<and>
    (case r of Ok (seen', _) \<Rightarrow> poller_inv (pl_codec pl) seen' w' | Err _ \<Rightarrow> False | Crashed \<Rightarrow> True)"
  using assms(2,3)
proof (induction "is" arbitrary: seen np w fs)
  case Nil
  then show ?case by (auto simp: run_simps)
next
  case (Cons i "is")
  let ?cd = "pl_codec pl"
  obtain r1 w1 fs1 where it: "poller_iteration pl i (seen, np) w fs = (r1, w1, fs1)"
    by (cases "poller_iteration pl i (seen, np) w fs") auto
  note ok = iteration_step [OF assms(1) Cons.prems(1), of i np fs, unfolded it poller_step_ok_def prod.case]
  have first: "aged (left_when_done pl (i # is) (seen, np) w fs n) (delivered_entry ?cd w n) (delivered_entry ?cd w1 n)"
    if "has_ext ''json'' n" for n
  proof -
    have "aged (past_retention pl (pi_now i)) (delivered_entry ?cd w n) (delivered_entry ?cd w1 n)"
      using ok that by (simp add: aged_world_def)
    then show ?thesis
      by (cases "delivered_entry ?cd w n"; cases "delivered_entry ?cd w1 n") (auto intro: left_now)
  qed
  show ?case
  proof (cases "\<exists>st' nx. r1 = Ok (st', nx) \<and> nx \<noteq> Stop \<and> \<not> pi_sleep_cancelled i")
    case False
    then show ?thesis using Cons.prems(2) it first ok by (cases r1) (auto simp: run_simps split: if_splits)
  next
    case True
    then obtain seen' np' nx where r1: "r1 = Ok ((seen', np'), nx)" "nx \<noteq> Stop" "\<not> pi_sleep_cancelled i" by auto
    have rest: "run_poller pl is (seen', np') w1 fs1 = (r, w', fs')" using Cons.prems(2) it r1 by (simp add: run_simps)
    have inv: "poller_inv ?cd seen' w1" using ok r1(1) by simp
    note IH = Cons.IH [OF inv rest]
    have "aged (left_when_done pl (i # is) (seen, np) w fs n) (delivered_entry ?cd w n) (delivered_entry ?cd w' n)"
      if n: "has_ext ''json'' n" for n
      using first [OF n] IH [THEN conjunct1, rule_format, OF n] left_later [OF it [unfolded r1(1)] r1(2,3)]
      by (cases "delivered_entry ?cd w n"; cases "delivered_entry ?cd w1 n"; cases "delivered_entry ?cd w' n") (auto intro: moved_trans)
    then show ?thesis using IH by blast
  qed
qed

section \<open>Properties\<close>

text \<open>
  C21: What a poll round may do. Under every fault schedule, and also when the process dies
  inside it or shutdown cuts it short: nothing outside \<open>delivered/\<close> and \<open>corrupt/\<close> changes, every
  readable delivered record is still there and still describes the same upload (outcome,
  task, timestamps, attempts; only the classification moves), no record appears, and the
  skip set stays sound: no id in it belongs to a record that needs polling.
\<close>

theorem poll_round_tends:
  assumes "codec_ok (pl_codec pl)" "wf_world w" "delivered_filed (pl_codec pl) w" "seen_ok (pl_codec pl) w seen"
    and run: "poll_round pl clk quota seen w fs = (r, w', fs')"
  shows "tended (pl_codec pl) w w' \<and> (case r of Ok (seen', _) \<Rightarrow> seen_ok (pl_codec pl) w' seen' | Err _ \<Rightarrow> False | Crashed \<Rightarrow> True)"
  using wlp_run [OF poll_round_wlp [OF assms(1-4)] run] by (auto split: res.splits)

definition ex_polled :: "blob world" where
  "ex_polled = \<lparr> files = [(sidecar_at DeliveredDir ''a'',
       Sidecar (mark_delivered 33 \<lparr> task_id = 7, task_status = Queued, task_observation = None \<rparr> ex_entry)),
     (sidecar_at DeliveredDir ''b'', Bytes 3)], seq = 1, journal = [] \<rparr>"

definition ex_poller :: "(blob, string, unit) classify_poller" where
  "ex_poller = \<lparr> pl_codec = blob_codec, pl_env = ex_env, pl_client = ex_client,
     pl_lims = \<lparr> td_max = 10 ^ 20, dt_max = 10 ^ 22 \<rparr>, pl_dt_min = - (10 ^ 22), pl_retention_hours = 168 \<rparr>"

definition ex_clk :: "string \<Rightarrow> poll_clock" where
  "ex_clk n = \<lparr> c_budget = 40, c_http = 41, c_lost = 42 \<rparr>"

lemma ex_poller_codec [simp]: "pl_codec ex_poller = blob_codec"
  by (simp add: ex_poller_def)

lemma ex_polled_ok [simp]: "wf_world ex_polled" "delivered_filed blob_codec ex_polled" "seen_ok blob_codec ex_polled {}"
  by (auto simp: wf_world_def ex_polled_def delivered_filed_def holds_entry_def has_ext_json_iff seen_ok_def mark_delivered_def
      split: if_splits)

theorem poll_round_tends_witness:
  "\<exists>r w' fs'. poll_round ex_poller ex_clk None {} ex_polled [NoFault, NoFault, NoFault, Crash None] = (r, w', fs') \<and>
     tended blob_codec ex_polled w'"
proof -
  obtain r w' fs' where run: "poll_round ex_poller ex_clk None {} ex_polled [NoFault, NoFault, NoFault, Crash None] = (r, w', fs')"
    by (cases "poll_round ex_poller ex_clk None {} ex_polled [NoFault, NoFault, NoFault, Crash None]") auto
  then show ?thesis using poll_round_tends [OF _ _ _ _ run] by auto
qed

text \<open>
  C22: The skip set is transparent. A scan that skips the ids in a sound skip set answers
  like the reference scan that reads every file: the records due for a poll are those of the
  readable sidecars that are pollable and within the 24 hour budget, in directory order, and
  the pollable records past the budget are marked lost, the others are unchanged.
\<close>

theorem scan_non_terminal_transparent:
  assumes "codec_ok (pl_codec pl)" "wf_world w" "delivered_filed (pl_codec pl) w" "seen_ok (pl_codec pl) w seen"
  shows "\<exists>seen' w'. scan_non_terminal pl clk seen w [] =
      (Ok (seen', Inr (List.map_filter (due_entry pl clk w) (listing DeliveredDir (files w)))), w', []) \<and>
    (\<forall>n. has_ext ''json'' n \<longrightarrow> delivered_entry (pl_codec pl) w' n = given_up pl clk w n)"
proof -
  let ?ns = "listing DeliveredDir (files w)"
  have run: "scan_non_terminal pl clk seen w [] = scan_loop pl clk seen ?ns w []"
    by (simp add: scan_non_terminal_def run_simps)
  have absent: "given_up pl clk w n = delivered_entry (pl_codec pl) w n" if "n \<notin> set ?ns" for n
  proof -
    have "look w (DeliveredDir, n) = None" using that by (auto simp: set_listing)
    then show ?thesis by (simp add: given_up_def delivered_entry_def)
  qed
  show ?thesis
    using run_scan_loop [OF assms(1,3,4) distinct_listing [OF assms(2), of DeliveredDir], of clk] absent
    unfolding run scan_ref_def by (auto split: prod.splits)
qed

theorem scan_non_terminal_transparent_witness:
  "\<exists>seen' w'. scan_non_terminal ex_poller ex_clk {} ex_polled [] =
      (Ok (seen', Inr (List.map_filter (due_entry ex_poller ex_clk ex_polled) [''a.json'', ''b.json''])), w', [])"
proof -
  have "listing DeliveredDir (files ex_polled) = [''a.json'', ''b.json'']"
    by (simp add: listing_def ex_polled_def sidecar_name_def)
  then show ?thesis
    using scan_non_terminal_transparent [of ex_poller ex_polled "{}" ex_clk] by auto
qed

text \<open>
  C27: The life of a delivered record under the poller. Whatever the loop does, over any
  number of iterations with any faults, server answers and interruptions: the poller's
  invariant holds when it ends, no record appears, and each delivered record either is still there describing
  the same upload (unchanged when it needed no polling), or was removed by an iteration before which the loop
  had it on disk as a successful upload whose classification was over (a terminal status, or given up), filed longer before
  that iteration than the retention. A record that is still polled is never removed, nor one of a failed upload.
\<close>

theorem run_poller_ages:
  assumes "codec_ok (pl_codec pl)" "poller_inv (pl_codec pl) seen w" "has_ext ''json'' n"
    and run: "run_poller pl is (seen, np) w fs = (r, w', fs')"
  shows "(case (delivered_entry (pl_codec pl) w n, delivered_entry (pl_codec pl) w' n) of
       (None, after) \<Rightarrow> after = None
     | (Some e, Some e') \<Rightarrow> moved e e'
     | (Some e, None) \<Rightarrow> \<exists>is1 i is2 st1 w1 fs1 e1 t. is = is1 @ i # is2 \<and> run_poller pl is1 (seen, np) w fs = (Ok st1, w1, fs1) \<and>
         delivered_entry (pl_codec pl) w1 n = Some e1 \<and> moved e e1 \<and> entry_outcome e1 = Some Delivered \<and>
         finished e1 \<and> \<not> is_pollable e1 \<and>
         delivered_at e1 = Some t \<and> t + min (pl_retention_hours pl * 3600) i64_max * 10 ^ 9 < pi_now i) \<and>
    (case r of Ok (seen', _) \<Rightarrow> poller_inv (pl_codec pl) seen' w' | Err _ \<Rightarrow> False | Crashed \<Rightarrow> True)"
proof (intro conjI)
  note ok = run_poller_ok [OF assms(1,2) run]
  show "case r of Ok (seen', _) \<Rightarrow> poller_inv (pl_codec pl) seen' w' | Err _ \<Rightarrow> False | Crashed \<Rightarrow> True" using ok by blast
  have "aged (left_when_done pl is (seen, np) w fs n) (delivered_entry (pl_codec pl) w n) (delivered_entry (pl_codec pl) w' n)"
    using ok assms(3) by blast
  moreover have "\<exists>is1 i is2 st1 w1 fs1 e1 t. is = is1 @ i # is2 \<and> run_poller pl is1 (seen, np) w fs = (Ok st1, w1, fs1) \<and>
         delivered_entry (pl_codec pl) w1 n = Some e1 \<and> moved e e1 \<and> entry_outcome e1 = Some Delivered \<and>
         finished e1 \<and> \<not> is_pollable e1 \<and>
         delivered_at e1 = Some t \<and> t + min (pl_retention_hours pl * 3600) i64_max * 10 ^ 9 < pi_now i"
    if "left_when_done pl is (seen, np) w fs n e" for e
    using that finished_not_pollable unfolding left_when_done_def past_retention_def by blast
  ultimately show "case (delivered_entry (pl_codec pl) w n, delivered_entry (pl_codec pl) w' n) of
       (None, after) \<Rightarrow> after = None
     | (Some e, Some e') \<Rightarrow> moved e e'
     | (Some e, None) \<Rightarrow> \<exists>is1 i is2 st1 w1 fs1 e1 t. is = is1 @ i # is2 \<and> run_poller pl is1 (seen, np) w fs = (Ok st1, w1, fs1) \<and>
         delivered_entry (pl_codec pl) w1 n = Some e1 \<and> moved e e1 \<and> entry_outcome e1 = Some Delivered \<and>
         finished e1 \<and> \<not> is_pollable e1 \<and>
         delivered_at e1 = Some t \<and> t + min (pl_retention_hours pl * 3600) i64_max * 10 ^ 9 < pi_now i"
    by (cases "delivered_entry (pl_codec pl) w n"; cases "delivered_entry (pl_codec pl) w' n") (simp_all only: prod.case option.case aged.simps option.distinct)
qed

definition ex_round :: poll_iteration where
  "ex_round = \<lparr> pi_shutdown = False, pi_mono = 5, pi_mono_after = 6, pi_now = 50, pi_clk = ex_clk, pi_cut = None,
     pi_sleep_cancelled = False \<rparr>"

lemma ex_poller_inv [simp]: "poller_inv blob_codec {} ex_polled"
  by (simp add: poller_inv_def)

theorem run_poller_ages_witness:
  "\<exists>r w' fs'. run_poller ex_poller [ex_round, ex_round] ({}, 0) ex_polled [NoFault, Fail DiskFullFault None] = (r, w', fs') \<and>
     (\<forall>e'. delivered_entry blob_codec w' ''a.json'' = Some e' \<longrightarrow>
        moved (mark_delivered 33 \<lparr> task_id = 7, task_status = Queued, task_observation = None \<rparr> ex_entry) e')"
proof -
  obtain r w' fs' where run: "run_poller ex_poller [ex_round, ex_round] ({}, 0) ex_polled [NoFault, Fail DiskFullFault None] = (r, w', fs')"
    by (cases "run_poller ex_poller [ex_round, ex_round] ({}, 0) ex_polled [NoFault, Fail DiskFullFault None]") auto
  have js: "has_ext ''json'' ''a.json''" using has_ext_json_iff [of "''a.json''"] by (auto simp: sidecar_name_def)
  have "delivered_entry blob_codec ex_polled ''a.json'' =
      Some (mark_delivered 33 \<lparr> task_id = 7, task_status = Queued, task_observation = None \<rparr> ex_entry)"
    by (simp add: delivered_entry_def ex_polled_def sidecar_name_def)
  then show ?thesis using run_poller_ages [OF _ _ js run] run by auto
qed

text \<open>
  C39: A clip whose upload was accepted with an unreadable answer stays in \<open>delivered/\<close> for
  ever: no run of the poller, however long, polls, changes or prunes its record, so these
  records accumulate (they also count against the clip ceiling as un-evictable).
\<close>

theorem undecodable_never_leaves:
  assumes "codec_ok (pl_codec pl)" "poller_inv (pl_codec pl) seen w" "has_ext ''json'' n"
    and "delivered_entry (pl_codec pl) w n = Some (mark_undecodable t e)" "classify_lost_at e = None"
    and run: "run_poller pl is (seen, np) w fs = (r, w', fs')"
  shows "delivered_entry (pl_codec pl) w' n = Some (mark_undecodable t e) \<and> \<not> is_undeliverable (mark_undecodable t e)"
proof -
  have "aged (left_when_done pl is (seen, np) w fs n) (Some (mark_undecodable t e)) (delivered_entry (pl_codec pl) w' n)"
    using run_poller_ok [OF assms(1,2) run] assms(3,4) by auto
  moreover have p: "\<not> is_pollable (mark_undecodable t e)" "\<not> finished (mark_undecodable t e)"
    using assms(5) by (auto simp: is_pollable_def finished_def mark_undecodable_def is_terminal_status_def)
  moreover have "\<not> left_when_done pl is (seen, np) w fs n (mark_undecodable t e)"
    using p unfolding left_when_done_def moved_def past_retention_def by metis
  ultimately show ?thesis
    by (cases "delivered_entry (pl_codec pl) w' n") (auto simp: moved_def mark_undecodable_def is_undeliverable_def)
qed

definition ex_undecodable :: "blob world" where
  "ex_undecodable = \<lparr> files = [(sidecar_at DeliveredDir ''a'', Sidecar (mark_undecodable 33 ex_entry))], seq = 1, journal = [] \<rparr>"

theorem undecodable_never_leaves_witness:
  "\<exists>r w' fs'. run_poller ex_poller [ex_round, ex_round] ({}, 0) ex_undecodable [] = (r, w', fs') \<and>
     delivered_entry blob_codec w' ''a.json'' = Some (mark_undecodable 33 ex_entry)"
proof -
  obtain r w' fs' where run: "run_poller ex_poller [ex_round, ex_round] ({}, 0) ex_undecodable [] = (r, w', fs')"
    by (cases "run_poller ex_poller [ex_round, ex_round] ({}, 0) ex_undecodable []") auto
  have js: "has_ext ''json'' ''a.json''" using has_ext_json_iff [of "''a.json''"] by (auto simp: sidecar_name_def)
  have inv: "poller_inv blob_codec {} ex_undecodable"
    by (auto simp: poller_inv_def wf_world_def delivered_filed_def holds_entry_def seen_ok_def ex_undecodable_def split: if_splits)
  have "delivered_entry blob_codec ex_undecodable ''a.json'' = Some (mark_undecodable 33 ex_entry)"
    by (simp add: delivered_entry_def ex_undecodable_def sidecar_name_def)
  then show ?thesis
    using undecodable_never_leaves [OF _ _ js _ _ run, of 33 ex_entry] run inv by (simp add: ex_entry_def new_entry_def)
qed

end
