(* ===== verification/Capture_Liveness.thy ===== *)
theory Capture_Liveness
  imports Retry
begin

text \<open>
  The gates of the capture supervisor that depend on time only: the sensor liveness tracker
  (\<^verbatim>\<open>crates/perchstation-core/src/capture/liveness.rs\<close>), the cooldown
  (\<^verbatim>\<open>capture/cooldown.rs\<close>) and the projection that \<^verbatim>\<open>perchstation status\<close> renders
  (\<^verbatim>\<open>capture/state.rs\<close>). The tracker is shown to compute a function of the history of probes.
\<close>

section \<open>The sensor\<close>

datatype sensor_level = Quiescent | Asserted

datatype motion_sensor_error = SensorUnavailable string | SensorIo io_error

text \<open>The \<^verbatim>\<open>Display\<close> of an error; how the standard library renders an I/O error is a parameter.\<close>

fun sensor_error_text :: "(io_error \<Rightarrow> string) \<Rightarrow> motion_sensor_error \<Rightarrow> string" where
  "sensor_error_text io_text (SensorUnavailable msg) = ''sensor unavailable: '' @ msg"
| "sensor_error_text io_text (SensorIo x) = ''sensor I/O error: '' @ io_text x"

section \<open>The tracker\<close>

datatype sensor_liveness = Healthy | StuckAsserted instant | Unavailable instant string

datatype degraded_kind = KindStuckAsserted | KindUnavailable

fun degraded_kind_as_str :: "degraded_kind \<Rightarrow> string" where
  "degraded_kind_as_str KindStuckAsserted = ''stuck_asserted''"
| "degraded_kind_as_str KindUnavailable = ''unavailable''"

datatype liveness_transition = Degraded degraded_kind instant "string option" | Recovered degraded_kind | NoChange

record liveness_tracker =
  tr_state :: sensor_liveness
  stuck_threshold :: delta
  asserted_since :: "instant option"

text \<open>\<^verbatim>\<open>chrono::Duration::seconds\<close> panics outside its range: \<open>None\<close>.\<close>

definition new_tracker :: "chrono_limits \<Rightarrow> u64 \<Rightarrow> liveness_tracker option" where
  "new_tracker lims stuck_secs =
     map_option (\<lambda>d. \<lparr> tr_state = Healthy, stuck_threshold = d, asserted_since = None \<rparr>)
       (delta_seconds lims (min (int stuck_secs) i64_max))"

definition is_degraded :: "liveness_tracker \<Rightarrow> bool" where
  "is_degraded tr \<longleftrightarrow> tr_state tr \<noteq> Healthy"

definition handle_error ::
  "(io_error \<Rightarrow> string) \<Rightarrow> instant \<Rightarrow> motion_sensor_error \<Rightarrow> liveness_tracker \<Rightarrow> liveness_tracker \<times> liveness_transition" where
  "handle_error io_text now err tr =
     (case tr_state tr of
        Unavailable _ _ \<Rightarrow> (tr, NoChange)
      | _ \<Rightarrow> (let reason = sensor_error_text io_text err in
              (tr\<lparr>tr_state := Unavailable now reason, asserted_since := None\<rparr>,
               Degraded KindUnavailable now (Some reason))))"

definition handle_asserted :: "instant \<Rightarrow> liveness_tracker \<Rightarrow> liveness_tracker \<times> liveness_transition" where
  "handle_asserted now tr =
     (case tr_state tr of
        Unavailable _ _ \<Rightarrow> (tr\<lparr>tr_state := Healthy, asserted_since := Some now\<rparr>, Recovered KindUnavailable)
      | StuckAsserted _ \<Rightarrow> (tr, NoChange)
      | Healthy \<Rightarrow>
          (let started_at = (case asserted_since tr of None \<Rightarrow> now | Some t \<Rightarrow> t);
               tr' = tr\<lparr>asserted_since := Some started_at\<rparr> in
           if stuck_threshold tr \<le> now - started_at
           then (tr'\<lparr>tr_state := StuckAsserted started_at\<rparr>, Degraded KindStuckAsserted started_at None)
           else (tr', NoChange)))"

definition handle_quiescent :: "liveness_tracker \<Rightarrow> liveness_tracker \<times> liveness_transition" where
  "handle_quiescent tr =
     (case tr_state tr of
        StuckAsserted _ \<Rightarrow> (tr\<lparr>tr_state := Healthy, asserted_since := None\<rparr>, Recovered KindStuckAsserted)
      | Unavailable _ _ \<Rightarrow> (tr\<lparr>tr_state := Healthy, asserted_since := None\<rparr>, Recovered KindUnavailable)
      | Healthy \<Rightarrow> (tr\<lparr>asserted_since := None\<rparr>, NoChange))"

definition observe_level ::
  "(io_error \<Rightarrow> string) \<Rightarrow> instant \<Rightarrow> motion_sensor_error + sensor_level \<Rightarrow> liveness_tracker
     \<Rightarrow> liveness_tracker \<times> liveness_transition" where
  "observe_level io_text now result tr =
     (case result of
        Inl err \<Rightarrow> handle_error io_text now err tr
      | Inr Asserted \<Rightarrow> handle_asserted now tr
      | Inr Quiescent \<Rightarrow> handle_quiescent tr)"

definition observe_trigger_error ::
  "(io_error \<Rightarrow> string) \<Rightarrow> instant \<Rightarrow> motion_sensor_error \<Rightarrow> liveness_tracker \<Rightarrow> liveness_tracker \<times> liveness_transition" where
  "observe_trigger_error io_text now err tr = handle_error io_text now err tr"

section \<open>The cooldown\<close>

type_synonym cooldown_state = "instant option"

definition start_after :: "chrono_limits \<Rightarrow> instant \<Rightarrow> u64 \<Rightarrow> cooldown_state option" where
  "start_after lims now secs =
     map_option Some (Option.bind (delta_seconds lims (min (int secs) i64_max)) (dt_add lims now))"

definition is_active :: "instant \<Rightarrow> cooldown_state \<Rightarrow> bool" where
  "is_active now c = (case c of None \<Rightarrow> False | Some t \<Rightarrow> now < t)"

section \<open>The projection\<close>

datatype liveness_snapshot = SnapNeverObserved | SnapHealthy | SnapStuckAsserted | SnapUnavailable

record failure_snapshot =
  fail_at :: instant
  fail_kind :: string
  fail_message :: string

record capture_state =
  last_recording_at :: "instant option"
  last_clip_id :: "string option"
  last_failure :: "failure_snapshot option"
  sensor_snapshot :: liveness_snapshot
  sensor_degraded_since :: "instant option"

definition new_capture_state :: capture_state where
  "new_capture_state = \<lparr> last_recording_at = None, last_clip_id = None, last_failure = None,
     sensor_snapshot = SnapNeverObserved, sensor_degraded_since = None \<rparr>"

definition record_success :: "string \<Rightarrow> instant \<Rightarrow> capture_state \<Rightarrow> capture_state" where
  "record_success cid t st = st\<lparr>last_recording_at := Some t, last_clip_id := Some cid, last_failure := None\<rparr>"

definition record_failure :: "instant \<Rightarrow> string \<Rightarrow> string \<Rightarrow> capture_state \<Rightarrow> capture_state" where
  "record_failure t kind msg st = st\<lparr>last_failure := Some \<lparr> fail_at = t, fail_kind = kind, fail_message = msg \<rparr>\<rparr>"

definition set_liveness :: "liveness_snapshot \<Rightarrow> instant option \<Rightarrow> capture_state \<Rightarrow> capture_state" where
  "set_liveness snap since st = st\<lparr>sensor_snapshot := snap, sensor_degraded_since := since\<rparr>"

section \<open>Histories of probes\<close>

text \<open>
  A history lists the probes, oldest first; trigger errors count as failed probes. The
  reference reads the state off the trailing run of equal observations: an error run means
  unavailable since its first error, a run of asserted levels means stuck once it spans the
  threshold.
\<close>

type_synonym probe = "instant \<times> (motion_sensor_error + sensor_level)"

fun observe_all :: "(io_error \<Rightarrow> string) \<Rightarrow> probe list \<Rightarrow> liveness_tracker \<Rightarrow> liveness_tracker" where
  "observe_all io_text [] tr = tr"
| "observe_all io_text ((now, r) # ps) tr = observe_all io_text ps (fst (observe_level io_text now r tr))"

definition is_asserted :: "probe \<Rightarrow> bool" where
  "is_asserted p \<longleftrightarrow> snd p = Inr Asserted"

definition is_error :: "probe \<Rightarrow> bool" where
  "is_error p = (case snd p of Inl _ \<Rightarrow> True | Inr _ \<Rightarrow> False)"

definition trailing :: "(probe \<Rightarrow> bool) \<Rightarrow> probe list \<Rightarrow> probe list" where
  "trailing P ps = rev (takeWhile P (rev ps))"

definition liveness_spec :: "(io_error \<Rightarrow> string) \<Rightarrow> delta \<Rightarrow> probe list \<Rightarrow> sensor_liveness" where
  "liveness_spec io_text thr ps =
     (case (trailing is_error ps, trailing is_asserted ps) of
        ((t, Inl err) # _, _) \<Rightarrow> Unavailable t (sensor_error_text io_text err)
      | (_, (t, _) # _) \<Rightarrow> if thr \<le> fst (last ps) - t then StuckAsserted t else Healthy
      | _ \<Rightarrow> Healthy)"

lemma trailing_simps [simp]:
  "trailing P [] = []" "trailing P (ps @ [p]) = (if P p then trailing P ps @ [p] else [])"
  by (simp_all add: trailing_def)

lemma trailing_nonempty: "trailing P ps \<noteq> [] \<Longrightarrow> \<exists>qs p. ps = qs @ [p] \<and> P p"
  by (cases ps rule: rev_cases) (auto split: if_splits)

lemma trailing_set: "p \<in> set (trailing P ps) \<Longrightarrow> P p \<and> p \<in> set ps"
  using set_takeWhileD [of p P "rev ps"] by (auto simp: trailing_def)

lemma observe_all_append: "observe_all io_text (ps @ qs) tr = observe_all io_text qs (observe_all io_text ps tr)"
  by (induction io_text ps tr rule: observe_all.induct) auto

text \<open>The invariant of the tracker along a history.\<close>

definition tracks :: "(io_error \<Rightarrow> string) \<Rightarrow> delta \<Rightarrow> probe list \<Rightarrow> liveness_tracker \<Rightarrow> bool" where
  "tracks io_text thr ps tr \<longleftrightarrow> stuck_threshold tr = thr \<and> tr_state tr = liveness_spec io_text thr ps \<and>
     (tr_state tr = Healthy \<longrightarrow> asserted_since tr = (case trailing is_asserted ps of [] \<Rightarrow> None | p # _ \<Rightarrow> Some (fst p)))"

lemma spec_error:
  "trailing is_error ps \<noteq> [] \<longleftrightarrow> (\<exists>t reason. liveness_spec io_text thr ps = Unavailable t reason)"
proof (cases "trailing is_error ps")
  case Nil
  then show ?thesis by (auto simp: liveness_spec_def split: list.splits prod.splits if_splits)
next
  case (Cons p qs)
  then have "is_error p" using trailing_set [of p is_error ps] by simp
  then obtain t err where "p = (t, Inl err)" by (cases p) (auto simp: is_error_def split: sum.splits)
  then show ?thesis using Cons by (simp add: liveness_spec_def)
qed

lemma error_not_asserted: "trailing is_error ps \<noteq> [] \<Longrightarrow> trailing is_asserted ps = []"
  using trailing_nonempty [of is_error ps] by (auto simp: is_error_def is_asserted_def)

lemma spec_unfold:
  "trailing is_error ps = [] \<Longrightarrow> liveness_spec io_text thr ps =
     (case trailing is_asserted ps of [] \<Rightarrow> Healthy
      | p # _ \<Rightarrow> if thr \<le> fst (last ps) - fst p then StuckAsserted (fst p) else Healthy)"
  by (simp add: liveness_spec_def split: list.split)

lemma tracks_error:
  assumes "tracks io_text thr ps tr"
  shows "tracks io_text thr (ps @ [(now, Inl err)]) (fst (handle_error io_text now err tr))"
proof (cases "trailing is_error ps")
  case Nil
  then have "tr_state tr \<noteq> Unavailable t reason" for t reason
    using assms spec_error [of ps io_text thr] by (auto simp: tracks_def)
  moreover have "liveness_spec io_text thr (ps @ [(now, Inl err)]) = Unavailable now (sensor_error_text io_text err)"
    using Nil by (simp add: liveness_spec_def is_error_def)
  moreover have "stuck_threshold tr = thr" using assms by (simp add: tracks_def)
  ultimately show ?thesis
    by (cases "tr_state tr") (auto simp: tracks_def handle_error_def Let_def)
next
  case (Cons p qs)
  then obtain t reason where st: "liveness_spec io_text thr ps = Unavailable t reason"
    using spec_error [of ps io_text thr] by auto
  have "liveness_spec io_text thr (ps @ [(now, Inl err)]) = liveness_spec io_text thr ps"
    using Cons st by (auto simp: liveness_spec_def is_error_def split: list.splits prod.splits sum.splits if_splits)
  then show ?thesis using assms st by (simp add: tracks_def handle_error_def)
qed

lemma tracks_quiescent:
  assumes "tracks io_text thr ps tr"
  shows "tracks io_text thr (ps @ [(now, Inr Quiescent)]) (fst (handle_quiescent tr))"
proof -
  have "liveness_spec io_text thr (ps @ [(now, Inr Quiescent)]) = Healthy"
    "trailing is_asserted (ps @ [(now, Inr Quiescent)]) = []"
    by (simp_all add: liveness_spec_def is_error_def is_asserted_def)
  moreover have "stuck_threshold tr = thr" using assms by (simp add: tracks_def)
  ultimately show ?thesis
    by (cases "tr_state tr") (simp_all add: tracks_def handle_quiescent_def)
qed

lemma tracks_asserted:
  assumes "tracks io_text thr ps tr" "0 < thr" "ps \<noteq> [] \<Longrightarrow> fst (last ps) \<le> now"
  shows "tracks io_text thr (ps @ [(now, Inr Asserted)]) (fst (handle_asserted now tr))"
proof -
  let ?p = "(now, Inr Asserted) :: probe"
  have p: "\<not> is_error ?p" "is_asserted ?p" by (simp_all add: is_error_def is_asserted_def)
  have new: "liveness_spec io_text thr (ps @ [?p]) = (let t = fst (hd (trailing is_asserted ps @ [?p])) in
      if thr \<le> now - t then StuckAsserted t else Healthy)"
    using p by (simp add: spec_unfold split: list.split)
  have st: "stuck_threshold tr = thr" "tr_state tr = liveness_spec io_text thr ps" using assms(1) by (auto simp: tracks_def)
  show ?thesis
  proof (cases "trailing is_error ps")
    case (Cons q qs)
    then obtain t reason where "tr_state tr = Unavailable t reason" using spec_error st(2) by (metis list.distinct(1))
    moreover have "trailing is_asserted ps = []" using error_not_asserted Cons by simp
    ultimately show ?thesis using new st p assms(2) by (simp add: tracks_def handle_asserted_def)
  next
    case Nil
    show ?thesis
    proof (cases "trailing is_asserted ps")
      case none: Nil
      then have "tr_state tr = Healthy" "asserted_since tr = None"
        using assms(1) spec_unfold [OF Nil] by (auto simp: tracks_def)
      then show ?thesis using new none st p assms(2) by (simp add: tracks_def handle_asserted_def)
    next
      case (Cons q qs)
      then have "ps \<noteq> []" by auto
      then have later: "fst (last ps) \<le> now" using assms(3) by simp
      have old: "tr_state tr = (if thr \<le> fst (last ps) - fst q then StuckAsserted (fst q) else Healthy)"
        using st(2) spec_unfold [OF Nil] Cons by simp
      show ?thesis
      proof (cases "thr \<le> fst (last ps) - fst q")
        case True
        then show ?thesis using old new Cons st p later by (simp add: tracks_def handle_asserted_def)
      next
        case False
        then have "asserted_since tr = Some (fst q)" using assms(1) old Cons by (simp add: tracks_def)
        then show ?thesis using old False new Cons st p by (simp add: tracks_def handle_asserted_def Let_def)
      qed
    qed
  qed
qed

lemma observe_all_tracks:
  assumes "0 < thr" "sorted (map fst ps)"
  shows "tracks io_text thr ps (observe_all io_text ps \<lparr> tr_state = Healthy, stuck_threshold = thr, asserted_since = None \<rparr>)"
  using assms(2)
proof (induction ps rule: rev_induct)
  case Nil
  then show ?case by (simp add: tracks_def liveness_spec_def)
next
  case (snoc p ps)
  obtain now r where p: "p = (now, r)" by (cases p)
  have IH: "tracks io_text thr ps (observe_all io_text ps \<lparr> tr_state = Healthy, stuck_threshold = thr, asserted_since = None \<rparr>)"
    using snoc by (simp add: sorted_append)
  have last: "fst (last ps) \<le> now" if "ps \<noteq> []"
    using snoc.prems that p by (simp add: sorted_append)
  show ?case
  proof (cases r)
    case (Inl err)
    then show ?thesis using tracks_error [OF IH] p by (simp add: observe_all_append observe_level_def)
  next
    case (Inr l)
    then show ?thesis
      using tracks_quiescent [OF IH] tracks_asserted [OF IH assms(1) last] p
      by (cases l) (simp_all add: observe_all_append observe_level_def)
  qed
qed

section \<open>Properties\<close>

text \<open>
  C24: The liveness tracker computes its specification. Fed any history of probes with a
  clock that does not run backwards, it is unavailable exactly since the first error of the
  trailing run of errors, stuck exactly when the trailing run of asserted levels spans the
  threshold, and healthy otherwise.
\<close>

theorem tracker_refines_history:
  assumes "new_tracker lims stuck_secs = Some tr" "0 < stuck_secs" "sorted (map fst ps)"
  shows "tr_state (observe_all io_text ps tr) = liveness_spec io_text (stuck_threshold tr) ps \<and>
    (is_degraded (observe_all io_text ps tr) \<longleftrightarrow>
       trailing is_error ps \<noteq> [] \<or>
       (\<exists>p qs. trailing is_asserted ps = p # qs \<and> stuck_threshold tr \<le> fst (last ps) - fst p))"
proof -
  obtain d where d: "delta_seconds lims (min (int stuck_secs) i64_max) = Some d"
    "tr = \<lparr> tr_state = Healthy, stuck_threshold = d, asserted_since = None \<rparr>"
    using assms(1) by (auto simp: new_tracker_def)
  have "0 < d" using d(1) assms(2) by (auto simp: delta_seconds_def i64_max_def split: if_splits)
  then have t: "tr_state (observe_all io_text ps tr) = liveness_spec io_text d ps"
    using observe_all_tracks [of d ps io_text] assms(3) d(2) by (simp add: tracks_def)
  have "liveness_spec io_text d ps \<noteq> Healthy \<longleftrightarrow> trailing is_error ps \<noteq> [] \<or>
      (\<exists>p qs. trailing is_asserted ps = p # qs \<and> d \<le> fst (last ps) - fst p)"
  proof (cases "trailing is_error ps")
    case Nil
    then show ?thesis by (simp add: spec_unfold split: list.split)
  next
    case (Cons q qs)
    then show ?thesis using spec_error [of ps io_text d] by auto
  qed
  then show ?thesis using t d(2) by (simp add: is_degraded_def)
qed

theorem tracker_refines_history_witness:
  "\<exists>tr. new_tracker \<lparr> td_max = 10 ^ 20, dt_max = 10 ^ 22 \<rparr> 2 = Some tr \<and>
     tr_state (observe_all (\<lambda>_. ''io'') [(1, Inr Quiescent), (5, Inr Asserted), (2000000005, Inr Asserted)] tr) = StuckAsserted 5"
proof -
  let ?ps = "[(1, Inr Quiescent), (5, Inr Asserted), (2000000005, Inr Asserted)] :: probe list"
  obtain tr where tr: "new_tracker \<lparr> td_max = 10 ^ 20, dt_max = 10 ^ 22 \<rparr> 2 = Some tr" "stuck_threshold tr = 2000000000"
    by (simp add: new_tracker_def delta_seconds_def i64_max_def)
  have "liveness_spec (\<lambda>_. ''io'') 2000000000 ?ps = StuckAsserted 5"
    by (simp add: liveness_spec_def trailing_def is_error_def is_asserted_def)
  then show ?thesis
    using tracker_refines_history [OF tr(1), of ?ps "\<lambda>_. ''io''"] tr by auto
qed

end
