(* ===== verification/Capture_Staging.thy ===== *)
theory Capture_Staging
  imports Queue_Policy Capture_Liveness
begin

text \<open>
  The staging directory of the capture subsystem: the directory scan of
  \<^verbatim>\<open>crates/perchstation-core/src/fsutil.rs\<close>, the startup purge and the footprint probe of
  \<^verbatim>\<open>capture/staging.rs\<close>, and the bounded recording of \<^verbatim>\<open>capture/recording.rs\<close>. The camera is the
  locale \<open>camera\<close>, the contract of the trait in \<^verbatim>\<open>hw_traits.rs\<close>; the staging directory holds
  regular files only.
\<close>

section \<open>Scanning a directory\<close>

fun sum_dir_loop :: "(string \<Rightarrow> ('b, io_error, u64) io) \<Rightarrow> string list \<Rightarrow> u64 \<Rightarrow> ('b, io_error, u64) io" where
  "sum_dir_loop size_of [] tot = ret tot"
| "sum_dir_loop size_of (n # ns) tot =
     bind_io fs_next_entry (\<lambda>_.
     bind_io (size_of n) (\<lambda>v. sum_dir_loop size_of ns (sat_add u64_max tot v)))"

definition sum_dir :: "dir \<Rightarrow> (string \<Rightarrow> ('b, io_error, u64) io) \<Rightarrow> ('b, io_error, u64) io" where
  "sum_dir d size_of =
     match_io (fs_read_dir d) (\<lambda>ns. sum_dir_loop size_of ns 0)
       (\<lambda>err. if err = NotFound then ret 0 else throw err)"

definition staging_bytes :: "'b codec \<Rightarrow> ('b, io_error, u64) io" where
  "staging_bytes cd =
     sum_dir StagingDir (\<lambda>n.
       match_io (fs_metadata_len cd (StagingDir, n)) ret
         (\<lambda>err. if err = NotFound then ret 0 else throw err))"

section \<open>The startup purge\<close>

record purge_report =
  removed_files :: u32
  removed_bytes :: u64

fun purge_loop :: "'b codec \<Rightarrow> string list \<Rightarrow> purge_report \<Rightarrow> ('b, io_error, purge_report) io" where
  "purge_loop cd [] rep = ret rep"
| "purge_loop cd (n # ns) rep =
     bind_io fs_next_entry (\<lambda>_.
     match_io (fs_metadata_len cd (StagingDir, n))
       (\<lambda>len.
          match_io (fs_remove_file (StagingDir, n))
            (\<lambda>_. purge_loop cd ns
                \<lparr> removed_files = sat_add u32_max (removed_files rep) 1,
                  removed_bytes = sat_add u64_max (removed_bytes rep) len \<rparr>)
            (\<lambda>err. if err = NotFound then purge_loop cd ns rep else throw err))
       (\<lambda>err. if err = NotFound then purge_loop cd ns rep else throw err))"

definition purge :: "'b codec \<Rightarrow> ('b, io_error, purge_report) io" where
  "purge cd =
     bind_io fs_create_dir_all (\<lambda>_.
     bind_io (fs_read_dir StagingDir) (\<lambda>ns.
     bind_io (purge_loop cd ns \<lparr> removed_files = 0, removed_bytes = 0 \<rparr>) (\<lambda>rep.
     bind_io (emit (CaptureEv (CaptureStagingPurged (removed_files rep) (removed_bytes rep)))) (\<lambda>_.
     ret rep))))"

section \<open>The camera\<close>

record recorded_clip =
  clip_path :: path
  started_at :: instant
  ended_at :: instant
  clip_bytes :: u64

datatype camera_error = OpenFailed string | CameraIo io_error | Aborted string | EmptyOutput

text \<open>
  \<^verbatim>\<open>Camera::record_clip\<close> under \<^verbatim>\<open>tokio::time::timeout\<close>: it is given the recording id, the clip
  duration and the duration after which its future is dropped. \<open>Ok None\<close> means that it was
  dropped, with the clean-up of the drop done.
\<close>

type_synonym 'b camera_fn =
  "string \<Rightarrow> duration \<Rightarrow> duration \<Rightarrow> ('b, camera_error, recorded_clip option) io"

locale camera =
  fixes cd :: "'b codec" and cam :: "'b camera_fn"
  assumes uniform_cam: "uniform (cam rid dur outer)"
    and staging_only: "footprint {p. fst p = StagingDir} (cam rid dur outer)"
    and cam_wf: "preserves wf_world (cam rid dur outer)"
    and recorded: "cam rid dur outer w fs = (Ok (Some clip), w', fs') \<Longrightarrow>
      fst (clip_path clip) = StagingDir \<and> (\<exists>b. look w' (clip_path clip) = Some b \<and> blen cd b = clip_bytes clip)"

section \<open>Recording one clip\<close>

datatype capture_record_error = RecordFailed camera_error | RecordTimeout | EmptyClip path | DurationOverflow

text \<open>A \<^verbatim>\<open>std::time::Duration\<close> holds at most \<^verbatim>\<open>u64::MAX\<close> seconds and 999999999 nanoseconds.\<close>

definition duration_max :: duration where
  "duration_max = u64_max * 1000000000 + 999999999"

definition checked_add :: "duration \<Rightarrow> duration \<Rightarrow> duration option" where
  "checked_add a b = (if a + b \<le> duration_max then Some (a + b) else None)"

definition remove_clip_if_exists :: "path \<Rightarrow> ('b, io_error, unit) io" where
  "remove_clip_if_exists p =
     match_io (fs_remove_file p) ret (\<lambda>err. if err = NotFound then ret () else throw err)"

text \<open>A directory entry that cannot be read is skipped (\<^verbatim>\<open>flatten\<close>), a failed removal is ignored.\<close>

fun sweep_staging_loop :: "string list \<Rightarrow> ('b, 'e, unit) io" where
  "sweep_staging_loop [] = ret ()"
| "sweep_staging_loop (n # ns) =
     match_io fs_next_entry
       (\<lambda>_. match_io (fs_remove_file (StagingDir, n)) (\<lambda>_. sweep_staging_loop ns) (\<lambda>_. sweep_staging_loop ns))
       (\<lambda>_. sweep_staging_loop ns)"

definition sweep_staging :: "('b, 'e, unit) io" where
  "sweep_staging = match_io (fs_read_dir StagingDir) sweep_staging_loop (\<lambda>_. ret ())"

definition record_into_staging ::
  "'b camera_fn \<Rightarrow> string \<Rightarrow> duration \<Rightarrow> duration \<Rightarrow> ('b, capture_record_error, recorded_clip) io" where
  "record_into_staging cam rid max_duration hang_margin =
     (case checked_add max_duration hang_margin of
        None \<Rightarrow> throw DurationOverflow
      | Some outer \<Rightarrow>
          match_io (cam rid max_duration outer)
            (\<lambda>res. case res of
               Some clip \<Rightarrow>
                 if clip_bytes clip = 0
                 then bind_io (attempt (remove_clip_if_exists (clip_path clip))) (\<lambda>_. throw (EmptyClip (clip_path clip)))
                 else ret clip
             | None \<Rightarrow> bind_io sweep_staging (\<lambda>_. throw RecordTimeout))
            (\<lambda>err. bind_io sweep_staging (\<lambda>_. throw (RecordFailed err))))"

section \<open>Footprints\<close>

lemma uniform_sum_dir_loop [simp]: "(\<And>n. uniform (size_of n)) \<Longrightarrow> uniform (sum_dir_loop size_of ns tot)"
  by (induction ns arbitrary: tot) auto

lemma uniform_staging_bytes [simp]: "uniform (staging_bytes cd)"
  by (auto simp: staging_bytes_def sum_dir_def)

lemma uniform_purge_loop [simp]: "uniform (purge_loop cd ns rep)"
  by (induction ns arbitrary: rep) auto

lemma uniform_sweep [simp]: "uniform (sweep_staging_loop ns)" "uniform sweep_staging"
proof -
  show l: "uniform (sweep_staging_loop ns)" for ns :: "string list" by (induction ns) auto
  show "uniform sweep_staging" by (auto simp: sweep_staging_def l)
qed

lemma uniform_remove_clip_if_exists [simp]: "uniform (remove_clip_if_exists p)"
  by (auto simp: remove_clip_if_exists_def)

lemma footprint_sum_dir_loop [simp]: "(\<And>n. footprint P (size_of n)) \<Longrightarrow> footprint P (sum_dir_loop size_of ns tot)"
  by (induction ns arbitrary: tot) auto

lemma footprint_staging_bytes [simp]: "footprint P (staging_bytes cd)"
  by (auto simp: staging_bytes_def sum_dir_def)

lemma footprint_purge_loop: "footprint {p. fst p = StagingDir} (purge_loop cd ns rep)"
  by (induction ns arbitrary: rep) auto

lemma footprint_sweep: "footprint {p. fst p = StagingDir} (sweep_staging :: ('b, 'c, unit) io)"
proof -
  have l: "footprint {p. fst p = StagingDir} (sweep_staging_loop ns :: ('b, 'c, unit) io)" for ns by (induction ns) auto
  show ?thesis by (auto simp: sweep_staging_def l)
qed

lemma wf_staging_bytes [simp]: "preserves wf_world (staging_bytes cd)"
proof -
  have "preserves wf_world (sum_dir_loop size_of ns tot)" if "\<And>n. preserves wf_world (size_of n)"
    for size_of :: "string \<Rightarrow> ('a, io_error, u64) io" and ns tot
    using that by (induction ns arbitrary: tot) auto
  then show ?thesis by (auto simp: staging_bytes_def sum_dir_def)
qed

lemma wf_sweep_staging [simp]: "preserves wf_world (sweep_staging :: ('b, 'c, unit) io)"
proof -
  have l: "preserves wf_world (sweep_staging_loop ns :: ('b, 'c, unit) io)" for ns by (induction ns) auto
  show ?thesis by (auto simp: sweep_staging_def l)
qed

lemma wf_remove_clip [simp]: "preserves wf_world (remove_clip_if_exists p)"
  by (auto simp: remove_clip_if_exists_def)

section \<open>The purge\<close>

text \<open>The lengths of the staged files, in the order of the listing.\<close>

definition lens :: "'b codec \<Rightarrow> 'b world \<Rightarrow> string list \<Rightarrow> nat list" where
  "lens cd w ns = map (\<lambda>n. case look w (StagingDir, n) of None \<Rightarrow> 0 | Some b \<Rightarrow> blen cd b) ns"

lemma lens_Cons [simp]: "look w (StagingDir, n) = Some b \<Longrightarrow> lens cd w (n # ns) = blen cd b # lens cd w ns"
  by (simp add: lens_def)

definition add_files :: "'b codec \<Rightarrow> 'b world \<Rightarrow> string list \<Rightarrow> purge_report \<Rightarrow> purge_report" where
  "add_files cd w ns rep =
     \<lparr> removed_files = foldl (\<lambda>a _. sat_add u32_max a 1) (removed_files rep) ns,
       removed_bytes = foldl (sat_add u64_max) (removed_bytes rep) (lens cd w ns) \<rparr>"

lemma foldl_sat_add: "a \<le> m \<Longrightarrow> foldl (sat_add m) a xs = min (a + sum_list xs) m"
  by (induction xs arbitrary: a) (auto simp: sat_add_def min_def)

lemma foldl_sat_inc: "a \<le> m \<Longrightarrow> foldl (\<lambda>a _. sat_add m a (Suc 0)) a xs = min (a + length xs) m"
  by (induction xs arbitrary: a) (auto simp: sat_add_def min_def)

lemma purge_loop_wlp:
  assumes "distinct ns" "set ns \<subseteq> {n. look w (StagingDir, n) \<noteq> None}"
  shows "wlp (purge_loop cd ns rep)
     (\<lambda>rep' w'. (\<forall>n. look w' (StagingDir, n) = (if n \<in> set ns then None else look w (StagingDir, n))) \<and>
        rep' = add_files cd w ns rep) (\<lambda>_ _. True) (\<lambda>_. True) w"
  using assms
proof (induction ns arbitrary: rep w)
  case Nil
  show ?case by (simp add: wlp_simps add_files_def lens_def)
next
  case (Cons n ns)
  then obtain b where b: "look w (StagingDir, n) = Some b" by auto
  let ?w = "w\<lparr>files := AList.delete (StagingDir, n) (files w)\<rparr>"
  let ?rep = "\<lparr> removed_files = sat_add u32_max (removed_files rep) 1,
     removed_bytes = sat_add u64_max (removed_bytes rep) (blen cd b) \<rparr>"
  have l: "lens cd ?w ns = lens cd w ns" using Cons.prems by (auto simp: lens_def)
  have "wlp (purge_loop cd ns ?rep)
     (\<lambda>rep' w'. (\<forall>m. look w' (StagingDir, m) = (if m \<in> set ns then None else look ?w (StagingDir, m))) \<and>
        rep' = add_files cd ?w ns ?rep) (\<lambda>_ _. True) (\<lambda>_. True) ?w"
    using Cons.prems by (intro Cons.IH) auto
  then have "wlp (purge_loop cd ns ?rep)
     (\<lambda>rep' w'. (\<forall>m. look w' (StagingDir, m) = (if m \<in> set (n # ns) then None else look w (StagingDir, m))) \<and>
        rep' = add_files cd w (n # ns) rep) (\<lambda>_ _. True) (\<lambda>_. True) ?w"
    by (rule wlp_mono) (use b in \<open>simp_all add: add_files_def lens_Cons l\<close>)
  then show ?case using b by (simp add: wlp_match wlp_simps)
qed

text \<open>
  The startup purge, whatever the host injects, touches nothing outside the staging
  directory; when it returns a report, the staging directory is empty and the report is the
  exact (saturating) number and total size of the files that were there.
\<close>

theorem purge_exact:
  assumes "wf_world w" and run: "purge cd w fs = (r, w', fs')"
  shows "(\<forall>p. fst p \<noteq> StagingDir \<longrightarrow> look w' p = look w p) \<and>
    (case r of
       Ok rep \<Rightarrow> listing StagingDir (files w') = [] \<and>
         removed_files rep = min (length (listing StagingDir (files w))) u32_max \<and>
         removed_bytes rep = min (sum_list (lens cd w (listing StagingDir (files w)))) u64_max
     | _ \<Rightarrow> True)"
proof -
  let ?ns = "listing StagingDir (files w)"
  have "footprint {p. fst p = StagingDir} (purge cd)"
    by (auto simp: purge_def footprint_purge_loop)
  from footprintD [OF this run] have fp: "look w' p = look w p" if "fst p \<noteq> StagingDir" for p
    using that by simp
  have "wlp (purge_loop cd ?ns \<lparr> removed_files = 0, removed_bytes = 0 \<rparr>)
     (\<lambda>rep' w'. (\<forall>n. look w' (StagingDir, n) = (if n \<in> set ?ns then None else look w (StagingDir, n))) \<and>
        rep' = add_files cd w ?ns \<lparr> removed_files = 0, removed_bytes = 0 \<rparr>) (\<lambda>_ _. True) (\<lambda>_. True) w"
    by (rule purge_loop_wlp) (use assms(1) distinct_listing in \<open>auto simp: set_listing\<close>)
  then have "wlp (purge cd)
     (\<lambda>rep w'. (\<forall>n. look w' (StagingDir, n) = (if n \<in> set ?ns then None else look w (StagingDir, n))) \<and>
        rep = add_files cd w ?ns \<lparr> removed_files = 0, removed_bytes = 0 \<rparr>) (\<lambda>_ _. True) (\<lambda>_. True) w"
    by (simp add: purge_def wlp_simps)
  from wlp_run [OF this run] show ?thesis
  proof (cases r)
    case (Ok rep)
    with wlp_run [OF \<open>wlp (purge cd) _ _ _ w\<close> run]
    have gone: "\<forall>n. look w' (StagingDir, n) = None" and rep: "rep = add_files cd w ?ns \<lparr> removed_files = 0, removed_bytes = 0 \<rparr>"
      by (auto simp: set_listing)
    from gone have "set (listing StagingDir (files w')) = {}" by (simp add: set_listing domIff)
    then show ?thesis using fp Ok rep by (simp add: add_files_def foldl_sat_add foldl_sat_inc)
  qed (use fp in simp_all)
qed

definition ex_left :: "blob world" where
  "ex_left = \<lparr> files = [((PendingDir, ''a.json''), Bytes 3), ((StagingDir, ''x.mp4''), Bytes 7),
     ((StagingDir, ''y.mp4''), Bytes 5)], seq = 0, journal = [] \<rparr>"

theorem purge_exact_witness:
  "\<exists>w'. purge blob_codec ex_left [] = (Ok \<lparr> removed_files = 2, removed_bytes = 12 \<rparr>, w', []) \<and>
     listing StagingDir (files w') = [] \<and> look w' (PendingDir, ''a.json'') = Some (Bytes 3)"
proof -
  obtain w' where run: "purge blob_codec ex_left [] = (Ok \<lparr> removed_files = 2, removed_bytes = 12 \<rparr>, w', [])"
    by (simp add: exec_simps purge_def ex_left_def sat_add_def u32_max_def u64_max_def)
  moreover have "wf_world ex_left" by (simp add: wf_world_def ex_left_def)
  ultimately show ?thesis using purge_exact [OF _ run] by (auto simp: ex_left_def)
qed

section \<open>The footprint probe\<close>

lemma sum_dir_loop_wlp:
  assumes "\<And>n. wlp (size_of n) (\<lambda>v w'. v = f n \<and> w' = w) (\<lambda>_ _. True) (\<lambda>_. True) w" and "\<And>n. uniform (size_of n)"
  shows "wlp (sum_dir_loop size_of ns tot)
     (\<lambda>v w'. v = foldl (sat_add u64_max) tot (map f ns) \<and> w' = w) (\<lambda>_ _. True) (\<lambda>_. True) w"
proof (induction ns arbitrary: tot)
  case Nil
  show ?case by (simp add: wlp_simps)
next
  case (Cons n ns)
  show ?case
    using assms Cons.IH by (simp add: wlp_simps) (rule wlp_mono [OF assms(1)], auto)
qed

lemma staging_bytes_wlp:
  "wlp (staging_bytes cd)
     (\<lambda>v w'. v = min (sum_list (lens cd w (listing StagingDir (files w)))) u64_max \<and> w' = w)
     (\<lambda>_ w'. True) (\<lambda>w'. True) w"
proof -
  let ?size_of = "\<lambda>n. match_io (fs_metadata_len cd (StagingDir, n)) ret (\<lambda>err. if err = NotFound then ret 0 else throw err)"
  let ?f = "\<lambda>n. case look w (StagingDir, n) of None \<Rightarrow> 0 | Some b \<Rightarrow> blen cd b"
  have v: "wlp (?size_of n) (\<lambda>v w'. v = ?f n \<and> w' = w) (\<lambda>_ _. True) (\<lambda>_. True) w" for n
    by (auto simp: wlp_match wlp_simps split: option.split)
  have "wlp (sum_dir_loop ?size_of ns 0)
     (\<lambda>v w'. v = foldl (sat_add u64_max) 0 (map ?f ns) \<and> w' = w) (\<lambda>_ _. True) (\<lambda>_. True) w" for ns
    by (rule sum_dir_loop_wlp [OF v]) auto
  then show ?thesis
    by (auto simp: staging_bytes_def sum_dir_def wlp_match wlp_simps foldl_sat_add lens_def)
qed

section \<open>Recording one clip\<close>

lemma sweep_staging_loop_wlp:
  "wlp (sweep_staging_loop ns :: ('b, 'e, unit) io) (\<lambda>_ w'. True) (\<lambda>_ _. False) (\<lambda>w'. True) w"
proof (induction ns arbitrary: w)
  case Nil
  show ?case by (simp add: wlp_simps)
next
  case (Cons n ns)
  show ?case by (auto simp: wlp_match wlp_simps Cons.IH split: option.split)
qed

lemma sweep_staging_total:
  "wlp (sweep_staging :: ('b, 'e, unit) io) (\<lambda>_ w'. True) (\<lambda>_ _. False) (\<lambda>w'. True) w"
  by (simp add: sweep_staging_def wlp_match wlp_simps sweep_staging_loop_wlp)

lemma run_sweep_staging_loop:
  "\<exists>w'. (sweep_staging_loop ns :: ('b, 'e, unit) io) w [] = (Ok (), w', []) \<and>
     (\<forall>p. look w' p = (if fst p = StagingDir \<and> snd p \<in> set ns then None else look w p))"
proof (induction ns arbitrary: w)
  case Nil
  show ?case by (simp add: run_simps)
next
  case (Cons n ns)
  let ?w = "case look w (StagingDir, n) of None \<Rightarrow> w | Some _ \<Rightarrow> w\<lparr>files := AList.delete (StagingDir, n) (files w)\<rparr>"
  obtain w' where "(sweep_staging_loop ns :: ('b, 'e, unit) io) ?w [] = (Ok (), w', [])"
    and "\<forall>p. look w' p = (if fst p = StagingDir \<and> snd p \<in> set ns then None else look ?w p)"
    using Cons.IH by blast
  then show ?case
    by (intro exI [of _ w']) (auto simp: run_simps prod_eq_iff split: option.splits)
qed

context camera
begin

lemma recorded_wlp:
  "wlp (cam rid dur outer)
     (\<lambda>res w'. case res of None \<Rightarrow> True | Some clip \<Rightarrow>
        fst (clip_path clip) = StagingDir \<and> (\<exists>b. look w' (clip_path clip) = Some b \<and> blen cd b = clip_bytes clip))
     (\<lambda>_ _. True) (\<lambda>_. True) w"
  unfolding wlp_def using recorded by (fastforce split: prod.splits res.splits option.splits)

lemma uniform_record [simp]: "uniform (record_into_staging cam rid dur margin)"
  by (auto simp: record_into_staging_def uniform_cam split: option.split)

lemma record_wf: "preserves wf_world (record_into_staging cam rid dur margin)"
  by (auto simp: record_into_staging_def cam_wf intro!: preserves_match split: option.split)

text \<open>A clip that is handed on is in the staging directory, is not empty, and has the length it claims.\<close>

lemma record_wlp:
  "wlp (record_into_staging cam rid dur margin)
     (\<lambda>clip w'. fst (clip_path clip) = StagingDir \<and> 0 < clip_bytes clip \<and>
        (\<exists>b. look w' (clip_path clip) = Some b \<and> blen cd b = clip_bytes clip))
     (\<lambda>_ _. True) (\<lambda>_. True) w"
proof (cases "checked_add dur margin")
  case None
  then show ?thesis by (simp add: record_into_staging_def wlp_simps)
next
  case (Some outer)
  show ?thesis
    unfolding record_into_staging_def Some option.case wlp_match [OF uniform_cam]
    by (rule wlp_mono [OF recorded_wlp]) (auto simp: wlp_simps split: option.splits)
qed

text \<open>Recording touches the staging directory only.\<close>

lemma record_footprint: "footprint {p. fst p = StagingDir} (record_into_staging cam rid dur margin)"
  unfolding footprint_def
proof (intro allI impI)
  fix w fs r w' fs' and p :: path
  assume run: "record_into_staging cam rid dur margin w fs = (r, w', fs')" and p: "p \<notin> {p. fst p = StagingDir}"
  show "look w' p = look w p"
  proof (cases "checked_add dur margin")
    case None
    then show ?thesis using run by (simp add: record_into_staging_def throw_def)
  next
    case (Some outer)
    obtain r1 w1 fs1 where m1: "cam rid dur outer w fs = (r1, w1, fs1)" by (cases "cam rid dur outer w fs") auto
    have l1: "look w1 p = look w p" using footprintD [OF staging_only m1 p] .
    have rm: "footprint {p. fst p = StagingDir} (remove_clip_if_exists q)" if "fst q = StagingDir" for q
      using that by (auto simp: remove_clip_if_exists_def)
    note fp = footprintD [OF footprint_sweep _ p] footprintD [OF rm _ p]
    show ?thesis
      using run m1 l1 recorded [of rid dur outer w fs]
      by (cases r1) (auto simp: record_into_staging_def Some match_io_def bind_io_def attempt_def ret_def throw_def
          dest!: fp split: option.splits if_splits prod.splits res.splits)
  qed
qed

end

end
