(* ===== verification/Camera_Recorder.thy ===== *)
theory Camera_Recorder
  imports Capture_Staging
begin

text \<open>
  The production camera, \<^verbatim>\<open>crates/perchstation-hw/src/camera_recorder.rs\<close>: it spawns the camera
  command with an output file in the staging directory and waits for its exit, under a guard
  that removes the output file unless the recording is good. The command itself is third
  party: \<open>camera_child\<close> gives, for its argument list, how it ends and what it leaves in the
  output file, the only file it is told to write. The adapter is a model of the locale
  \<open>camera\<close>.
\<close>

record libcamera_vid =
  binary :: string
  width :: u32
  height :: u32
  framerate :: u32
  bitrate_bps :: u64

definition default_binary :: string where
  "default_binary = ''rpicam-vid''"

definition new_libcamera_vid :: "u32 \<Rightarrow> u32 \<Rightarrow> u32 \<Rightarrow> u64 \<Rightarrow> libcamera_vid" where
  "new_libcamera_vid w h f b =
     \<lparr> binary = default_binary, width = w, height = h, framerate = f, bitrate_bps = b \<rparr>"

definition with_binary :: "string \<Rightarrow> libcamera_vid \<Rightarrow> libcamera_vid" where
  "with_binary b cam = cam\<lparr>binary := b\<rparr>"

text \<open>An argument of the command is a text or the output path.\<close>

datatype arg = Text string | PathArg path

definition build_command :: "libcamera_vid \<Rightarrow> path \<Rightarrow> u64 \<Rightarrow> arg list" where
  "build_command cam out max_ms =
     [Text (binary cam), Text ''--timeout'', Text (show_nat max_ms), Text ''--codec'', Text ''h264'', Text ''--inline'',
      Text ''--width'', Text (show_nat (width cam)), Text ''--height'', Text (show_nat (height cam)),
      Text ''--framerate'', Text (show_nat (framerate cam)), Text ''--bitrate'', Text (show_nat (bitrate_bps cam)),
      Text ''--nopreview'', Text ''-o'', PathArg out]"

text \<open>
  What the host decides about one call: how the child ends (its exit code, or \<open>None\<close> when a
  signal killed it) and what it leaves at the output path (\<open>None\<close>: it never wrote it), at which
  \<^verbatim>\<open>await\<close>, if any, the future is dropped, and the clock readings.
\<close>

datatype drop_point = NoDrop | DropAtCreateDir | DropAtWait | DropAtMetadata

record 'b camera_host =
  child_exit :: "arg list \<Rightarrow> int option"
  child_leaves :: "arg list \<Rightarrow> 'b option"
  drop_at :: "duration \<Rightarrow> arg list \<Rightarrow> drop_point"
  wall :: "arg list \<Rightarrow> instant \<times> instant"
  spawn_text :: "io_error \<Rightarrow> string"

definition spawn_child :: "('b, io_error, unit) io" where
  "spawn_child = prim (\<lambda>w. (Inr (), w)) no_part"

definition child_wait :: "'b camera_host \<Rightarrow> arg list \<Rightarrow> path \<Rightarrow> ('b, io_error, int option) io" where
  "child_wait h args out =
     prim (\<lambda>w. (Inr (child_exit h args), write_part out (child_leaves h args) w)) (write_part out)"

text \<open>
  Dropping the guard: the child, if it still runs, is killed and has left what it wrote so
  far; then the output file is removed, a failure to do so being ignored.
\<close>

definition drop_guard :: "path \<Rightarrow> ('b, 'e, unit) io" where
  "drop_guard out = match_io (fs_remove_file out) ret (\<lambda>_. ret ())"

definition show_int :: "int \<Rightarrow> string" where
  "show_int i = (if i < 0 then ''-'' @ show_nat (nat (- i)) else show_nat (nat i))"

definition record_clip :: "'b codec \<Rightarrow> 'b camera_host \<Rightarrow> libcamera_vid \<Rightarrow> 'b camera_fn" where
  "record_clip cd h cam rid max_duration outer =
     (let out = (StagingDir, rid @ ''.mp4'');
          args = build_command cam out (min (max_duration div 1000000) u64_max);
          dp = drop_at h outer args in
      bind_io (map_err CameraIo fs_create_dir_all) (\<lambda>_.
      if dp = DropAtCreateDir then ret None
      else bind_io (map_err (\<lambda>err. OpenFailed (''spawn `'' @ binary cam @ ''` failed: '' @ spawn_text h err)) spawn_child) (\<lambda>_.
      match_io (child_wait h args out)
        (\<lambda>code.
           if dp = DropAtWait then bind_io (drop_guard out) (\<lambda>_. ret None)
           else if code \<noteq> Some 0
           then bind_io (drop_guard out) (\<lambda>_.
                throw (Aborted (binary cam @ '' exited with status '' @ show_int (case code of Some c \<Rightarrow> c | None \<Rightarrow> -1))))
           else if dp = DropAtMetadata then bind_io (drop_guard out) (\<lambda>_. ret None)
           else match_io (fs_metadata_len cd out)
             (\<lambda>len. if len = 0 then bind_io (drop_guard out) (\<lambda>_. throw EmptyOutput)
                else ret (Some \<lparr> clip_path = out, started_at = fst (wall h args), ended_at = snd (wall h args),
                                 clip_bytes = len \<rparr>))
             (\<lambda>err. bind_io (drop_guard out) (\<lambda>_. throw (CameraIo err))))
        (\<lambda>err. bind_io (drop_guard out) (\<lambda>_. throw (CameraIo err))))))"

section \<open>The adapter keeps the camera contract\<close>

lemma uniform_guard [simp]: "uniform spawn_child" "uniform (child_wait h args out)" "uniform (drop_guard out)"
  by (auto simp: spawn_child_def child_wait_def drop_guard_def)

lemma footprint_guard [simp]:
  "footprint P spawn_child" "out \<in> P \<Longrightarrow> footprint P (child_wait h args out)" "out \<in> P \<Longrightarrow> footprint P (drop_guard out)"
  by (auto simp: spawn_child_def child_wait_def drop_guard_def footprint_def prim_def write_part_def match_io_def ret_def
      fs_remove_file_def split: prod.splits list.splits fault.splits sum.splits option.splits res.splits)

lemma wf_guard [simp]:
  "preserves wf_world spawn_child" "preserves wf_world (child_wait h args out)"
  "preserves wf_world (drop_guard out :: ('b, 'e, unit) io)"
  unfolding spawn_child_def child_wait_def drop_guard_def
  by (auto intro!: wf_prim simp: wf_world_def write_part_def distinct_update split: option.splits)

text \<open>
  The camera did its work: no \<^verbatim>\<open>await\<close> was cut off by the timeout \<open>outer\<close>, the command ended with status zero,
  and \<open>b\<close> is what is then in the output file (what the command left there, or an older file if it wrote nothing).
\<close>

definition camera_delivered ::
  "'b codec \<Rightarrow> 'b camera_host \<Rightarrow> libcamera_vid \<Rightarrow> path \<Rightarrow> duration \<Rightarrow> duration \<Rightarrow> 'b world \<Rightarrow> 'b \<Rightarrow> bool" where
  "camera_delivered cd h cam out dur outer w b \<longleftrightarrow>
     (let args = build_command cam out (min (dur div 1000000) u64_max) in
      drop_at h outer args = NoDrop \<and> child_exit h args = Some 0 \<and>
      (case child_leaves h args of Some x \<Rightarrow> b = x | None \<Rightarrow> look w out = Some b) \<and> 0 < blen cd b)"

lemma record_clip_wlp:
  "wlp (record_clip cd h cam rid dur outer)
     (\<lambda>res w'. case res of None \<Rightarrow> True | Some clip \<Rightarrow>
        clip_path clip = (StagingDir, rid @ ''.mp4'') \<and> 0 < clip_bytes clip \<and>
        (\<exists>b. look w' (clip_path clip) = Some b \<and> blen cd b = clip_bytes clip \<and> camera_delivered cd h cam (clip_path clip) dur outer w b))
     (\<lambda>_ _. True) (\<lambda>_. True) w"
proof -
  have "dp = NoDrop" if "dp \<noteq> DropAtCreateDir" "dp \<noteq> DropAtWait" "dp \<noteq> DropAtMetadata" for dp
    using that by (cases dp) auto
  then show ?thesis
    by (auto simp: record_clip_def camera_delivered_def Let_def wlp_match wlp_simps wlp_prim spawn_child_def child_wait_def
        drop_guard_def write_part_def split: option.split)
qed

interpretation libcamera: camera cd "record_clip cd h cam" for cd h cam
proof
  fix rid dur outer
  show "uniform (record_clip cd h cam rid dur outer)"
    by (auto simp: record_clip_def Let_def)
  show "footprint {p. fst p = StagingDir} (record_clip cd h cam rid dur outer)"
    by (auto simp: record_clip_def Let_def)
  show "preserves wf_world (record_clip cd h cam rid dur outer)"
    by (auto simp: record_clip_def Let_def)
next
  fix rid dur outer w fs clip w' fs'
  assume "record_clip cd h cam rid dur outer w fs = (Ok (Some clip), w', fs')"
  from wlp_run [OF record_clip_wlp this]
  show "fst (clip_path clip) = StagingDir \<and> (\<exists>b. look w' (clip_path clip) = Some b \<and> blen cd b = clip_bytes clip)"
    by auto
qed

section \<open>No half-written clip survives a failed recording\<close>

lemma run_drop_guard [run_simps]:
  "(drop_guard out :: ('b, 'e, unit) io) w [] =
     (Ok (), case look w out of None \<Rightarrow> w | Some _ \<Rightarrow> w\<lparr>files := AList.delete out (files w)\<rparr>, [])"
  by (simp add: drop_guard_def run_simps split: option.split)

lemma run_child [run_simps]:
  "spawn_child w [] = (Ok (), w, [])"
  "child_wait h args out w [] = (Ok (child_exit h args), write_part out (child_leaves h args) w, [])"
  by (simp_all add: spawn_child_def child_wait_def prim_def)

lemma run_record_clip:
  "\<exists>r w'. record_clip cd h cam rid dur outer w [] = (r, w', []) \<and> r \<noteq> Crashed"
  by (simp add: record_clip_def Let_def run_simps split: option.split prod.split)

lemma run_sweep_staging:
  "\<exists>w'. (sweep_staging :: ('b, 'e, unit) io) w [] = (Ok (), w', []) \<and> listing StagingDir (files w') = []"
proof -
  obtain w' where run: "(sweep_staging_loop (listing StagingDir (files w)) :: ('b, 'e, unit) io) w [] = (Ok (), w', [])"
    and gone: "\<forall>p. look w' p = (if fst p = StagingDir \<and> snd p \<in> set (listing StagingDir (files w)) then None else look w p)"
    using run_sweep_staging_loop by blast
  have "look w' (StagingDir, n) = None" for n
    using gone by (auto simp: set_listing domIff)
  then have "set (listing StagingDir (files w')) = {}" by (simp add: set_listing domIff)
  then show ?thesis using run by (simp add: sweep_staging_def run_simps)
qed

text \<open>On a host whose calls work the camera answers with a clip exactly when it did its work.\<close>

lemma run_record_clip_fails:
  assumes "record_clip cd h cam rid dur outer w [] = (r, w', [])" "\<And>clip. r \<noteq> Ok (Some clip)"
  shows "\<not> camera_delivered cd h cam (StagingDir, rid @ ''.mp4'') dur outer w b"
  using assms
  by (auto simp: record_clip_def camera_delivered_def Let_def run_simps write_part_def split: option.splits if_splits)

text \<open>
  C29: Recording with the production camera. Under every fault schedule a recording that is returned is the file the
  recording id names, not empty and of the length reported, and it is complete: the camera command was not cut off by
  the timeout, it ended with status zero, and the file holds what it left there. On a host whose file
  system calls all work the recording always returns; it fails only if the command was cut off, ended otherwise or
  left no bytes, and then the staging directory is empty, whatever the command wrote.
\<close>

theorem recording_leaves_no_partial:
  assumes fits: "dur + margin \<le> duration_max"
    and run: "record_into_staging (record_clip cd h cam) rid dur margin w fs = (r, w', fs')"
  defines "out \<equiv> (StagingDir, rid @ ''.mp4'')" and "args \<equiv> build_command cam (StagingDir, rid @ ''.mp4'') (min (dur div 1000000) u64_max)"
  shows "(\<forall>clip. r = Ok clip \<longrightarrow> clip_path clip = out \<and> drop_at h (dur + margin) args = NoDrop \<and> child_exit h args = Some 0 \<and>
      (\<exists>b. look w' out = Some b \<and> (case child_leaves h args of Some x \<Rightarrow> b = x | None \<Rightarrow> look w out = Some b) \<and>
         blen cd b = clip_bytes clip \<and> 0 < blen cd b)) \<and>
    (fs = [] \<longrightarrow> r \<noteq> Crashed \<and>
      (\<forall>err. r = Err err \<longrightarrow> listing StagingDir (files w') = [] \<and>
         \<not> (drop_at h (dur + margin) args = NoDrop \<and> child_exit h args = Some 0 \<and>
            (\<exists>b. (case child_leaves h args of Some x \<Rightarrow> b = x | None \<Rightarrow> look w out = Some b) \<and> 0 < blen cd b))))"
proof (intro conjI impI allI)
  let ?cam = "record_clip cd h cam rid dur (dur + margin)"
  have outer: "checked_add dur margin = Some (dur + margin)" using fits by (simp add: checked_add_def)
  have wlp: "wlp (record_into_staging (record_clip cd h cam) rid dur margin)
      (\<lambda>clip w'. clip_path clip = out \<and>
        (\<exists>b. look w' out = Some b \<and> blen cd b = clip_bytes clip \<and> camera_delivered cd h cam out dur (dur + margin) w b))
      (\<lambda>_ _. True) (\<lambda>_. True) w"
    unfolding record_into_staging_def outer option.case wlp_match [OF libcamera.uniform_cam]
    by (rule wlp_mono [OF record_clip_wlp]) (auto simp: wlp_simps out_def split: option.splits)
  show "clip_path clip = out" "drop_at h (dur + margin) args = NoDrop" "child_exit h args = Some 0"
    "\<exists>b. look w' out = Some b \<and> (case child_leaves h args of Some x \<Rightarrow> b = x | None \<Rightarrow> look w out = Some b) \<and>
       blen cd b = clip_bytes clip \<and> 0 < blen cd b" if "r = Ok clip" for clip
    using wlp_run [OF wlp run] that unfolding args_def out_def by (auto simp: camera_delivered_def Let_def)
  obtain r1 w1 where m1: "?cam w [] = (r1, w1, [])" and nc: "r1 \<noteq> Crashed"
    using run_record_clip by blast
  obtain w2 where s: "(sweep_staging :: (_, capture_record_error, unit) io) w1 [] = (Ok (), w2, [])"
    "listing StagingDir (files w2) = []"
    using run_sweep_staging by blast
  have clip: "0 < clip_bytes clip" if "r1 = Ok (Some clip)" for clip
    using wlp_run [OF record_clip_wlp m1] that by auto
  have all: "r \<noteq> Crashed \<and> (\<forall>err. r = Err err \<longrightarrow> listing StagingDir (files w') = [] \<and> (\<forall>clip. r1 \<noteq> Ok (Some clip)))"
    if "fs = []"
    using run [unfolded that] m1 nc s outer clip
    by (cases r1) (auto simp: record_into_staging_def run_simps split: option.splits)
  show "r \<noteq> Crashed" "r = Err err \<Longrightarrow> listing StagingDir (files w') = []" if "fs = []" for err
    using all [OF that] by auto
  show "\<not> (drop_at h (dur + margin) args = NoDrop \<and> child_exit h args = Some 0 \<and>
      (\<exists>b. (case child_leaves h args of Some x \<Rightarrow> b = x | None \<Rightarrow> look w out = Some b) \<and> 0 < blen cd b))"
    if "fs = []" "r = Err err" for err
  proof -
    have "\<not> camera_delivered cd h cam out dur (dur + margin) w b" for b
      using run_record_clip_fails [OF m1] all [OF that(1)] that(2) by (simp add: out_def)
    then show ?thesis unfolding args_def out_def by (auto simp: camera_delivered_def Let_def)
  qed
qed

definition ex_camera :: libcamera_vid where
  "ex_camera = new_libcamera_vid 1280 720 30 4000000"

definition ex_host :: "nat \<Rightarrow> int option \<Rightarrow> drop_point \<Rightarrow> blob camera_host" where
  "ex_host n code dp = \<lparr> child_exit = (\<lambda>_. code), child_leaves = (\<lambda>_. Some (Bytes n)), drop_at = (\<lambda>_ _. dp),
     wall = (\<lambda>_. (100, 108)), spawn_text = (\<lambda>_. ''x'') \<rparr>"

lemmas camera_exec [exec_simps] =
  record_clip_def Let_def spawn_child_def child_wait_def drop_guard_def ex_host_def
  record_into_staging_def checked_add_def duration_max_def u64_max_def sweep_staging_def remove_clip_if_exists_def

lemma ex_recording:
  "\<exists>w'. record_into_staging (record_clip blob_codec (ex_host 9 (Some 0) NoDrop) ex_camera) ''r'' 8 2 ex_left []
     = (Ok \<lparr> clip_path = (StagingDir, ''r.mp4''), started_at = 100, ended_at = 108, clip_bytes = 9 \<rparr>, w', [])"
  "\<exists>err w'. record_into_staging (record_clip blob_codec (ex_host 9 (Some 1) NoDrop) ex_camera) ''r'' 8 2 ex_left []
     = (Err err, w', [])"
  by (simp_all add: exec_simps ex_left_def)

theorem recording_leaves_no_partial_witness:
  "(\<exists>w'. record_into_staging (record_clip blob_codec (ex_host 9 (Some 0) NoDrop) ex_camera) ''r'' 8 2 ex_left []
     = (Ok \<lparr> clip_path = (StagingDir, ''r.mp4''), started_at = 100, ended_at = 108, clip_bytes = 9 \<rparr>, w', []) \<and>
     look w' (StagingDir, ''r.mp4'') = Some (Bytes 9)) \<and>
   (\<exists>err w'. record_into_staging (record_clip blob_codec (ex_host 9 (Some 1) NoDrop) ex_camera) ''r'' 8 2 ex_left []
     = (Err err, w', []) \<and> listing StagingDir (files w') = [])"
proof -
  have fits: "8 + 2 \<le> duration_max" by (simp add: duration_max_def)
  obtain w1 where run1: "record_into_staging (record_clip blob_codec (ex_host 9 (Some 0) NoDrop) ex_camera) ''r'' 8 2 ex_left []
     = (Ok \<lparr> clip_path = (StagingDir, ''r.mp4''), started_at = 100, ended_at = 108, clip_bytes = 9 \<rparr>, w1, [])" using ex_recording(1) by blast
  obtain err w2 where run2: "record_into_staging (record_clip blob_codec (ex_host 9 (Some 1) NoDrop) ex_camera) ''r'' 8 2 ex_left []
     = (Err err, w2, [])" using ex_recording(2) by blast
  have "look w1 (StagingDir, ''r.mp4'') = Some (Bytes 9)"
    using recording_leaves_no_partial [OF fits run1] by (auto simp: ex_host_def)
  then show ?thesis
    using run1 run2 recording_leaves_no_partial [OF fits run2] by blast
qed

end
