(* ===== verification/Capture.thy ===== *)
theory Capture
  imports Camera_Recorder
begin

text \<open>
  The capture supervisor, \<^verbatim>\<open>crates/perchstation-core/src/capture/runner.rs\<close> and
  \<^verbatim>\<open>capture/mod.rs\<close>: the one task that owns the motion sensor, the camera and the gates. A
  trigger passes the cooldown, liveness and disk-pressure gates, is recorded into the staging
  directory and submitted to the inbox; a tick probes the sensor. The theory composes the
  inbox of \<open>Queue_Policy\<close>, the camera of \<open>Camera_Recorder\<close> and the gates of
  \<open>Capture_Liveness\<close>.
\<close>

section \<open>State and environment\<close>

text \<open>
  \<open>capture_env\<close> holds what does not change while the supervisor runs: the configuration, the
  camera and the inbox it was constructed with, the bytes codec, chrono's limits, and the
  renderings the standard library and chrono provide.
\<close>

record 'b capture_env =
  ce_codec :: "'b codec"
  ce_camera :: "'b camera_fn"
  ce_submit :: "path \<Rightarrow> instant \<Rightarrow> instant \<Rightarrow> ('b, inbox_error, clip_queue_entry) io"
  ce_config :: capture_config
  ce_limits :: chrono_limits
  ce_fmt :: "instant \<Rightarrow> string"
  ce_io_text :: "io_error \<Rightarrow> string"
  ce_path_text :: "path \<Rightarrow> string"
  ce_json_text :: string

record supervisor =
  sv_state :: capture_state
  sv_cooldown :: cooldown_state
  sv_liveness :: liveness_tracker

text \<open>The readings of the clock while one trigger is handled, by the place that reads it.\<close>

record trigger_clock =
  gate_now :: instant
  record_start :: instant
  enqueue_now :: instant
  completed_now :: instant
  failed_now :: instant
  cooldown_now :: instant

definition new_capture :: "chrono_limits \<Rightarrow> capture_config \<Rightarrow> supervisor option" where
  "new_capture lims cfg =
     map_option (\<lambda>tr. \<lparr> sv_state = new_capture_state, sv_cooldown = None, sv_liveness = tr \<rparr>)
       (new_tracker lims (liveness_stuck_secs cfg))"

definition recording_id :: "(instant \<Rightarrow> string) \<Rightarrow> instant \<Rightarrow> string" where
  "recording_id fmt t = fmt t @ ''-cap''"

fun camera_error_text :: "(io_error \<Rightarrow> string) \<Rightarrow> camera_error \<Rightarrow> string" where
  "camera_error_text io_text (OpenFailed msg) = ''camera open failed: '' @ msg"
| "camera_error_text io_text (CameraIo x) = ''camera I/O error during recording: '' @ io_text x"
| "camera_error_text io_text (Aborted msg) = ''recording aborted: '' @ msg"
| "camera_error_text io_text EmptyOutput = ''no media bytes were produced (camera busy or off)''"

fun camera_error_kind :: "camera_error \<Rightarrow> string" where
  "camera_error_kind (OpenFailed _) = ''open_failed''"
| "camera_error_kind (CameraIo _) = ''io''"
| "camera_error_kind (Aborted _) = ''aborted''"
| "camera_error_kind EmptyOutput = ''empty_output''"

fun queue_error_text :: "(path \<Rightarrow> string) \<Rightarrow> (io_error \<Rightarrow> string) \<Rightarrow> string \<Rightarrow> queue_error \<Rightarrow> string" where
  "queue_error_text path_text io_text json_text (Io p x) = ''queue I/O error at `'' @ path_text p @ ''`: '' @ io_text x"
| "queue_error_text path_text io_text json_text Serialise = ''could not serialise sidecar JSON: '' @ json_text"
| "queue_error_text path_text io_text json_text (Deserialise p) =
     ''could not deserialise sidecar JSON at `'' @ path_text p @ ''`: '' @ json_text"
| "queue_error_text path_text io_text json_text (MissingMedia cid) =
     ''queue entry `'' @ cid @ ''` is missing its `.mp4` media file''"
| "queue_error_text path_text io_text json_text (DiskFull p) =
     ''disk full while writing queue entry at `'' @ path_text p @ ''`''"

fun sensor_liveness_label :: "sensor_liveness \<Rightarrow> string" where
  "sensor_liveness_label Healthy = ''healthy''"
| "sensor_liveness_label (StuckAsserted _) = ''stuck_asserted''"
| "sensor_liveness_label (Unavailable _ _) = ''unavailable''"

section \<open>The liveness tick\<close>

definition emit_degraded :: "degraded_kind \<Rightarrow> instant \<Rightarrow> string option \<Rightarrow> ('b, 'e, unit) io" where
  "emit_degraded kind since reason = emit (CaptureEv (CaptureSensorDegraded (degraded_kind_as_str kind) since reason))"

definition emit_recovered :: "degraded_kind \<Rightarrow> ('b, 'e, unit) io" where
  "emit_recovered kind = emit (CaptureEv (CaptureSensorRecovered (degraded_kind_as_str kind)))"

fun apply_transition :: "liveness_transition \<Rightarrow> supervisor \<Rightarrow> ('b, 'e, supervisor) io" where
  "apply_transition NoChange sv = ret sv"
| "apply_transition (Degraded kind since reason) sv =
     bind_io (emit_degraded kind since reason) (\<lambda>_.
     let snap = (case kind of KindStuckAsserted \<Rightarrow> SnapStuckAsserted | KindUnavailable \<Rightarrow> SnapUnavailable) in
     ret (sv\<lparr>sv_state := set_liveness snap (Some since) (sv_state sv)\<rparr>))"
| "apply_transition (Recovered kind) sv =
     bind_io (emit_recovered kind) (\<lambda>_.
     ret (sv\<lparr>sv_state := set_liveness SnapHealthy None (sv_state sv)\<rparr>))"

definition update_liveness ::
  "'b capture_env \<Rightarrow> instant \<Rightarrow> motion_sensor_error + sensor_level \<Rightarrow> supervisor \<Rightarrow> ('b, 'e, supervisor) io" where
  "update_liveness env now level sv =
     (let (tr, transition) = observe_level (ce_io_text env) now level (sv_liveness sv) in
      apply_transition transition (sv\<lparr>sv_liveness := tr\<rparr>))"

section \<open>One trigger\<close>

definition start_cooldown :: "'b capture_env \<Rightarrow> trigger_clock \<Rightarrow> supervisor \<Rightarrow> ('b, 'e, supervisor) io" where
  "start_cooldown env clk sv =
     (case start_after (ce_limits env) (cooldown_now clk) (cooldown_secs (ce_config env)) of
        None \<Rightarrow> crash_now
      | Some c \<Rightarrow> ret (sv\<lparr>sv_cooldown := c\<rparr>))"

definition note_failure :: "trigger_clock \<Rightarrow> string \<Rightarrow> string \<Rightarrow> supervisor \<Rightarrow> supervisor" where
  "note_failure clk kind msg sv = sv\<lparr>sv_state := record_failure (failed_now clk) kind msg (sv_state sv)\<rparr>"

definition handle_recording_overflow ::
  "'b capture_env \<Rightarrow> trigger_clock \<Rightarrow> string \<Rightarrow> supervisor \<Rightarrow> ('b, 'e, supervisor) io" where
  "handle_recording_overflow env clk rid sv =
     bind_io (emit (CaptureEv (CaptureRecordingFailed rid ''config_overflow''))) (\<lambda>_.
     start_cooldown env clk (note_failure clk ''config_overflow'' ''clip_duration + hang_margin overflow'' sv))"

definition handle_recording_failed ::
  "'b capture_env \<Rightarrow> trigger_clock \<Rightarrow> string \<Rightarrow> camera_error \<Rightarrow> supervisor \<Rightarrow> ('b, 'e, supervisor) io" where
  "handle_recording_failed env clk rid err sv =
     bind_io (emit (CaptureEv (CaptureRecordingFailed rid (camera_error_kind err)))) (\<lambda>_.
     start_cooldown env clk (note_failure clk ''recording_failed'' (camera_error_text (ce_io_text env) err) sv))"

definition handle_recording_empty ::
  "'b capture_env \<Rightarrow> trigger_clock \<Rightarrow> string \<Rightarrow> supervisor \<Rightarrow> ('b, 'e, supervisor) io" where
  "handle_recording_empty env clk rid sv =
     bind_io (emit (CaptureEv (CaptureRecordingFailed rid ''empty_output''))) (\<lambda>_.
     start_cooldown env clk (note_failure clk ''recording_failed'' ''empty clip'' sv))"

definition handle_recording_hung ::
  "'b capture_env \<Rightarrow> trigger_clock \<Rightarrow> string \<Rightarrow> duration \<Rightarrow> supervisor \<Rightarrow> ('b, 'e, supervisor) io" where
  "handle_recording_hung env clk rid max_duration sv =
     (let ms = min (int (max_duration div 1000000)) i64_max in
      bind_io (emit (CaptureEv (CaptureRecordingHung rid ms))) (\<lambda>_.
      start_cooldown env clk (note_failure clk ''camera_hang'' (show_int ms @ '' ms'') sv)))"

definition submit_clip ::
  "'b capture_env \<Rightarrow> trigger_clock \<Rightarrow> string \<Rightarrow> instant \<Rightarrow> recorded_clip \<Rightarrow> supervisor \<Rightarrow> ('b, unit, supervisor) io" where
  "submit_clip env clk rid triggered_at clip sv =
     match_io (ce_submit env (clip_path clip) triggered_at (enqueue_now clk))
       (\<lambda>entry.
          bind_io (emit (CaptureEv (CaptureRecordingCompleted rid (clip_id entry) (clip_bytes clip)
            (max 0 ((completed_now clk - record_start clk) div 1000000))))) (\<lambda>_.
          start_cooldown env clk (sv\<lparr>sv_state := record_success (clip_id entry) triggered_at (sv_state sv)\<rparr>)))
       (\<lambda>err. case err of
          QueueFull cur_clips top_clips cur_bytes top_bytes \<Rightarrow>
            bind_io (attempt (fs_remove_file (clip_path clip))) (\<lambda>_.
            bind_io (emit (CaptureEv (CaptureQueueRefused rid ''queue_full''))) (\<lambda>_.
            start_cooldown env clk (note_failure clk ''queue_full''
              (show_nat cur_clips @ ''/'' @ show_nat top_clips @ '' clips, '' @ show_nat cur_bytes @ ''/'' @ show_nat top_bytes @ '' bytes'') sv)))
        | Queue q \<Rightarrow>
            bind_io (attempt (fs_remove_file (clip_path clip))) (\<lambda>_.
            bind_io (emit (CaptureEv (CaptureQueueRefused rid ''queue_io''))) (\<lambda>_.
            start_cooldown env clk (note_failure clk ''queue_io''
              (queue_error_text (ce_path_text env) (ce_io_text env) (ce_json_text env) q) sv))))"

definition record_and_handle ::
  "'b capture_env \<Rightarrow> trigger_clock \<Rightarrow> instant \<Rightarrow> supervisor \<Rightarrow> ('b, unit, supervisor) io" where
  "record_and_handle env clk triggered_at sv =
     (let rid = recording_id (ce_fmt env) triggered_at;
          max_duration = clip_duration_secs (ce_config env) * 1000000000;
          hang_margin = hang_margin_secs (ce_config env) * 1000000000 in
      bind_io (emit (CaptureEv (CaptureRecordingStarted rid triggered_at))) (\<lambda>_.
      match_io (record_into_staging (ce_camera env) rid max_duration hang_margin)
        (\<lambda>clip. submit_clip env clk rid triggered_at clip sv)
        (\<lambda>err. case err of
           RecordFailed x \<Rightarrow> handle_recording_failed env clk rid x sv
         | EmptyClip p \<Rightarrow> handle_recording_empty env clk rid sv
         | RecordTimeout \<Rightarrow> handle_recording_hung env clk rid max_duration sv
         | DurationOverflow \<Rightarrow> handle_recording_overflow env clk rid sv)))"

definition handle_trigger ::
  "'b capture_env \<Rightarrow> trigger_clock \<Rightarrow> motion_sensor_error + instant \<Rightarrow> supervisor \<Rightarrow> ('b, unit, supervisor) io" where
  "handle_trigger env clk trigger sv =
     (case trigger of
        Inl err \<Rightarrow>
          (let (tr, transition) = observe_trigger_error (ce_io_text env) (gate_now clk) err (sv_liveness sv) in
           apply_transition transition (sv\<lparr>sv_liveness := tr\<rparr>))
      | Inr triggered_at \<Rightarrow>
          bind_io (emit (CaptureEv (CaptureTriggerObserved triggered_at))) (\<lambda>_.
          if is_active (gate_now clk) (sv_cooldown sv)
          then bind_io (emit (CaptureEv (CaptureCooldownSkip (the (sv_cooldown sv))))) (\<lambda>_. ret sv)
          else if is_degraded (sv_liveness sv)
          then bind_io (emit (CaptureEv (CaptureDegradedSkip (sensor_liveness_label (tr_state (sv_liveness sv)))))) (\<lambda>_.
               start_cooldown env clk sv)
          else match_io (staging_bytes (ce_codec env))
            (\<lambda>bytes.
               let ceiling = max_staging_bytes (ce_config env) in
               if ceiling \<le> bytes
               then bind_io (emit (CaptureEv (CaptureDiskPressureSkip bytes ceiling))) (\<lambda>_.
                    start_cooldown env clk
                      (note_failure clk ''disk_pressure'' (show_nat bytes @ ''/'' @ show_nat ceiling @ '' bytes'') sv))
               else record_and_handle env clk triggered_at sv)
            (\<lambda>_. bind_io (emit (CaptureEv CaptureStagingProbeFailed)) (\<lambda>_.
                 record_and_handle env clk triggered_at sv))))"

section \<open>The loop\<close>

text \<open>
  What the \<^verbatim>\<open>select!\<close> of the loop receives, in the order it does: a resolved trigger, a tick of
  the liveness interval with the level the sensor then reports, the cancellation. The list
  ends where the supervisor is still waiting. The poll interval only decides when ticks come.
\<close>

datatype capture_input =
    Trigger "motion_sensor_error + instant" trigger_clock
  | Tick instant "motion_sensor_error + sensor_level"
  | Cancelled

fun run_loop :: "'b capture_env \<Rightarrow> capture_input list \<Rightarrow> supervisor \<Rightarrow> ('b, unit, supervisor) io" where
  "run_loop env [] sv = ret sv"
| "run_loop env (Trigger t clk # xs) sv = bind_io (handle_trigger env clk t sv) (run_loop env xs)"
| "run_loop env (Tick now level # xs) sv = bind_io (update_liveness env now level sv) (run_loop env xs)"
| "run_loop env (Cancelled # xs) sv = bind_io (emit (CaptureEv CaptureShutdown)) (\<lambda>_. ret sv)"

definition run_capture ::
  "'b capture_env \<Rightarrow> purge_report \<Rightarrow> capture_input list \<Rightarrow> supervisor \<Rightarrow> ('b, unit, supervisor) io" where
  "run_capture env rep xs sv =
     match_io fs_create_dir_all
       (\<lambda>_. bind_io (emit (CaptureEv (CaptureReady (removed_files rep)))) (\<lambda>_. run_loop env xs sv))
       (\<lambda>_. bind_io (emit (CaptureEv (CaptureInitFailed ''staging_dir_create_failed''))) (\<lambda>_. ret sv))"

text \<open>
  The wiring of \<^verbatim>\<open>perchstation serve\<close>: the production camera and the policy inbox around the
  store.
\<close>

definition station_env ::
  "'b codec \<Rightarrow> 'b camera_host \<Rightarrow> libcamera_vid \<Rightarrow> queue_policy \<Rightarrow> (instant \<Rightarrow> string) \<Rightarrow> capture_config \<Rightarrow> chrono_limits
     \<Rightarrow> (io_error \<Rightarrow> string) \<Rightarrow> (path \<Rightarrow> string) \<Rightarrow> string \<Rightarrow> 'b capture_env" where
  "station_env cd h cam pol fmt cfg lims io_text path_text json_text =
     \<lparr> ce_codec = cd, ce_camera = record_clip cd h cam, ce_submit = policy_submit cd pol (store_submit cd fmt),
       ce_config = cfg, ce_limits = lims, ce_fmt = fmt, ce_io_text = io_text, ce_path_text = path_text,
       ce_json_text = json_text \<rparr>"

section \<open>What a trigger does\<close>

text \<open>
  A trigger is accounted for when the cooldown runs from its end and the projection says how
  it ended: a failure, with its time, or a success, and then the clip is in \<open>pending/\<close>, sidecar
  and recording.
\<close>

definition cooling :: "'b capture_env \<Rightarrow> trigger_clock \<Rightarrow> supervisor \<Rightarrow> bool" where
  "cooling env clk sv \<longleftrightarrow>
     sv_cooldown sv = Some (cooldown_now clk + int (cooldown_secs (ce_config env)) * 10 ^ 9)"

definition failed_as :: "trigger_clock \<Rightarrow> supervisor \<Rightarrow> supervisor \<Rightarrow> bool" where
  "failed_as clk sv sv' \<longleftrightarrow>
     (\<exists>kind msg. sv_state sv' = record_failure (failed_now clk) kind msg (sv_state sv))"

definition delivered_as :: "'b capture_env \<Rightarrow> instant \<Rightarrow> supervisor \<Rightarrow> supervisor \<Rightarrow> 'b world \<Rightarrow> bool" where
  "delivered_as env t sv sv' w \<longleftrightarrow>
     (\<exists>e b. sv_state sv' = record_success (clip_id e) t (sv_state sv) \<and> captured_at e = t \<and> next_attempt_after e = None \<and> clip_id e \<noteq> [] \<and>
        holds_entry (ce_codec env) w (sidecar_at PendingDir (clip_id e)) e \<and>
        look w (media_at PendingDir (clip_id e)) = Some b \<and> byte_size e = blen (ce_codec env) b \<and> 0 < byte_size e)"

definition accounted ::
  "'b capture_env \<Rightarrow> trigger_clock \<Rightarrow> instant \<Rightarrow> supervisor \<Rightarrow> (unit, supervisor) res \<Rightarrow> 'b world \<Rightarrow> bool" where
  "accounted env clk t sv r w =
     (case r of
        Ok sv' \<Rightarrow> sv_liveness sv' = sv_liveness sv \<and> cooling env clk sv' \<and>
          (failed_as clk sv sv' \<or> delivered_as env t sv sv' w)
      | Err _ \<Rightarrow> False
      | Crashed \<Rightarrow> True)"

lemma start_after_eq:
  assumes "start_after lims now secs = Some c" "td_max lims < i64_max * 10 ^ 9"
  shows "c = Some (now + int secs * 10 ^ 9)"
proof -
  obtain d where d: "delta_seconds lims (min (int secs) i64_max) = Some d" "c = Some (now + d)"
    using assms(1) by (auto simp: start_after_def dt_add_def split: bind_splits if_splits)
  then have "min (int secs) i64_max * 10 ^ 9 < i64_max * 10 ^ 9"
    using assms(2) by (auto simp: delta_seconds_def i64_max_def split: if_splits)
  then have "min (int secs) i64_max = int secs" by (simp add: min_def split: if_splits)
  then show ?thesis using d by (auto simp: delta_seconds_def split: if_splits)
qed

lemma start_cooldown_run:
  assumes "start_cooldown env clk sv w fs = (r, w', fs')" "td_max (ce_limits env) < i64_max * 10 ^ 9"
  shows "w' = w \<and> fs' = fs \<and>
    (r = Crashed \<or> (\<exists>sv'. r = Ok sv' \<and> sv_state sv' = sv_state sv \<and> sv_liveness sv' = sv_liveness sv \<and> cooling env clk sv'))"
  using assms start_after_eq [OF _ assms(2)]
  by (auto simp: start_cooldown_def crash_now_def ret_def cooling_def split: option.splits)

lemma note_failure_sel [simp]:
  "sv_liveness (note_failure clk kind msg sv) = sv_liveness sv"
  "sv_state (note_failure clk kind msg sv) = record_failure (failed_now clk) kind msg (sv_state sv)"
  by (simp_all add: note_failure_def)

lemma fail_run:
  assumes "start_cooldown env clk (note_failure clk kind msg sv) w fs = (r, w', fs')"
    "td_max (ce_limits env) < i64_max * 10 ^ 9"
  shows "accounted env clk t sv r w'' \<and> w' = w"
proof -
  have "failed_as clk sv sv'" if "sv_state sv' = record_failure (failed_now clk) kind msg (sv_state sv)" for sv'
    using that unfolding failed_as_def by blast
  then show ?thesis using start_cooldown_run [OF assms] by (auto simp: accounted_def)
qed

lemmas recording_handlers =
  handle_recording_overflow_def handle_recording_failed_def handle_recording_empty_def handle_recording_hung_def

lemma recording_handlers_run:
  assumes "(case err of RecordFailed x \<Rightarrow> handle_recording_failed env clk rid x sv
       | EmptyClip p \<Rightarrow> handle_recording_empty env clk rid sv
       | RecordTimeout \<Rightarrow> handle_recording_hung env clk rid dur sv
       | DurationOverflow \<Rightarrow> handle_recording_overflow env clk rid sv) w fs = (r, w', fs')"
    and lims: "td_max (ce_limits env) < i64_max * 10 ^ 9"
  shows "accounted env clk t sv r w' \<and> files w' = files w"
  using assms(1)
  by (cases err) (auto simp: recording_handlers Let_def bind_io_def match_io_def emit_def
      dest!: fail_run [OF _ lims, where t = t and w'' = w'])

text \<open>The laws the supervisor relies on: an inbox and a camera over the same codec.\<close>

locale capture_parts = inbox "ce_codec env" "ce_submit env" + camera "ce_codec env" "ce_camera env"
  for env :: "'b capture_env" +
  assumes codec: "codec_ok (ce_codec env)"
    and limits: "td_max (ce_limits env) < i64_max * 10 ^ 9"
begin

lemma submit_clip_run:
  assumes clip: "fst (clip_path clip) = StagingDir" "0 < clip_bytes clip"
    and b: "look w (clip_path clip) = Some b" "blen (ce_codec env) b = clip_bytes clip"
    and run: "submit_clip env clk rid t clip sv w fs = (r, w', fs')"
  shows "accounted env clk t sv r w' \<and> (\<forall>k. look w' (InflightDir, k) = look w (InflightDir, k))"
proof -
  obtain n where p: "clip_path clip = (StagingDir, n)" using clip(1) by (cases "clip_path clip") auto
  obtain r1 w1 fs1 where m1: "ce_submit env (StagingDir, n) t (enqueue_now clk) w fs = (r1, w1, fs1)"
    by (cases "ce_submit env (StagingDir, n) t (enqueue_now clk) w fs") auto
  note fl = inflight_kept [OF m1]
  show ?thesis
  proof (cases r1)
    case (Ok e)
    let ?sv = "sv\<lparr>sv_state := record_success (clip_id e) t (sv_state sv)\<rparr>"
    have acc: "captured_at e = t \<and> entry_outcome e = None \<and> next_attempt_after e = None \<and> clip_id e \<noteq> [] \<and> byte_size e = blen (ce_codec env) b \<and>
        holds_entry (ce_codec env) w1 (sidecar_at PendingDir (clip_id e)) e \<and> look w1 (media_at PendingDir (clip_id e)) = Some b"
      using accepts [OF codec _ m1 [unfolded Ok]] b(1) p by simp
    obtain j where w2: "start_cooldown env clk ?sv (w1\<lparr>journal := j\<rparr>) fs1 = (r, w', fs')"
      using run m1 Ok p by (auto simp: submit_clip_def bind_io_def match_io_def emit_def)
    have "delivered_as env t sv sv' (w1\<lparr>journal := j\<rparr>)" if "sv_state sv' = record_success (clip_id e) t (sv_state sv)" for sv'
      using acc that b(2) clip(2) unfolding delivered_as_def holds_entry_def by auto
    then show ?thesis
      using start_cooldown_run [OF w2 limits] fl by (auto simp: accounted_def)
  next
    case (Err x)
    have fp: "footprint {q. fst q = StagingDir} (attempt (fs_remove_file (clip_path clip)) :: (_, unit, _) io)"
      using p by simp
    obtain r2 w2 fs2 where m2: "(attempt (fs_remove_file (clip_path clip)) :: (_, unit, _) io) w1 fs1 = (r2, w2, fs2)"
      by (cases "(attempt (fs_remove_file (clip_path clip)) :: (_, unit, _) io) w1 fs1") auto
    have k2: "look w2 (InflightDir, k) = look w1 (InflightDir, k)" for k
      using footprintD [OF fp m2] by simp
    have "r2 \<noteq> Err y" for y
      using m2 by (auto simp: attempt_def match_io_def ret_def split: prod.splits res.splits)
    then show ?thesis
      using run m1 m2 Err p k2 fl
      by (cases x; cases r2) (auto simp: submit_clip_def bind_io_def match_io_def emit_def accounted_def [of _ _ _ _ Crashed]
          dest!: fail_run [OF _ limits, where t = t and w'' = w'])
  next
    case Crashed
    then show ?thesis using run m1 p fl by (auto simp: submit_clip_def match_io_def accounted_def)
  qed
qed

lemma record_and_handle_run:
  assumes run: "record_and_handle env clk t sv w fs = (r, w', fs')"
  shows "accounted env clk t sv r w' \<and> (\<forall>k. look w' (InflightDir, k) = look w (InflightDir, k))"
proof -
  let ?rid = "recording_id (ce_fmt env) t"
  let ?dur = "clip_duration_secs (ce_config env) * 1000000000"
  let ?rec = "record_into_staging (ce_camera env) ?rid ?dur (hang_margin_secs (ce_config env) * 1000000000)"
  define w0 where "w0 = w\<lparr>journal := journal w @ [CaptureEv (CaptureRecordingStarted ?rid t)]\<rparr>"
  obtain r1 w1 fs1 where m1: "?rec w0 fs = (r1, w1, fs1)" by (cases "?rec w0 fs") auto
  have fl: "look w1 (InflightDir, k) = look w (InflightDir, k)" for k
    using footprintD [OF record_footprint m1, of "(InflightDir, k)"] by (simp add: w0_def)
  have "match_io ?rec (\<lambda>clip. submit_clip env clk ?rid t clip sv)
        (\<lambda>err. case err of RecordFailed x \<Rightarrow> handle_recording_failed env clk ?rid x sv
         | EmptyClip p \<Rightarrow> handle_recording_empty env clk ?rid sv
         | RecordTimeout \<Rightarrow> handle_recording_hung env clk ?rid ?dur sv
         | DurationOverflow \<Rightarrow> handle_recording_overflow env clk ?rid sv) w0 fs = (r, w', fs')"
    using run by (simp add: record_and_handle_def Let_def bind_io_def match_io_def [of "emit _"] emit_def w0_def)
  note step = this [unfolded match_io_def m1 prod.case]
  show ?thesis
  proof (cases r1)
    case (Ok clip)
    then obtain b where "fst (clip_path clip) = StagingDir" "0 < clip_bytes clip"
      "look w1 (clip_path clip) = Some b" "blen (ce_codec env) b = clip_bytes clip"
      using wlp_run [OF record_wlp m1] by auto
    from submit_clip_run [OF this] step Ok fl show ?thesis by auto
  next
    case (Err x)
    then show ?thesis using step recording_handlers_run [OF _ limits] fl by auto
  next
    case Crashed
    then show ?thesis using step fl by (auto simp: accounted_def)
  qed
qed

lemma trigger_accounted:
  assumes "\<not> is_active (gate_now clk) (sv_cooldown sv)" "\<not> is_degraded (sv_liveness sv)"
    and run: "handle_trigger env clk (Inr t) sv w fs = (r, w', fs')"
  shows "accounted env clk t sv r w' \<and> (\<forall>k. look w' (InflightDir, k) = look w (InflightDir, k))"
proof -
  define w0 where "w0 = w\<lparr>journal := journal w @ [CaptureEv (CaptureTriggerObserved t)]\<rparr>"
  obtain r1 w1 fs1 where m1: "staging_bytes (ce_codec env) w0 fs = (r1, w1, fs1)"
    by (cases "staging_bytes (ce_codec env) w0 fs") auto
  have fl: "look w1 p = look w p" for p
    using footprintD [OF footprint_staging_bytes [of "{}"] m1] by (simp add: w0_def)
  let ?max = "max_staging_bytes (ce_config env)"
  have step: "(case r1 of
       Ok bytes \<Rightarrow> if ?max \<le> bytes
          then bind_io (emit (CaptureEv (CaptureDiskPressureSkip bytes ?max))) (\<lambda>_.
               start_cooldown env clk (note_failure clk ''disk_pressure'' (show_nat bytes @ ''/'' @ show_nat ?max @ '' bytes'') sv))
          else record_and_handle env clk t sv
     | Err _ \<Rightarrow> bind_io (emit (CaptureEv CaptureStagingProbeFailed)) (\<lambda>_. record_and_handle env clk t sv)
     | Crashed \<Rightarrow> crash_now) w1 fs1 = (r, w', fs')"
    using run m1 assms(1,2)
    by (cases r1) (simp_all add: handle_trigger_def bind_io_def [of "emit (CaptureEv (CaptureTriggerObserved t))"]
        match_io_def [of "emit (CaptureEv (CaptureTriggerObserved t))"] match_io_def [of "staging_bytes _"] emit_def [of "CaptureEv (CaptureTriggerObserved t)"]
        w0_def crash_now_def Let_def)
  show ?thesis
    using step fl
    by (cases r1) (auto simp: bind_io_def match_io_def emit_def crash_now_def accounted_def [of _ _ _ _ Crashed]
        dest!: fail_run [OF _ limits, where t = t and w'' = w'] record_and_handle_run split: if_splits)
qed

end

section \<open>The station's own camera and inbox\<close>

text \<open>What the code relies on of the host's libraries: the codec's laws, and the range of chrono's \<^verbatim>\<open>TimeDelta\<close>.\<close>

definition station_ok :: "'b codec \<Rightarrow> chrono_limits \<Rightarrow> bool" where
  "station_ok cd lims \<longleftrightarrow> codec_ok cd \<and> td_max lims < i64_max * 10 ^ 9"

lemma station_env_sel [simp]:
  "ce_codec (station_env cd h cam pol fmt cfg lims it pt jt) = cd"
  "ce_camera (station_env cd h cam pol fmt cfg lims it pt jt) = record_clip cd h cam"
  "ce_submit (station_env cd h cam pol fmt cfg lims it pt jt) = policy_submit cd pol (store_submit cd fmt)"
  "ce_config (station_env cd h cam pol fmt cfg lims it pt jt) = cfg"
  "ce_limits (station_env cd h cam pol fmt cfg lims it pt jt) = lims"
  "ce_fmt (station_env cd h cam pol fmt cfg lims it pt jt) = fmt"
  "ce_io_text (station_env cd h cam pol fmt cfg lims it pt jt) = it"
  by (simp_all add: station_env_def)

lemma station_parts:
  "station_ok cd lims \<Longrightarrow> capture_parts (station_env cd h cam pol fmt cfg lims it pt jt)"
  by (simp add: capture_parts_def capture_parts_axioms_def station_ok_def
      policy_inbox.inbox_axioms libcamera.camera_axioms)

text \<open>The concrete codec and chrono's own limit (\<^verbatim>\<open>i64::MAX\<close> milliseconds) give a station.\<close>

definition chrono :: chrono_limits where
  "chrono = \<lparr> td_max = i64_max * 10 ^ 6, dt_max = 8210266876799 * 10 ^ 9 \<rparr>"

interpretation station: capture_parts "station_env blob_codec h cam pol fmt cfg chrono it pt jt"
  for h cam pol fmt cfg it pt jt
  by (rule station_parts) (simp add: station_ok_def chrono_def i64_max_def)

text \<open>
  C8: Every trigger that passes the cooldown and liveness gates is accounted for. Whatever the
  host, the camera command and the queue do, the handler never fails: when it returns, the
  cooldown runs for the configured time from its end, the liveness tracker is untouched, and
  either a failure with its time is recorded or the clip the projection names is in
  \<open>pending/\<close>, sidecar and recording, captured at the trigger's time, not empty and ready to be sent. No clip in
  flight is touched in any case, a crash included.
\<close>

theorem every_trigger_accounted:
  assumes ok: "station_ok cd lims"
    and gates: "\<not> is_active (gate_now clk) (sv_cooldown sv)" "\<not> is_degraded (sv_liveness sv)"
    and run: "handle_trigger (station_env cd h cam pol fmt cfg lims it pt jt) clk (Inr t) sv w fs = (r, w', fs')"
  shows "(\<forall>k. look w' (InflightDir, k) = look w (InflightDir, k)) \<and>
    (case r of
       Ok sv' \<Rightarrow> sv_liveness sv' = sv_liveness sv \<and>
         sv_cooldown sv' = Some (cooldown_now clk + int (cooldown_secs cfg) * 10 ^ 9) \<and>
         ((\<exists>kind msg. sv_state sv' = record_failure (failed_now clk) kind msg (sv_state sv)) \<or>
          (\<exists>e b. sv_state sv' = record_success (clip_id e) t (sv_state sv) \<and> captured_at e = t \<and> next_attempt_after e = None \<and> clip_id e \<noteq> [] \<and>
             holds_entry cd w' (sidecar_at PendingDir (clip_id e)) e \<and>
             look w' (media_at PendingDir (clip_id e)) = Some b \<and> byte_size e = blen cd b \<and> 0 < byte_size e))
     | Err _ \<Rightarrow> False
     | Crashed \<Rightarrow> True)"
  using capture_parts.trigger_accounted [OF station_parts [OF ok] gates run]
  by (simp add: accounted_def cooling_def failed_as_def delivered_as_def split: res.splits)

section \<open>The gates\<close>

definition quiet_input :: "instant \<Rightarrow> capture_input \<Rightarrow> bool" where
  "quiet_input d x = (case x of Trigger (Inr _) clk \<Rightarrow> gate_now clk < d | _ \<Rightarrow> True)"

text \<open>A step that consults neither the host nor the camera.\<close>

definition idle_step :: "supervisor \<Rightarrow> supervisor \<Rightarrow> 'b world \<Rightarrow> 'b world \<Rightarrow> bool" where
  "idle_step sv sv' w w' \<longleftrightarrow> files w' = files w \<and> seq w' = seq w \<and> sv_cooldown sv' = sv_cooldown sv \<and>
     last_recording_at (sv_state sv') = last_recording_at (sv_state sv) \<and>
     last_clip_id (sv_state sv') = last_clip_id (sv_state sv) \<and> last_failure (sv_state sv') = last_failure (sv_state sv)"

lemma idle_step_trans: "idle_step a b w x \<Longrightarrow> idle_step b c x y \<Longrightarrow> idle_step a c w y"
  by (simp add: idle_step_def)

lemma apply_transition_idle:
  "\<exists>sv' w'. (apply_transition tn sv :: ('b, 'e, _) io) w fs = (Ok sv', w', fs) \<and> idle_step sv sv' w w'"
  by (cases tn) (auto simp: idle_step_def run_simps emit_degraded_def emit_recovered_def set_liveness_def Let_def)

lemma update_liveness_idle:
  "\<exists>sv' w'. (update_liveness env now level sv :: ('b, 'e, _) io) w fs = (Ok sv', w', fs) \<and> idle_step sv sv' w w'"
  using apply_transition_idle by (fastforce simp: update_liveness_def idle_step_def split: prod.split)

lemma quiet_trigger_idle:
  assumes "sv_cooldown sv = Some d" "quiet_input d (Trigger t clk)"
  shows "\<exists>sv' w'. handle_trigger env clk t sv w fs = (Ok sv', w', fs) \<and> idle_step sv sv' w w'"
proof (cases t)
  case (Inl err)
  then show ?thesis
    using apply_transition_idle by (fastforce simp: handle_trigger_def idle_step_def split: prod.split)
next
  case (Inr at0)
  then show ?thesis
    using assms by (simp add: handle_trigger_def is_active_def quiet_input_def run_simps idle_step_def)
qed

lemma run_loop_quiet:
  assumes "sv_cooldown sv = Some d" "list_all (quiet_input d) xs"
  shows "\<exists>sv' w'. run_loop env xs sv w fs = (Ok sv', w', fs) \<and> idle_step sv sv' w w'"
  using assms
proof (induction env xs sv arbitrary: w rule: run_loop.induct)
  case (1 env sv)
  show ?case by (simp add: run_simps idle_step_def)
next
  case (2 env t clk xs sv)
  then obtain sv1 w1 where s: "handle_trigger env clk t sv w fs = (Ok sv1, w1, fs)" "idle_step sv sv1 w w1"
    using quiet_trigger_idle [of sv d t clk] by fastforce
  obtain sv' w' where "run_loop env xs sv1 w1 fs = (Ok sv', w', fs)" "idle_step sv1 sv' w1 w'"
    using "2.IH" [of sv1 w1] "2.prems" s(2) by (auto simp: idle_step_def)
  then show ?case using s idle_step_trans by (fastforce simp: run_simps)
next
  case (3 env now level xs sv)
  obtain sv1 w1 where s: "(update_liveness env now level sv :: (_, unit, _) io) w fs = (Ok sv1, w1, fs)" "idle_step sv sv1 w w1"
    using update_liveness_idle by blast
  obtain sv' w' where "run_loop env xs sv1 w1 fs = (Ok sv', w', fs)" "idle_step sv1 sv' w1 w'"
    using "3.IH" [of sv1 w1] "3.prems" s(2) by (auto simp: idle_step_def)
  then show ?case using s idle_step_trans by (fastforce simp: run_simps)
next
  case (4 env xs sv)
  show ?case by (simp add: run_simps idle_step_def)
qed

text \<open>
  While a gate is closed the supervisor leaves the host alone. A trigger inside the
  cooldown changes nothing at all but the journal; a trigger while the sensor is degraded
  starts a cooldown. Neither makes a system call, runs the camera or the inbox, or changes
  what is recorded about recordings.
\<close>

theorem closed_gates_refuse:
  assumes "is_active (gate_now clk) (sv_cooldown sv) \<or> is_degraded (sv_liveness sv)"
    and run: "handle_trigger env clk (Inr t) sv w fs = (r, w', fs')"
  shows "files w' = files w \<and> seq w' = seq w \<and> fs' = fs \<and>
    (case r of
       Ok sv' \<Rightarrow> sv_state sv' = sv_state sv \<and> sv_liveness sv' = sv_liveness sv \<and>
         (is_active (gate_now clk) (sv_cooldown sv) \<longrightarrow> sv' = sv)
     | Err _ \<Rightarrow> False
     | Crashed \<Rightarrow> start_after (ce_limits env) (cooldown_now clk) (cooldown_secs (ce_config env)) = None)"
  using assms
  by (auto simp: handle_trigger_def run_simps start_cooldown_def split: if_splits option.splits)

text \<open>
  C25: Recordings are spaced by the cooldown. After a trigger that was handled, whatever came
  of it, no input that arrives before the cooldown is over makes a system call, runs the
  camera, or changes a file, the clip sequence or what is recorded about recordings: not
  another trigger, not a sensor error, not a liveness tick, in any number and order.
\<close>

theorem cooldown_spaces_recordings:
  assumes ok: "station_ok cd lims" and gate: "\<not> is_active (gate_now clk) (sv_cooldown sv)"
    and run: "handle_trigger (station_env cd h cam pol fmt cfg lims it pt jt) clk (Inr t) sv w fs = (Ok sv1, w1, fs1)"
    and quiet: "list_all (quiet_input (cooldown_now clk + int (cooldown_secs cfg) * 10 ^ 9)) xs"
  shows "\<exists>sv' w'. run_loop (station_env cd h cam pol fmt cfg lims it pt jt) (Trigger (Inr t) clk # xs) sv w fs = (Ok sv', w', fs1) \<and>
     files w' = files w1 \<and> seq w' = seq w1 \<and>
     last_recording_at (sv_state sv') = last_recording_at (sv_state sv1) \<and>
     last_clip_id (sv_state sv') = last_clip_id (sv_state sv1) \<and> last_failure (sv_state sv') = last_failure (sv_state sv1)"
proof -
  let ?env = "station_env cd h cam pol fmt cfg lims it pt jt"
  have lims: "td_max (ce_limits ?env) < i64_max * 10 ^ 9" and cfg: "ce_config ?env = cfg"
    using ok by (simp_all add: station_ok_def)
  have "cooling ?env clk sv1"
  proof (cases "is_degraded (sv_liveness sv)")
    case True
    have deg: "\<exists>w0. (start_cooldown ?env clk sv :: (_, unit, _) io) w0 fs = (Ok sv1, w1, fs1)"
      using run gate True by (auto simp: handle_trigger_def run_simps)
    then show ?thesis using start_cooldown_run [OF _ lims] by blast
  next
    case False
    from capture_parts.trigger_accounted [OF station_parts [OF ok] gate False run]
    show ?thesis by (simp add: accounted_def)
  qed
  then have "sv_cooldown sv1 = Some (cooldown_now clk + int (cooldown_secs cfg) * 10 ^ 9)"
    by (simp add: cooling_def cfg)
  from run_loop_quiet [OF this quiet] show ?thesis
    using run by (fastforce simp: run_simps idle_step_def)
qed

section \<open>The projection\<close>

text \<open>\<open>returns P m\<close>: every value \<open>m\<close> can return satisfies \<open>P\<close>.\<close>

definition returns :: "('a \<Rightarrow> bool) \<Rightarrow> ('b, 'e, 'a) io \<Rightarrow> bool" where
  "returns P m \<longleftrightarrow> (\<forall>w fs x w' fs'. m w fs = (Ok x, w', fs') \<longrightarrow> P x)"

lemma returns_basic [simp]: "returns P (ret x) = P x" "returns P (throw e)" "returns P crash_now"
  by (simp_all add: returns_def ret_def throw_def crash_now_def)

lemma returns_match: "(\<And>x. returns P (f x)) \<Longrightarrow> (\<And>e. returns P (g e)) \<Longrightarrow> returns P (match_io m f g)"
  unfolding returns_def match_io_def by (fastforce split: prod.splits res.splits)

lemma returns_bind: "(\<And>x. returns P (k x)) \<Longrightarrow> returns P (bind_io m k)"
  by (simp add: bind_io_def returns_match)

lemma returns_bind_strong: "returns R m \<Longrightarrow> (\<And>x. R x \<Longrightarrow> returns P (k x)) \<Longrightarrow> returns P (bind_io m k)"
  unfolding returns_def bind_io_def match_io_def throw_def by (fastforce split: prod.splits res.splits)

lemmas returns_intros = returns_match returns_bind

definition sensor_view :: "supervisor \<Rightarrow> liveness_tracker \<times> liveness_snapshot \<times> instant option" where
  "sensor_view sv = (sv_liveness sv, sensor_snapshot (sv_state sv), sensor_degraded_since (sv_state sv))"

lemma sensor_view_updates [simp]:
  "sensor_view (note_failure clk kind msg sv) = sensor_view sv"
  "sensor_view (sv\<lparr>sv_state := record_success cid t (sv_state sv)\<rparr>) = sensor_view sv"
  "sensor_view (sv\<lparr>sv_cooldown := c\<rparr>) = sensor_view sv"
  by (simp_all add: sensor_view_def note_failure_def record_failure_def record_success_def)

lemma start_cooldown_view: "sensor_view sv = v \<Longrightarrow> returns (\<lambda>sv'. sensor_view sv' = v) (start_cooldown env clk sv)"
  by (auto simp: start_cooldown_def split: option.split)

lemma record_and_handle_view: "returns (\<lambda>sv'. sensor_view sv' = sensor_view sv) (record_and_handle env clk t sv)"
  unfolding record_and_handle_def Let_def submit_clip_def recording_handlers
  by (intro returns_intros; auto intro!: returns_intros start_cooldown_view
      split: inbox_error.split capture_record_error.split)

lemma trigger_view: "returns (\<lambda>sv'. sensor_view sv' = sensor_view sv) (handle_trigger env clk (Inr t) sv)"
  unfolding handle_trigger_def sum.case Let_def
  by (intro returns_bind) (auto intro!: returns_intros start_cooldown_view record_and_handle_view)

text \<open>The projection shows the tracker's state.\<close>

definition projects :: "supervisor \<Rightarrow> bool" where
  "projects sv \<longleftrightarrow>
     (case tr_state (sv_liveness sv) of
        Healthy \<Rightarrow> sensor_snapshot (sv_state sv) \<in> {SnapNeverObserved, SnapHealthy} \<and> sensor_degraded_since (sv_state sv) = None
      | StuckAsserted s \<Rightarrow> sensor_snapshot (sv_state sv) = SnapStuckAsserted \<and> sensor_degraded_since (sv_state sv) = Some s
      | Unavailable s _ \<Rightarrow> sensor_snapshot (sv_state sv) = SnapUnavailable \<and> sensor_degraded_since (sv_state sv) = Some s)"

lemma projects_view: "sensor_view sv' = sensor_view sv \<Longrightarrow> projects sv' = projects sv"
  by (simp add: sensor_view_def projects_def split: sensor_liveness.split)

lemma handle_error_projects:
  "projects sv \<Longrightarrow> handle_error io_text now err (sv_liveness sv) = (tr, tn) \<Longrightarrow>
     returns projects (apply_transition tn (sv\<lparr>sv_liveness := tr\<rparr>))"
  by (cases "tr_state (sv_liveness sv)")
    (auto simp: handle_error_def Let_def projects_def set_liveness_def intro!: returns_bind)

lemma observe_level_projects:
  "projects sv \<Longrightarrow> observe_level io_text now level (sv_liveness sv) = (tr, tn) \<Longrightarrow>
     returns projects (apply_transition tn (sv\<lparr>sv_liveness := tr\<rparr>))"
  by (cases "tr_state (sv_liveness sv)")
    (auto simp: observe_level_def handle_asserted_def handle_quiescent_def Let_def projects_def set_liveness_def
      handle_error_projects intro!: returns_bind split: sum.splits sensor_level.splits if_splits option.splits)

lemma step_projects:
  assumes "projects sv"
  shows "returns projects (handle_trigger env clk t sv)" "returns projects (update_liveness env now level sv)"
proof -
  show "returns projects (handle_trigger env clk t sv)"
  proof (cases t)
    case (Inl err)
    then show ?thesis
      using handle_error_projects [OF assms]
      by (auto simp: handle_trigger_def observe_trigger_error_def split: prod.split)
  next
    case (Inr at0)
    then show ?thesis
      using trigger_view [of sv env clk at0] projects_view assms unfolding returns_def by blast
  qed
  show "returns projects (update_liveness env now level sv)"
    using observe_level_projects [OF assms] by (auto simp: update_liveness_def split: prod.split)
qed

lemma run_loop_projects: "projects sv \<Longrightarrow> returns projects (run_loop env xs sv)"
proof (induction env xs sv rule: run_loop.induct)
  case (2 env t clk xs sv)
  show ?case unfolding run_loop.simps
    by (rule returns_bind_strong [OF step_projects(1) [OF "2.prems"] "2.IH"])
next
  case (3 env now level xs sv)
  show ?case unfolding run_loop.simps
    by (rule returns_bind_strong [OF step_projects(2) [OF "3.prems"] "3.IH"])
qed (auto intro!: returns_bind)

definition unremarkable :: "capture_input \<Rightarrow> bool" where
  "unremarkable x = (case x of Trigger (Inl _) _ \<Rightarrow> False | Tick _ level \<Rightarrow> level = Inr Quiescent | _ \<Rightarrow> True)"

definition unseen :: "supervisor \<Rightarrow> bool" where
  "unseen sv \<longleftrightarrow> tr_state (sv_liveness sv) = Healthy \<and> sensor_snapshot (sv_state sv) = SnapNeverObserved"

lemma run_loop_unseen: "list_all unremarkable xs \<Longrightarrow> unseen sv \<Longrightarrow> returns unseen (run_loop env xs sv)"
proof (induction env xs sv rule: run_loop.induct)
  case (2 env t clk xs sv)
  obtain at0 where t: "t = Inr at0" using "2.prems" by (cases t) (auto simp: unremarkable_def)
  have "returns unseen (handle_trigger env clk (Inr at0) sv)"
    using trigger_view [of sv env clk at0] "2.prems"(2) unfolding returns_def unseen_def sensor_view_def by (metis prod.inject)
  then show ?case unfolding run_loop.simps t
    by (rule returns_bind_strong) (use "2.IH" "2.prems" in auto)
next
  case (3 env now level xs sv)
  have "returns unseen (update_liveness env now level sv)"
    using "3.prems" by (auto simp: unremarkable_def unseen_def update_liveness_def observe_level_def handle_quiescent_def)
  then show ?case unfolding run_loop.simps
    by (rule returns_bind_strong) (use "3.IH" "3.prems" in auto)
qed (auto intro!: returns_bind)

text \<open>
  C30: Whatever inputs a fresh supervisor receives, if it does not die the projection agrees with
  the liveness tracker: it shows a degraded sensor exactly when the tracker refuses to
  record, with the kind and the time since. And as long as the sensor is in order it shows
  \<open>SnapNeverObserved\<close>: a successful probe of a sensor that was never degraded publishes nothing.
\<close>

theorem projection_shows_tracker:
  assumes "new_capture lims cfg = Some sv0"
    and run: "run_loop env xs sv0 w fs = (Ok sv, w', fs')"
  shows "(case tr_state (sv_liveness sv) of
       Healthy \<Rightarrow> sensor_snapshot (sv_state sv) \<in> {SnapNeverObserved, SnapHealthy} \<and> sensor_degraded_since (sv_state sv) = None
     | StuckAsserted s \<Rightarrow> sensor_snapshot (sv_state sv) = SnapStuckAsserted \<and> sensor_degraded_since (sv_state sv) = Some s
     | Unavailable s _ \<Rightarrow> sensor_snapshot (sv_state sv) = SnapUnavailable \<and> sensor_degraded_since (sv_state sv) = Some s) \<and>
    (list_all unremarkable xs \<longrightarrow> sensor_snapshot (sv_state sv) = SnapNeverObserved)"
proof -
  have "tr_state (sv_liveness sv0) = Healthy" "sv_state sv0 = new_capture_state"
    using assms(1) by (auto simp: new_capture_def new_tracker_def)
  then have p: "projects sv0" and u: "unseen sv0"
    by (simp_all add: projects_def unseen_def new_capture_state_def)
  have "projects sv" using run_loop_projects [OF p] run unfolding returns_def by blast
  moreover have "unseen sv" if "list_all unremarkable xs"
    using run_loop_unseen [OF that u] run unfolding returns_def by blast
  ultimately show ?thesis by (auto simp: projects_def unseen_def)
qed

section \<open>A concrete station\<close>

definition ex_sv :: supervisor where
  "ex_sv = \<lparr> sv_state = new_capture_state, sv_cooldown = None,
     sv_liveness = \<lparr> tr_state = Healthy, stuck_threshold = 300 * 10 ^ 9, asserted_since = None \<rparr> \<rparr>"

definition ex_readings :: trigger_clock where
  "ex_readings = \<lparr> gate_now = 11, record_start = 12, enqueue_now = 20, completed_now = 21, failed_now = 22, cooldown_now = 23 \<rparr>"

definition ex_station :: "blob capture_env" where
  "ex_station = station_env blob_codec (ex_host 9 (Some 0) NoDrop) ex_camera ex_policy (\<lambda>_. ''T'')
     default_capture_config chrono (\<lambda>_. ''io'') snd ''json''"

definition ex_empty :: "blob world" where
  "ex_empty = \<lparr> files = [], seq = 0, journal = [] \<rparr>"

lemmas capture_exec [exec_simps] =
  handle_trigger_def record_and_handle_def submit_clip_def start_cooldown_def recording_id_def
  staging_bytes_def sum_dir_def is_active_def is_degraded_def

lemma ex_cooldown: "start_after chrono 23 30 = Some (Some 30000000023)"
  by (simp add: start_after_def delta_seconds_def dt_add_def chrono_def i64_max_def)

lemma ex_trigger:
  "\<exists>w'. handle_trigger ex_station ex_readings (Inr 10) ex_sv ex_empty [] =
     (Ok (ex_sv\<lparr>sv_state := record_success ''T-000'' 10 new_capture_state, sv_cooldown := Some 30000000023\<rparr>), w', []) \<and>
     files w' = [(media_at PendingDir ''T-000'', Bytes 9), (sidecar_at PendingDir ''T-000'', Sidecar (new_entry ''T-000'' 10 20 9))]"
proof -
  have p: "pad3 0 = ''000''" by (simp add: pad3_digits digit_chars)
  show ?thesis
    by (simp add: exec_simps ex_station_def ex_readings_def ex_sv_def ex_empty_def ex_cooldown default_capture_config_def
        store_submit_def enqueue_def next_clip_id_def p ex_policy_def census_totals_def sat_add_def wrap_u64_def u32_max_def)
qed

lemma ex_station_ok: "station_ok blob_codec chrono"
  by (simp add: station_ok_def chrono_def i64_max_def)

lemma ex_gates: "\<not> is_active (gate_now ex_readings) (sv_cooldown ex_sv)" "\<not> is_degraded (sv_liveness ex_sv)"
  by (simp_all add: is_active_def is_degraded_def ex_sv_def)

lemma ex_new_capture: "new_capture chrono default_capture_config = Some ex_sv"
  by (simp add: new_capture_def new_tracker_def delta_seconds_def chrono_def i64_max_def default_capture_config_def ex_sv_def)

theorem every_trigger_accounted_witness:
  "\<exists>sv' w' e b. handle_trigger ex_station ex_readings (Inr 10) ex_sv ex_empty [] = (Ok sv', w', []) \<and>
     sv_cooldown sv' = Some 30000000023 \<and> clip_id e = ''T-000'' \<and>
     holds_entry blob_codec w' (sidecar_at PendingDir ''T-000'') e \<and> look w' (media_at PendingDir ''T-000'') = Some b"
proof -
  let ?sv = "ex_sv\<lparr>sv_state := record_success ''T-000'' 10 new_capture_state, sv_cooldown := Some 30000000023\<rparr>"
  obtain w' where run: "handle_trigger ex_station ex_readings (Inr 10) ex_sv ex_empty [] = (Ok ?sv, w', [])"
    using ex_trigger by blast
  have "\<exists>e b. clip_id e = ''T-000'' \<and> holds_entry blob_codec w' (sidecar_at PendingDir ''T-000'') e \<and>
      look w' (media_at PendingDir ''T-000'') = Some b"
    using every_trigger_accounted [OF ex_station_ok ex_gates run [unfolded ex_station_def]]
    by (fastforce simp: record_success_def record_failure_def ex_sv_def new_capture_state_def)
  then show ?thesis using run by auto
qed

theorem closed_gates_refuse_witness:
  "\<exists>w'. handle_trigger ex_station ex_readings (Inr 10) (ex_sv\<lparr>sv_cooldown := Some 12\<rparr>) ex_empty [Crash None] =
     (Ok (ex_sv\<lparr>sv_cooldown := Some 12\<rparr>), w', [Crash None]) \<and> files w' = []"
proof -
  let ?sv = "ex_sv\<lparr>sv_cooldown := Some 12\<rparr>"
  have gate: "is_active (gate_now ex_readings) (sv_cooldown ?sv) \<or> is_degraded (sv_liveness ?sv)"
    by (simp add: is_active_def ex_readings_def)
  obtain w' where run: "handle_trigger ex_station ex_readings (Inr 10) ?sv ex_empty [Crash None] = (Ok ?sv, w', [Crash None])"
    by (simp add: handle_trigger_def run_simps is_active_def ex_readings_def)
  from closed_gates_refuse [OF gate run] run show ?thesis by (auto simp: ex_empty_def)
qed

definition ex_inputs :: "capture_input list" where
  "ex_inputs = [Tick 24 (Inr Asserted), Trigger (Inr 25) (ex_readings\<lparr>gate_now := 30000000022\<rparr>), Trigger (Inl (SensorUnavailable ''x'')) ex_readings]"

theorem cooldown_spaces_recordings_witness:
  "\<exists>sv1 w1 sv' w'. handle_trigger ex_station ex_readings (Inr 10) ex_sv ex_empty [] = (Ok sv1, w1, []) \<and>
     run_loop ex_station (Trigger (Inr 10) ex_readings # ex_inputs) ex_sv ex_empty [] = (Ok sv', w', []) \<and>
     files w' = files w1 \<and> last_clip_id (sv_state sv') = Some ''T-000''"
proof -
  let ?sv = "ex_sv\<lparr>sv_state := record_success ''T-000'' 10 new_capture_state, sv_cooldown := Some 30000000023\<rparr>"
  obtain w1 where run: "handle_trigger ex_station ex_readings (Inr 10) ex_sv ex_empty [] = (Ok ?sv, w1, [])"
    using ex_trigger by blast
  have "list_all (quiet_input (cooldown_now ex_readings + int (cooldown_secs default_capture_config) * 10 ^ 9)) ex_inputs"
    by (simp add: ex_inputs_def quiet_input_def ex_readings_def default_capture_config_def)
  from cooldown_spaces_recordings [OF ex_station_ok ex_gates(1) run [unfolded ex_station_def] this]
  obtain sv' w' where "run_loop ex_station (Trigger (Inr 10) ex_readings # ex_inputs) ex_sv ex_empty [] = (Ok sv', w', [])"
    "files w' = files w1" "last_clip_id (sv_state sv') = Some ''T-000''"
    by (auto simp: ex_station_def record_success_def simp del: run_loop.simps)
  then show ?thesis using run by blast
qed

theorem projection_shows_tracker_witness:
  "\<exists>sv w'. run_loop ex_station [Tick 5 (Inr Quiescent)] ex_sv ex_empty [] = (Ok sv, w', []) \<and>
     sensor_snapshot (sv_state sv) = SnapNeverObserved"
proof -
  obtain sv w' where run: "run_loop ex_station [Tick 5 (Inr Quiescent)] ex_sv ex_empty [] = (Ok sv, w', [])"
    by (simp add: run_simps update_liveness_def observe_level_def handle_quiescent_def ex_sv_def)
  moreover have "list_all unremarkable [Tick 5 (Inr Quiescent)]" by (simp add: unremarkable_def)
  ultimately show ?thesis using projection_shows_tracker [OF ex_new_capture run] by auto
qed

end
