(* ===== verification/Sensor.thy ===== *)
theory Sensor
  imports Capture
begin

text \<open>
  The production motion sensor, \<^verbatim>\<open>crates/perchstation-hw/src/motion_sensor.rs\<close>, and the select loop of the supervisor
  (\<^verbatim>\<open>capture/runner.rs\<close>) with this sensor behind it. The character device and its errors are parameters; the
  buffer of the kernel is a list of items, each with the clock reading taken when the item is read.
\<close>

section \<open>The adapter\<close>

datatype edge_type = RisingEdge | FallingEdge

text \<open>What the event stream yields: an edge, an error, or its end, which it yields from then on.\<close>

datatype gpio_item = GpioEdge edge_type instant | GpioErr string | GpioClosed

definition level_quiescent :: nat where "level_quiescent = 0"

definition level_asserted :: nat where "level_asserted = 1"

record gpio_motion_sensor =
  active_high :: bool
  current_level :: nat

definition map_gpio_err :: "string \<Rightarrow> motion_sensor_error" where
  "map_gpio_err err = SensorUnavailable err"

text \<open>The calls of the constructor in their order: chip, line, event request, initial value, async wrapper.\<close>

record gpio_host =
  chip_open :: "string + unit"
  chip_line :: "string + unit"
  line_events :: "string + unit"
  line_value :: "string + nat"
  async_handle :: "string + unit"

definition new_gpio_sensor :: "gpio_host \<Rightarrow> bool \<Rightarrow> motion_sensor_error + gpio_motion_sensor" where
  "new_gpio_sensor host act =
     (case chip_open host of Inl err \<Rightarrow> Inl (map_gpio_err err) | Inr _ \<Rightarrow>
     (case chip_line host of Inl err \<Rightarrow> Inl (map_gpio_err err) | Inr _ \<Rightarrow>
     (case line_events host of Inl err \<Rightarrow> Inl (map_gpio_err err) | Inr _ \<Rightarrow>
     (case line_value host of Inl err \<Rightarrow> Inl (map_gpio_err err) | Inr initial_raw \<Rightarrow>
     (let asserted = (if act then initial_raw \<noteq> 0 else initial_raw = 0) in
      case async_handle host of Inl err \<Rightarrow> Inl (map_gpio_err err) | Inr _ \<Rightarrow>
      Inr \<lparr> active_high = act, current_level = (if asserted then level_asserted else level_quiescent) \<rparr>)))))"

fun edge_means_asserted :: "gpio_motion_sensor \<Rightarrow> edge_type \<Rightarrow> bool" where
  "edge_means_asserted s RisingEdge = active_high s"
| "edge_means_asserted s FallingEdge = (\<not> active_high s)"

text \<open>
  One poll of \<^verbatim>\<open>next_trigger\<close> over what the kernel has buffered: its result (\<open>None\<close>: it goes on waiting), the sensor and
  what is left in the buffer. Dropping the future loses nothing but the place in the loop.
\<close>

fun next_trigger :: "gpio_motion_sensor \<Rightarrow> gpio_item list \<Rightarrow> (motion_sensor_error + instant) option \<times> gpio_motion_sensor \<times> gpio_item list" where
  "next_trigger s [] = (None, s, [])"
| "next_trigger s (GpioEdge e now # xs) =
     (let asserted = edge_means_asserted s e;
          s' = s\<lparr>current_level := (if asserted then level_asserted else level_quiescent)\<rparr> in
      if asserted then (Some (Inr now), s', xs) else next_trigger s' xs)"
| "next_trigger s (GpioErr err # xs) = (Some (Inl (map_gpio_err err)), s, xs)"
| "next_trigger s (GpioClosed # xs) = (Some (Inl (SensorUnavailable ''gpio event stream closed'')), s, GpioClosed # xs)"

definition level :: "gpio_motion_sensor \<Rightarrow> motion_sensor_error + sensor_level" where
  "level s = Inr (if current_level s = level_asserted then Asserted else Quiescent)"

section \<open>The select loop with this sensor\<close>

text \<open>
  An iteration of the loop: the items that arrived since the last one, whether the tick is taken before the sensor is
  polled (the order of \<^verbatim>\<open>select!\<close> is random), and the clock readings. The tick is taken otherwise when
  the poll goes on waiting. \<open>buf\<close> stands for the event queue of the kernel, which is taken to be unbounded: a real one
  drops edges when it overflows during a long recording, and \<open>arrived\<close> then holds the edges it kept.
\<close>

record loop_round =
  arrived :: "gpio_item list"
  tick_first :: bool
  tick_now :: instant
  round_clock :: trigger_clock

fun sensor_feed :: "gpio_motion_sensor \<Rightarrow> gpio_item list \<Rightarrow> loop_round list \<Rightarrow> capture_input list" where
  "sensor_feed s buf [] = []"
| "sensor_feed s buf (i # is) =
     (if tick_first i then Tick (tick_now i) (level s) # sensor_feed s (buf @ arrived i) is
      else (case next_trigger s (buf @ arrived i) of
              (Some r, s', buf') \<Rightarrow> Trigger r (round_clock i) # sensor_feed s' buf' is
            | (None, s', buf') \<Rightarrow> Tick (tick_now i) (level s') # sensor_feed s' buf' is))"

section \<open>The line behind the sensor\<close>

text \<open>The value of the line after the edges, its logical reading, and the times at which an asserting edge is read.\<close>

fun line_after :: "bool \<Rightarrow> gpio_item list \<Rightarrow> bool" where
  "line_after v [] = v"
| "line_after v (GpioEdge RisingEdge _ # xs) = line_after True xs"
| "line_after v (GpioEdge FallingEdge _ # xs) = line_after False xs"
| "line_after v (_ # xs) = line_after v xs"

definition logical :: "bool \<Rightarrow> bool \<Rightarrow> sensor_level" where
  "logical act v = (if v = act then Asserted else Quiescent)"

fun assertions :: "bool \<Rightarrow> gpio_item list \<Rightarrow> instant list" where
  "assertions act [] = []"
| "assertions act (GpioEdge e t # xs) = (if (e = RisingEdge) = act then t # assertions act xs else assertions act xs)"
| "assertions act (_ # xs) = assertions act xs"

fun trigger_times :: "capture_input list \<Rightarrow> instant list" where
  "trigger_times [] = []"
| "trigger_times (Trigger (Inr t) _ # xs) = t # trigger_times xs"
| "trigger_times (_ # xs) = trigger_times xs"

fun is_edge :: "gpio_item \<Rightarrow> bool" where
  "is_edge (GpioEdge _ _) = True"
| "is_edge _ = False"

text \<open>The cache agrees with the line.\<close>

definition shows_line :: "bool \<Rightarrow> bool \<Rightarrow> gpio_motion_sensor \<Rightarrow> bool" where
  "shows_line act v s \<longleftrightarrow> active_high s = act \<and> level s = Inr (logical act v)"

lemma new_sensor_shows:
  assumes "new_gpio_sensor host act = Inr s" "line_value host = Inr raw"
  shows "shows_line act (raw \<noteq> 0) s"
  using assms by (auto simp: new_gpio_sensor_def shows_line_def level_def logical_def level_asserted_def level_quiescent_def Let_def split: sum.splits if_splits)

lemma line_after_append [simp]: "line_after v (xs @ ys) = line_after (line_after v xs) ys"
  by (induction v xs rule: line_after.induct) auto

lemma assertions_append [simp]: "assertions act (xs @ ys) = assertions act xs @ assertions act ys"
  by (induction act xs rule: assertions.induct) auto

lemma next_trigger_edges:
  assumes "shows_line act v s" "list_all is_edge xs"
  shows "case next_trigger s xs of
      (None, s', buf) \<Rightarrow> buf = [] \<and> assertions act xs = [] \<and> shows_line act (line_after v xs) s'
    | (Some r, s', buf) \<Rightarrow> (\<exists>t pre. r = Inr t \<and> xs = pre @ buf \<and> assertions act pre = [t] \<and> shows_line act (line_after v pre) s')"
  using assms
proof (induction s xs arbitrary: v rule: next_trigger.induct)
  case (2 s e now xs)
  let ?asserted = "edge_means_asserted s e"
  let ?s = "s\<lparr>current_level := (if ?asserted then level_asserted else level_quiescent)\<rparr>"
  have step: "?asserted \<longleftrightarrow> (e = RisingEdge) = act" using 2(2) by (cases e) (auto simp: shows_line_def)
  have shows1: "shows_line act (e = RisingEdge) ?s"
    using 2(2) step by (auto simp: shows_line_def level_def logical_def level_asserted_def level_quiescent_def)
  have line: "line_after v (GpioEdge e now # ys) = line_after (e = RisingEdge) ys" for ys by (cases e) auto
  show ?case
  proof (cases ?asserted)
    case True
    then show ?thesis using shows1 step line [of "[]"]
      by (auto simp: Let_def intro!: exI [of _ "[GpioEdge e now]"])
  next
    case False
    then have n: "next_trigger s (GpioEdge e now # xs) = next_trigger ?s xs" by (simp add: Let_def)
    have IH: "case next_trigger ?s xs of
        (None, s', buf) \<Rightarrow> buf = [] \<and> assertions act xs = [] \<and> shows_line act (line_after (e = RisingEdge) xs) s'
      | (Some r, s', buf) \<Rightarrow> (\<exists>t pre. r = Inr t \<and> xs = pre @ buf \<and> assertions act pre = [t] \<and> shows_line act (line_after (e = RisingEdge) pre) s')"
      using 2(1) [OF refl refl False shows1] 2(3) by simp
    show ?thesis unfolding n using IH False step line
      by (auto split: prod.splits option.splits intro!: exI [of _ "GpioEdge e now # _"])
  qed
qed (auto simp: shows_line_def)

lemma sensor_feed_empty [simp]: "sensor_feed s buf is = [] \<longleftrightarrow> is = []"
  by (cases "is") (auto split: prod.splits option.splits)

text \<open>The loop has come to rest with the level \<open>lv\<close>: its last iteration polled the sensor in vain.\<close>

definition rests_with :: "capture_input list \<Rightarrow> loop_round list \<Rightarrow> motion_sensor_error + sensor_level \<Rightarrow> bool" where
  "rests_with xs is lv \<longleftrightarrow> is \<noteq> [] \<and> \<not> tick_first (last is) \<and> (\<exists>now. last xs = Tick now lv)"

lemma rests_with_Cons:
  "rests_with (x # sensor_feed s buf is) (i # is) lv \<longleftrightarrow>
     (if is = [] then \<not> tick_first i \<and> (\<exists>now. x = Tick now lv) else rests_with (sensor_feed s buf is) is lv)"
  by (auto simp: rests_with_def)

lemma feed_edges:
  assumes "shows_line act v s" "list_all is_edge buf" "list_all (\<lambda>i. list_all is_edge (arrived i)) is"
  shows "\<exists>rest. trigger_times (sensor_feed s buf is) @ rest = assertions act (buf @ concat (map arrived is)) \<and>
    (\<forall>lv. rests_with (sensor_feed s buf is) is lv \<longrightarrow>
       rest = [] \<and> lv = Inr (logical act (line_after v (buf @ concat (map arrived is)))))"
  using assms
proof (induction "is" arbitrary: v s buf)
  case Nil
  then show ?case by (simp add: rests_with_def)
next
  case (Cons i "is")
  have edges: "list_all is_edge (buf @ arrived i)" "list_all (\<lambda>i. list_all is_edge (arrived i)) is" using Cons.prems by auto
  show ?case
  proof (cases "tick_first i")
    case True
    then show ?thesis using Cons.IH [OF Cons.prems(1) edges] by (auto simp: rests_with_Cons)
  next
    case False
    obtain r s' buf' where n: "next_trigger s (buf @ arrived i) = (r, s', buf')" by (cases "next_trigger s (buf @ arrived i)") auto
    note step = next_trigger_edges [OF Cons.prems(1) edges(1), unfolded n]
    show ?thesis
    proof (cases r)
      case None
      then have rest: "buf' = []" "assertions act (buf @ arrived i) = []" "shows_line act (line_after v (buf @ arrived i)) s'" using step by auto
      from Cons.IH [OF rest(3) _ edges(2), of "[]"] show ?thesis
        using rest False n None by (auto simp: rests_with_Cons shows_line_def)
    next
      case (Some x)
      then obtain t pre where x: "x = Inr t" and pre: "buf @ arrived i = pre @ buf'" "assertions act pre = [t]"
        "shows_line act (line_after v pre) s'" using step by auto
      have split: "buf @ concat (map arrived (i # is)) = pre @ buf' @ concat (map arrived is)" using pre(1) by simp
      have "list_all is_edge buf'" using edges(1) unfolding pre(1) by simp
      from Cons.IH [OF pre(3) this edges(2)] show ?thesis
        unfolding split using False n Some x pre(2) by (auto simp: rests_with_Cons)
    qed
  qed
qed

section \<open>Properties\<close>

text \<open>
  C23: The supervisor sees the line. With a sensor that was opened on a line of value \<open>raw\<close>, edges in any number and at any
  moment, also while a recording keeps the loop busy, and either wiring: the triggers are the asserting edges, each once and in
  order, and none is left out when the loop comes to rest; a probe of the resting loop reports the level that the line has. The edges are
  those that the kernel's event queue delivers.
\<close>

theorem sensor_tracks_line:
  assumes "new_gpio_sensor host act = Inr s" "line_value host = Inr raw"
    and "list_all (\<lambda>i. list_all is_edge (arrived i)) is"
  shows "\<exists>rest. trigger_times (sensor_feed s [] is) @ rest = assertions act (concat (map arrived is)) \<and>
    (\<forall>lv. rests_with (sensor_feed s [] is) is lv \<longrightarrow>
       rest = [] \<and> lv = Inr (logical act (line_after (raw \<noteq> 0) (concat (map arrived is)))))"
  using feed_edges [OF new_sensor_shows [OF assms(1,2)] _ assms(3), of "[]"] by simp

definition ex_gpio :: gpio_host where
  "ex_gpio = \<lparr> chip_open = Inr (), chip_line = Inr (), line_events = Inr (), line_value = Inr 0, async_handle = Inr () \<rparr>"

definition ex_round :: "gpio_item list \<Rightarrow> loop_round" where
  "ex_round xs = \<lparr> arrived = xs, tick_first = False, tick_now = 9, round_clock = ex_readings \<rparr>"

text \<open>Active low: the line starts asserted, is released, asserted and released again while the first trigger is handled.\<close>

theorem sensor_tracks_line_witness:
  "\<exists>s. new_gpio_sensor ex_gpio False = Inr s \<and>
     trigger_times (sensor_feed s [] [ex_round [GpioEdge RisingEdge 1, GpioEdge FallingEdge 2],
       ex_round [GpioEdge RisingEdge 3, GpioEdge FallingEdge 4], ex_round [GpioEdge RisingEdge 5]]) = [2, 4]"
proof -
  obtain s where s: "new_gpio_sensor ex_gpio False = Inr s" by (simp add: new_gpio_sensor_def ex_gpio_def)
  let ?is = "[ex_round [GpioEdge RisingEdge 1, GpioEdge FallingEdge 2],
       ex_round [GpioEdge RisingEdge 3, GpioEdge FallingEdge 4], ex_round [GpioEdge RisingEdge 5]]"
  have "line_value ex_gpio = Inr 0" by (simp add: ex_gpio_def)
  moreover have "list_all (\<lambda>i. list_all is_edge (arrived i)) ?is" by (simp add: ex_round_def)
  moreover have "rests_with (sensor_feed s [] ?is) ?is (Inr Quiescent)"
    using s by (auto simp: rests_with_def ex_round_def new_gpio_sensor_def ex_gpio_def Let_def level_def level_asserted_def level_quiescent_def)
  ultimately show ?thesis using sensor_tracks_line [OF s, of 0 ?is] s by (auto simp: ex_round_def)
qed

text \<open>
  C37: A dead sensor recovers on paper. Once the event stream is closed, every poll fails, and the loop reports the sensor as
  unavailable; but the probe answers from the cache, so the next liveness tick reports it as healthy again, in the log
  and in the projection, although no trigger can ever come.
\<close>

theorem dead_sensor_recovers:
  assumes "\<not> tick_first i" "tick_first j"
  shows "\<exists>sv' w'. run_loop env (sensor_feed s (GpioClosed # buf) [i, j]) sv w fs = (Ok sv', w', fs) \<and>
    tr_state (sv_liveness sv') = Healthy \<and> sensor_snapshot (sv_state sv') = SnapHealthy \<and>
    CaptureEv (CaptureSensorRecovered ''unavailable'') \<in> set (journal w') \<and>
    (\<forall>xs. \<exists>err rest. next_trigger s (GpioClosed # buf @ xs) = (Some (Inl err), s, GpioClosed # rest))"
  using assms
  by (auto simp: handle_trigger_def observe_trigger_error_def handle_error_def update_liveness_def observe_level_def level_def
      handle_asserted_def handle_quiescent_def emit_degraded_def emit_recovered_def set_liveness_def run_simps Let_def
      split: sensor_liveness.split)

theorem dead_sensor_recovers_witness:
  "\<exists>sv' w'. run_loop ex_station (sensor_feed \<lparr> active_high = True, current_level = 0 \<rparr> [GpioClosed]
       [ex_round [], (ex_round [])\<lparr>tick_first := True\<rparr>]) ex_sv ex_empty [] = (Ok sv', w', []) \<and>
     sensor_snapshot (sv_state sv') = SnapHealthy"
proof -
  have "\<not> tick_first (ex_round [])" "tick_first ((ex_round [])\<lparr>tick_first := True\<rparr>)" by (simp_all add: ex_round_def)
  from dead_sensor_recovers [OF this] show ?thesis by blast
qed

end
