(* ===== verification/Identity.thy ===== *)
theory Identity
  imports Fs
begin

text \<open>
  The station's credentials, \<^verbatim>\<open>crates/perchstation-core/src/identity.rs\<close>: loading, peeking at
  and atomically replacing \<^verbatim>\<open><data_dir>/credentials/\<close>. Here a world holds the entries of
  \<^verbatim>\<open><data_dir>\<close>, each of which is a directory; a directory is the list of its files with their
  permission bits and bytes. The calls on directories are system calls like those of
  theory \<open>Fs\<close> and take part in the same fault schedules; a crash is the death of the process
  (what survives a power cut without \<^verbatim>\<open>fsync\<close> is not modelled).
\<close>

section \<open>Directories as entries\<close>

type_synonym cfile = "nat \<times> string"
type_synonym cdir = "(string \<times> cfile) list"
type_synonym ('e, 'a) cred_io = "(cdir, 'e, 'a) io"

definition file_exists_err :: io_error where
  "file_exists_err = OtherIo 17"

definition not_empty_err :: io_error where
  "not_empty_err = OtherIo 39"

definition invalid_data_err :: io_error where
  "invalid_data_err = OtherIo 1000"

definition dir_create :: "path \<Rightarrow> (io_error, unit) cred_io" where
  "dir_create p =
     prim (\<lambda>w. case look w p of
                 Some _ \<Rightarrow> (Inl file_exists_err, w)
               | None \<Rightarrow> (Inr (), w\<lparr>files := AList.update p [] (files w)\<rparr>)) no_part"

text \<open>\<^verbatim>\<open>rename\<close> of a directory replaces an empty target only.\<close>

definition dir_rename :: "path \<Rightarrow> path \<Rightarrow> (io_error, unit) cred_io" where
  "dir_rename p q =
     prim (\<lambda>w. case look w p of
                 None \<Rightarrow> (Inl NotFound, w)
               | Some d \<Rightarrow> (case look w q of
                   Some (_ # _) \<Rightarrow> (Inl not_empty_err, w)
                 | _ \<Rightarrow> (Inr (), w\<lparr>files := AList.update q d (AList.delete p (files w))\<rparr>))) no_part"

text \<open>\<^verbatim>\<open>remove_dir_all\<close> removes file by file, so it may stop half-way.\<close>

definition dir_remove_all :: "path \<Rightarrow> (io_error, unit) cred_io" where
  "dir_remove_all p =
     prim (\<lambda>w. case look w p of
                 None \<Rightarrow> (Inl NotFound, w)
               | Some _ \<Rightarrow> (Inr (), w\<lparr>files := AList.delete p (files w)\<rparr>)) (write_part p)"

text \<open>Creating a file exclusively, writing it and syncing it; it may be left half-written.\<close>

definition dir_write_new :: "path \<Rightarrow> string \<Rightarrow> cfile \<Rightarrow> (io_error, unit) cred_io" where
  "dir_write_new p f c =
     prim (\<lambda>w. case look w p of
                 None \<Rightarrow> (Inl NotFound, w)
               | Some d \<Rightarrow> (case map_of d f of
                   Some _ \<Rightarrow> (Inl file_exists_err, w)
                 | None \<Rightarrow> (Inr (), w\<lparr>files := AList.update p (AList.update f c d) (files w)\<rparr>))) (write_part p)"

definition dir_read :: "path \<Rightarrow> string \<Rightarrow> (io_error, string) cred_io" where
  "dir_read p f =
     prim (\<lambda>w. case look w p of
                 None \<Rightarrow> (Inl NotFound, w)
               | Some d \<Rightarrow> (case map_of d f of None \<Rightarrow> (Inl NotFound, w) | Some (_, b) \<Rightarrow> (Inr b, w))) no_part"

definition dir_sync :: "path \<Rightarrow> (io_error, unit) cred_io" where
  "dir_sync p = prim (\<lambda>w. case look w p of None \<Rightarrow> (Inl NotFound, w) | Some _ \<Rightarrow> (Inr (), w)) no_part"

definition data_dir_sync :: "(io_error, unit) cred_io" where
  "data_dir_sync = prim (\<lambda>w. (Inr (), w)) no_part"

section \<open>Identity\<close>

definition creds_path :: path where
  "creds_path = (DataDir, ''credentials'')"

definition staging_path :: path where
  "staging_path = (DataDir, ''credentials.tmp'')"

definition rotated_path :: path where
  "rotated_path = (DataDir, ''credentials.old'')"

definition data_dir_path :: path where
  "data_dir_path = (DataDir, [])"

definition identity_name :: string where
  "identity_name = ''identity.json''"

definition key_name :: string where
  "key_name = ''station.key''"

definition cert_name :: string where
  "cert_name = ''station.crt''"

definition chain_name :: string where
  "chain_name = ''ca_chain.pem''"

text \<open>An I/O error names the entry of the data directory it happened in; other messages are left out.\<close>

datatype identity_error =
    IdIo path io_error
  | IdParse
  | CertPem
  | KeyPem
  | CertX509
  | CertNotAfter int
  | AlreadyExists uuid
  | IdSerialise

record identity_file =
  if_station_id :: uuid
  if_enrolled_at :: instant
  if_perchpub_url :: string

record station_identity =
  station_id :: uuid
  enrolled_at :: instant
  si_perchpub_url :: string
  cert_not_after :: instant

record save_options =
  so_station_id :: uuid
  so_enrolled_at :: instant
  so_perchpub_url :: string
  station_key_pem :: string
  station_cert_pem :: string
  so_ca_chain_pem :: string
  overwrite :: bool

text \<open>
  What the code uses of its libraries: JSON, UTF-8, the X.509 parser (the three ways in which it can
  answer), chrono's range of timestamps, and the key parser of \<^verbatim>\<open>rcgen\<close>.
\<close>

datatype cert_parse = NotPem | NotX509 | NotAfter int

record 'k cred_lib =
  json_enc :: "identity_file \<Rightarrow> string option"
  json_dec :: "string \<Rightarrow> identity_file option"
  valid_utf8 :: "string \<Rightarrow> bool"
  cert_parser :: "string \<Rightarrow> cert_parse"
  timestamp_utc :: "int \<Rightarrow> instant option"
  key_from_pem :: "string \<Rightarrow> 'k option"

text \<open>Serialised metadata is UTF-8 text that parses back; serialising it does not fail.\<close>

definition cred_lib_ok :: "'k cred_lib \<Rightarrow> bool" where
  "cred_lib_ok lib \<longleftrightarrow> (\<forall>f. \<exists>j. json_enc lib f = Some j \<and> json_dec lib j = Some f \<and> valid_utf8 lib j)"

definition parse_cert_not_after :: "'k cred_lib \<Rightarrow> string \<Rightarrow> identity_error + instant" where
  "parse_cert_not_after lib pem =
     (case cert_parser lib pem of
        NotPem \<Rightarrow> Inl CertPem
      | NotX509 \<Rightarrow> Inl CertX509
      | NotAfter ts \<Rightarrow> (case timestamp_utc lib ts of Some t \<Rightarrow> Inr t | None \<Rightarrow> Inl (CertNotAfter ts)))"

text \<open>\<^verbatim>\<open>read_to_string\<close> fails on bytes that are not UTF-8.\<close>

definition read_to_string :: "'k cred_lib \<Rightarrow> path \<Rightarrow> string \<Rightarrow> (io_error, string) cred_io" where
  "read_to_string lib p f =
     bind_io (dir_read p f) (\<lambda>b. if valid_utf8 lib b then ret b else throw invalid_data_err)"

definition load_identity :: "'k cred_lib \<Rightarrow> (identity_error, station_identity) cred_io" where
  "load_identity lib =
     bind_io (map_err (IdIo creds_path) (read_to_string lib creds_path identity_name)) (\<lambda>text.
     case json_dec lib text of
       None \<Rightarrow> throw IdParse
     | Some f \<Rightarrow>
         bind_io (map_err (IdIo creds_path) (dir_read creds_path cert_name)) (\<lambda>pem.
         case parse_cert_not_after lib pem of
           Inl err \<Rightarrow> throw err
         | Inr t \<Rightarrow> ret \<lparr> station_id = if_station_id f, enrolled_at = if_enrolled_at f,
                          si_perchpub_url = if_perchpub_url f, cert_not_after = t \<rparr>))"

definition peek_existing_station_id :: "'k cred_lib \<Rightarrow> (identity_error, uuid option) cred_io" where
  "peek_existing_station_id lib =
     match_io (read_to_string lib creds_path identity_name)
       (\<lambda>text. case json_dec lib text of None \<Rightarrow> throw IdParse | Some f \<Rightarrow> ret (Some (if_station_id f)))
       (\<lambda>err. if err = NotFound then ret None else throw (IdIo creds_path err))"

definition load_keypair :: "'k cred_lib \<Rightarrow> (identity_error, 'k) cred_io" where
  "load_keypair lib =
     bind_io (map_err (IdIo creds_path) (read_to_string lib creds_path key_name)) (\<lambda>pem.
     case key_from_pem lib pem of Some k \<Rightarrow> ret k | None \<Rightarrow> throw KeyPem)"

definition remove_dir_if_exists :: "path \<Rightarrow> (identity_error, unit) cred_io" where
  "remove_dir_if_exists p =
     match_io (dir_remove_all p) ret (\<lambda>err. if err = NotFound then ret () else throw (IdIo p err))"

definition write_mode :: "path \<Rightarrow> string \<Rightarrow> string \<Rightarrow> nat \<Rightarrow> (identity_error, unit) cred_io" where
  "write_mode p f b mode = map_err (IdIo p) (dir_write_new p f (mode, b))"

definition fsync_dir :: "path \<Rightarrow> (identity_error, unit) cred_io" where
  "fsync_dir p = map_err (IdIo p) (dir_sync p)"

definition identity_of :: "save_options \<Rightarrow> identity_file" where
  "identity_of opts = \<lparr> if_station_id = so_station_id opts, if_enrolled_at = so_enrolled_at opts,
     if_perchpub_url = so_perchpub_url opts \<rparr>"

text \<open>The permission bits are octal: 420 is \<^verbatim>\<open>0o644\<close>, 384 is \<^verbatim>\<open>0o600\<close>.\<close>

definition stage_credentials :: "'k cred_lib \<Rightarrow> save_options \<Rightarrow> (identity_error, unit) cred_io" where
  "stage_credentials lib opts =
     bind_io (map_err (IdIo staging_path) (dir_create staging_path)) (\<lambda>_.
     bind_io (write_mode staging_path cert_name (station_cert_pem opts) 420) (\<lambda>_.
     bind_io (write_mode staging_path chain_name (so_ca_chain_pem opts) 420) (\<lambda>_.
     bind_io (write_mode staging_path key_name (station_key_pem opts) 384) (\<lambda>_.
     case json_enc lib (identity_of opts) of
       None \<Rightarrow> throw IdSerialise
     | Some j \<Rightarrow>
         bind_io (write_mode staging_path identity_name j 420) (\<lambda>_.
         fsync_dir staging_path)))))"

definition promote_credentials :: "'k cred_lib \<Rightarrow> (identity_error, station_identity) cred_io" where
  "promote_credentials lib =
     bind_io (fs_exists creds_path) (\<lambda>existed.
     bind_io (if existed then map_err (IdIo creds_path) (dir_rename creds_path rotated_path) else ret ()) (\<lambda>_.
     match_io (dir_rename staging_path creds_path)
       (\<lambda>_.
          bind_io (map_err (IdIo data_dir_path) data_dir_sync) (\<lambda>_.
          bind_io (if existed then bind_io (attempt (dir_remove_all rotated_path)) (\<lambda>_. ret ()) else ret ()) (\<lambda>_.
          load_identity lib)))
       (\<lambda>err.
          bind_io (if existed then bind_io (attempt (dir_rename rotated_path creds_path)) (\<lambda>_. ret ()) else ret ()) (\<lambda>_.
          throw (IdIo creds_path err)))))"

definition save :: "'k cred_lib \<Rightarrow> save_options \<Rightarrow> (identity_error, station_identity) cred_io" where
  "save lib opts =
     bind_io (if overwrite opts then ret None else peek_existing_station_id lib) (\<lambda>existing.
     case existing of
       Some sid \<Rightarrow> throw (AlreadyExists sid)
     | None \<Rightarrow>
         bind_io (remove_dir_if_exists staging_path) (\<lambda>_.
         bind_io (remove_dir_if_exists rotated_path) (\<lambda>_.
         bind_io (map_err (IdIo data_dir_path) fs_create_dir_all) (\<lambda>_.
         bind_io (stage_credentials lib opts) (\<lambda>_.
         promote_credentials lib)))))"

lemmas cred_calls =
  dir_create_def dir_rename_def dir_remove_all_def dir_write_new_def dir_read_def dir_sync_def data_dir_sync_def

lemmas cred_paths = creds_path_def staging_path_def rotated_path_def

lemmas cred_names = identity_name_def key_name_def cert_name_def chain_name_def

lemma uniform_cred_calls [simp]:
  "uniform (dir_create p)" "uniform (dir_rename p q)" "uniform (dir_remove_all p)" "uniform (dir_write_new p f c)"
  "uniform (dir_read p f)" "uniform (dir_sync p)" "uniform data_dir_sync"
  by (simp_all add: cred_calls)

lemma uniform_cred_ops [simp]:
  "uniform (read_to_string lib p f)" "uniform (load_identity lib)" "uniform (peek_existing_station_id lib)"
  "uniform (load_keypair lib)" "uniform (remove_dir_if_exists p)" "uniform (write_mode p f b m)" "uniform (fsync_dir p)"
proof -
  show r: "uniform (read_to_string lib p f)" for p f
    by (auto simp: read_to_string_def)
  show "uniform (load_identity lib)"
    by (auto simp: load_identity_def r split: option.split sum.split)
  show "uniform (peek_existing_station_id lib)"
    by (auto simp: peek_existing_station_id_def r split: option.split)
  show "uniform (load_keypair lib)"
    by (auto simp: load_keypair_def r split: option.split)
qed (auto simp: remove_dir_if_exists_def write_mode_def fsync_dir_def)

lemma uniform_stage [simp]: "uniform (stage_credentials lib opts)"
  by (auto simp: stage_credentials_def split: option.split)

lemma uniform_promote [simp]: "uniform (promote_credentials lib)"
  by (auto simp: promote_credentials_def)

section \<open>Replacing the credentials, under every fault\<close>

text \<open>The four files of a complete set of credentials.\<close>

definition new_creds :: "'k cred_lib \<Rightarrow> save_options \<Rightarrow> cdir" where
  "new_creds lib opts =
     [(cert_name, (420, station_cert_pem opts)), (chain_name, (420, so_ca_chain_pem opts)),
      (key_name, (384, station_key_pem opts)), (identity_name, (420, the (json_enc lib (identity_of opts))))]"

lemma cred_paths_distinct [simp]:
  "creds_path \<noteq> staging_path" "staging_path \<noteq> creds_path" "creds_path \<noteq> rotated_path"
  "rotated_path \<noteq> creds_path" "staging_path \<noteq> rotated_path" "rotated_path \<noteq> staging_path"
  by (simp_all add: cred_paths)

lemma look_part [simp]: "q \<noteq> p \<Longrightarrow> look (write_part p x w) q = look w q"
  by (simp add: write_part_def split: option.split)

lemma wlp_cred_calls [wlp_simps]:
  "wlp (dir_create p) U E C w \<longleftrightarrow> (\<forall>k. E (fault_error k) w) \<and> C w \<and>
     (case look w p of Some _ \<Rightarrow> E file_exists_err w | None \<Rightarrow> U () (w\<lparr>files := AList.update p [] (files w)\<rparr>))"
  "wlp (dir_rename p q) U E C w \<longleftrightarrow> (\<forall>k. E (fault_error k) w) \<and> C w \<and>
     (case look w p of None \<Rightarrow> E NotFound w
      | Some d \<Rightarrow> (case look w q of Some (_ # _) \<Rightarrow> E not_empty_err w
          | _ \<Rightarrow> U () (w\<lparr>files := AList.update q d (AList.delete p (files w))\<rparr>)))"
  "wlp (dir_remove_all p) U E C w \<longleftrightarrow> (\<forall>k x. E (fault_error k) (write_part p x w)) \<and> (\<forall>x. C (write_part p x w)) \<and>
     (case look w p of None \<Rightarrow> E NotFound w | Some _ \<Rightarrow> U () (w\<lparr>files := AList.delete p (files w)\<rparr>))"
  "wlp (dir_write_new p f c) U E C w \<longleftrightarrow> (\<forall>k x. E (fault_error k) (write_part p x w)) \<and> (\<forall>x. C (write_part p x w)) \<and>
     (case look w p of None \<Rightarrow> E NotFound w
      | Some d \<Rightarrow> (case map_of d f of Some _ \<Rightarrow> E file_exists_err w
          | None \<Rightarrow> U () (w\<lparr>files := AList.update p (AList.update f c d) (files w)\<rparr>)))"
  "wlp (dir_read p f) S E C w \<longleftrightarrow> (\<forall>k. E (fault_error k) w) \<and> C w \<and>
     (case look w p of None \<Rightarrow> E NotFound w
      | Some d \<Rightarrow> (case map_of d f of None \<Rightarrow> E NotFound w | Some (_, b) \<Rightarrow> S b w))"
  "wlp (dir_sync p) U E C w \<longleftrightarrow> (\<forall>k. E (fault_error k) w) \<and> C w \<and>
     (case look w p of None \<Rightarrow> E NotFound w | Some _ \<Rightarrow> U () w)"
  "wlp data_dir_sync U E C w \<longleftrightarrow> (\<forall>k. E (fault_error k) w) \<and> C w \<and> U () w"
  by (auto simp: cred_calls wlp_prim split: option.splits list.splits)

text \<open>Reading the credentials changes nothing, and what it returns is on disk.\<close>

lemma peek_wlp:
  "wlp (peek_existing_station_id lib) (\<lambda>r w'. w' = w) (\<lambda>_ w'. w' = w) (\<lambda>w'. w' = w) w"
  by (auto simp: peek_existing_station_id_def read_to_string_def wlp_match wlp_simps split: option.split)

lemma load_identity_wlp:
  assumes "cred_lib_ok lib"
  shows "wlp (load_identity lib)
     (\<lambda>i w'. w' = w \<and> (look w creds_path = Some (new_creds lib opts) \<longrightarrow>
        station_id i = so_station_id opts \<and> enrolled_at i = so_enrolled_at opts \<and> si_perchpub_url i = so_perchpub_url opts \<and>
        parse_cert_not_after lib (station_cert_pem opts) = Inr (cert_not_after i)))
     (\<lambda>_ w'. w' = w) (\<lambda>w'. w' = w) w"
proof -
  obtain j where "json_enc lib (identity_of opts) = Some j" "json_dec lib j = Some (identity_of opts)"
    using assms unfolding cred_lib_ok_def by blast
  then show ?thesis
    by (auto simp: load_identity_def read_to_string_def wlp_simps new_creds_def cred_names identity_of_def
        split: option.split sum.split)
qed

text \<open>
  Where the credentials can be, given the entries \<open>before\<close> and \<open>after\<close>: unchanged, replaced by the new set,
  or moved aside with the new set complete but not yet promoted.
\<close>

definition untouched :: "(path \<Rightarrow> cdir option) \<Rightarrow> (path \<Rightarrow> cdir option) \<Rightarrow> bool" where
  "untouched before after \<longleftrightarrow>
     (\<forall>p. p \<notin> {creds_path, staging_path, rotated_path} \<longrightarrow> after p = before p)"

definition creds_safe :: "cdir \<Rightarrow> (path \<Rightarrow> cdir option) \<Rightarrow> (path \<Rightarrow> cdir option) \<Rightarrow> bool" where
  "creds_safe new before after \<longleftrightarrow> untouched before after \<and>
     (after creds_path = before creds_path \<or> after creds_path = Some new \<or>
      after creds_path = None \<and> after rotated_path = before creds_path \<and> after staging_path = Some new)"

definition creds_saved :: "'k cred_lib \<Rightarrow> save_options \<Rightarrow> station_identity \<Rightarrow> (path \<Rightarrow> cdir option) \<Rightarrow> bool" where
  "creds_saved lib opts i after \<longleftrightarrow> after creds_path = Some (new_creds lib opts) \<and>
     station_id i = so_station_id opts \<and> enrolled_at i = so_enrolled_at opts \<and> si_perchpub_url i = so_perchpub_url opts \<and>
     parse_cert_not_after lib (station_cert_pem opts) = Inr (cert_not_after i)"

lemma wlp_if [wlp_simps]: "wlp (if b then m else m') Q E C = (if b then wlp m Q E C else wlp m' Q E C)"
  by simp

lemma stage_wlp:
  assumes "cred_lib_ok lib" "look w staging_path = None"
  shows "wlp (stage_credentials lib opts)
     (\<lambda>_ w'. look w' staging_path = Some (new_creds lib opts) \<and> (\<forall>q. q \<noteq> staging_path \<longrightarrow> look w' q = look w q))
     (\<lambda>_ w'. \<forall>q. q \<noteq> staging_path \<longrightarrow> look w' q = look w q)
     (\<lambda>w'. \<forall>q. q \<noteq> staging_path \<longrightarrow> look w' q = look w q) w"
proof -
  obtain j where "json_enc lib (identity_of opts) = Some j"
    using assms unfolding cred_lib_ok_def by blast
  then show ?thesis
    using assms(2)
    by (simp add: stage_credentials_def write_mode_def fsync_dir_def wlp_simps new_creds_def cred_names)
qed

lemma untouched_refl [simp]: "untouched f f"
  by (simp add: untouched_def)

lemma untouched_updates [simp]:
  assumes "p \<in> {creds_path, staging_path, rotated_path}"
  shows "untouched f (map_of (AList.update p d F)) = untouched f (map_of F)"
    "untouched f (map_of (AList.delete p F)) = untouched f (map_of F)"
    "untouched f (look (write_part p x w)) = untouched f (look w)"
  using assms by (auto simp: untouched_def)

lemma promote_wlp:
  assumes lib: "cred_lib_ok lib" and st: "look w staging_path = Some (new_creds lib opts)" and ro: "look w rotated_path = None"
  shows "wlp (promote_credentials lib)
     (\<lambda>i w'. creds_saved lib opts i (look w') \<and> untouched (look w) (look w'))
     (\<lambda>_ w'. creds_safe (new_creds lib opts) (look w) (look w'))
     (\<lambda>w'. creds_safe (new_creds lib opts) (look w) (look w')) w"
proof -
  define S where "S = (\<lambda>w'. creds_safe (new_creds lib opts) (look w) (look w'))"
  define Q where "Q = (\<lambda>i w'. creds_saved lib opts i (look w') \<and> untouched (look w) (look w'))"
  have safe: "S w'" if "untouched (look w) (look w')" "look w' creds_path \<in> {look w creds_path, Some (new_creds lib opts)}
      \<or> look w' creds_path = None \<and> look w' rotated_path = look w creds_path \<and> look w' staging_path = Some (new_creds lib opts)" for w'
    using that by (auto simp: S_def creds_safe_def)
  have load: "wlp (load_identity lib) Q (\<lambda>_. S) S w'"
    if "untouched (look w) (look w')" "look w' creds_path = Some (new_creds lib opts)" for w'
    unfolding Q_def
    by (rule wlp_mono [OF load_identity_wlp [OF lib, where opts = opts]]) (use that in \<open>auto simp: creds_saved_def safe\<close>)
  have "wlp (promote_credentials lib) Q (\<lambda>_. S) S w"
  proof (cases "look w creds_path")
    case None
    show ?thesis using st ro None
      by (simp add: promote_credentials_def wlp_match wlp_simps safe load)
  next
    case (Some d)
    show ?thesis using st ro Some
      by (cases d) (simp_all add: promote_credentials_def wlp_match wlp_simps safe load new_creds_def)
  qed
  then show ?thesis by (simp add: S_def Q_def)
qed

lemma sweep_wlp:
  assumes "p \<in> {staging_path, rotated_path}"
  shows "wlp (remove_dir_if_exists p)
     (\<lambda>_ w'. look w' p = None \<and> (\<forall>q. q \<noteq> p \<longrightarrow> look w' q = look w q))
     (\<lambda>_ w'. \<forall>q. q \<noteq> p \<longrightarrow> look w' q = look w q) (\<lambda>w'. \<forall>q. q \<noteq> p \<longrightarrow> look w' q = look w q) w"
  by (auto simp: remove_dir_if_exists_def wlp_match wlp_simps split: option.splits)

lemma creds_safe_keep:
  "(\<And>q. q \<noteq> staging_path \<Longrightarrow> q \<noteq> rotated_path \<Longrightarrow> after q = before q) \<Longrightarrow> creds_safe new before after"
  by (simp add: creds_safe_def untouched_def)

lemma save_wlp:
  assumes lib: "cred_lib_ok lib"
  shows "wlp (save lib opts)
     (\<lambda>i w'. creds_saved lib opts i (look w') \<and> untouched (look w) (look w'))
     (\<lambda>_ w'. creds_safe (new_creds lib opts) (look w) (look w'))
     (\<lambda>w'. creds_safe (new_creds lib opts) (look w) (look w')) w"
proof -
  define S where "S = (\<lambda>w'. creds_safe (new_creds lib opts) (look w) (look w'))"
  define Q where "Q = (\<lambda>i w'. creds_saved lib opts i (look w') \<and> untouched (look w) (look w'))"
  define same where "same = (\<lambda>w'. \<forall>q. q \<noteq> staging_path \<longrightarrow> q \<noteq> rotated_path \<longrightarrow> look w' q = look w q)"
  have S: "S w'" if "same w'" for w'
    using that unfolding S_def same_def by (intro creds_safe_keep) blast
  have promote: "wlp (promote_credentials lib) Q (\<lambda>_. S) S w'"
    if "same w'" "look w' staging_path = Some (new_creds lib opts)" "look w' rotated_path = None" for w'
  proof -
    have c: "look w' creds_path = look w creds_path" using that(1) by (simp add: same_def del: split_paired_All)
    have u: "untouched (look w) f" if "untouched (look w') f" for f
      using that \<open>same w'\<close> by (simp add: untouched_def same_def del: split_paired_All)
    show ?thesis
      by (rule wlp_mono [OF promote_wlp [OF lib that(2,3)]])
        (use c u in \<open>auto simp: Q_def S_def creds_safe_def simp del: split_paired_All\<close>)
  qed
  have stage: "wlp (stage_credentials lib opts) (\<lambda>_. wlp (promote_credentials lib) Q (\<lambda>_. S) S) (\<lambda>_. S) S w'"
    if "same w'" "look w' staging_path = None" "look w' rotated_path = None" for w'
    by (rule wlp_mono [OF stage_wlp [OF lib that(2)]]) (use that in \<open>auto simp: same_def simp del: split_paired_All intro!: promote S\<close>)
  have sweep: "wlp (remove_dir_if_exists rotated_path) (\<lambda>_. wlp fs_create_dir_all
        (\<lambda>_. wlp (stage_credentials lib opts) (\<lambda>_. wlp (promote_credentials lib) Q (\<lambda>_. S) S) (\<lambda>_. S) S) (\<lambda>_. S) S) (\<lambda>_. S) S w'"
    if "same w'" "look w' staging_path = None" for w'
    by (rule wlp_mono [OF sweep_wlp [of rotated_path]])
      (use that in \<open>auto simp: same_def wlp_simps simp del: split_paired_All intro!: stage S\<close>)
  have "same w" by (simp add: same_def)
  have go: "wlp (remove_dir_if_exists staging_path) (\<lambda>_. wlp (remove_dir_if_exists rotated_path) (\<lambda>_. wlp fs_create_dir_all
        (\<lambda>_. wlp (stage_credentials lib opts) (\<lambda>_. wlp (promote_credentials lib) Q (\<lambda>_. S) S) (\<lambda>_. S) S) (\<lambda>_. S) S) (\<lambda>_. S) S)
      (\<lambda>_. S) S w"
    by (rule wlp_mono [OF sweep_wlp [of staging_path]])
      (auto simp: same_def simp del: split_paired_All intro!: sweep S)
  have "wlp (save lib opts) Q (\<lambda>_. S) S w"
    using go
    by (auto simp: save_def wlp_simps S [OF \<open>same w\<close>] intro!: wlp_mono [OF peek_wlp] split: option.split)
  then show ?thesis by (simp add: S_def Q_def)
qed

text \<open>
  The directory is in place after an error unless two calls failed: when only the promotion
  fails, the rename that restores the previous credentials goes through.
\<close>

definition in_place :: "'b world \<Rightarrow> 'b world \<Rightarrow> bool" where
  "in_place w w' \<longleftrightarrow> look w creds_path = None \<or> look w' creds_path \<noteq> None"

lemma in_place_from: "look w' creds_path = look w creds_path \<Longrightarrow> in_place w' = in_place w"
  by (auto simp: in_place_def fun_eq_iff)

lemma in_place_same: "look w' creds_path = look w creds_path \<Longrightarrow> in_place w w'"
  by (auto simp: in_place_def)

lemma wlpf_cred_calls [wlpf_simps]:
  "wlpf n (dir_rename p q) U E C w \<longleftrightarrow> (0 < n \<longrightarrow> (\<forall>k. E (n - 1) (fault_error k) w)) \<and> C w \<and>
     (case look w p of None \<Rightarrow> E n NotFound w
      | Some d \<Rightarrow> (case look w q of Some (_ # _) \<Rightarrow> E n not_empty_err w
          | _ \<Rightarrow> U n () (w\<lparr>files := AList.update q d (AList.delete p (files w))\<rparr>)))"
  "wlpf n (dir_remove_all p) U E C w \<longleftrightarrow> (0 < n \<longrightarrow> (\<forall>k x. E (n - 1) (fault_error k) (write_part p x w))) \<and>
     (\<forall>x. C (write_part p x w)) \<and>
     (case look w p of None \<Rightarrow> E n NotFound w | Some _ \<Rightarrow> U n () (w\<lparr>files := AList.delete p (files w)\<rparr>))"
  "wlpf n data_dir_sync U E C w \<longleftrightarrow> (0 < n \<longrightarrow> (\<forall>k. E (n - 1) (fault_error k) w)) \<and> C w \<and> U n () w"
  by (auto simp: cred_calls wlpf_prim split: option.splits list.splits)

lemma promote_in_place:
  assumes lib: "cred_lib_ok lib" and st: "look w staging_path = Some (new_creds lib opts)" and ro: "look w rotated_path = None"
    and n: "n \<le> 1"
  shows "wlpf n (promote_credentials lib) (\<lambda>_ _ _. True) (\<lambda>_ _. in_place w) (\<lambda>_. True) w"
proof -
  have load: "wlpf i (load_identity lib) (\<lambda>_ _ _. True) (\<lambda>_ _. in_place w) (\<lambda>_. True) w'"
    if "look w' creds_path \<noteq> None" for i w'
    by (rule wlpf_of_wlp [OF load_identity_wlp [OF lib, where opts = opts]]) (use that in \<open>auto simp: in_place_def\<close>)
  have there: "in_place w w'" if "look w' creds_path \<noteq> None" for w' using that by (simp add: in_place_def)
  have absent: "in_place w w'" if "look w creds_path = None" for w' using that by (simp add: in_place_def)
  show ?thesis
  proof (cases "look w creds_path")
    case None
    show ?thesis using st ro None
      by (auto simp: promote_credentials_def wlpf_match wlpf_simps there absent intro!: load)
  next
    case (Some d)
    show ?thesis using st ro Some n
      by (cases d) (auto simp: promote_credentials_def wlpf_match wlpf_simps there new_creds_def intro!: load)
  qed
qed

lemma save_in_place:
  assumes lib: "cred_lib_ok lib" and n: "n \<le> 1"
  shows "wlpf n (save lib opts) (\<lambda>_ _ _. True) (\<lambda>_ _. in_place w) (\<lambda>_. True) w"
proof -
  define T where "T = (\<lambda>(_ :: nat) (_ :: station_identity) (_ :: cdir world). True)"
  define P where "P = (\<lambda>(_ :: nat) (_ :: identity_error). in_place w)"
  define same where "same = (\<lambda>w'. \<forall>q. q \<noteq> staging_path \<longrightarrow> q \<noteq> rotated_path \<longrightarrow> look w' q = look w q)"
  have P: "P i e w'" if "same w'" for i e w'
    using that unfolding P_def same_def by (intro in_place_same) (simp del: split_paired_All)
  have promote: "wlpf i (promote_credentials lib) T P (\<lambda>_. True) w'"
    if "same w'" "look w' staging_path = Some (new_creds lib opts)" "look w' rotated_path = None" "i \<le> n" for i w'
  proof -
    have "in_place w' = in_place w" using that(1) by (intro in_place_from) (simp add: same_def del: split_paired_All)
    then show ?thesis
      using promote_in_place [OF lib that(2,3), of i] that(4) n by (simp add: T_def P_def)
  qed
  have stage: "wlpf i (stage_credentials lib opts) (\<lambda>j _. wlpf j (promote_credentials lib) T P (\<lambda>_. True)) P (\<lambda>_. True) w'"
    if "same w'" "look w' staging_path = None" "look w' rotated_path = None" "i \<le> n" for i w'
    by (rule wlpf_of_wlp [OF stage_wlp [OF lib that(2)]])
      (use that in \<open>auto simp: same_def simp del: split_paired_All intro!: promote P\<close>)
  have create: "wlpf i fs_create_dir_all (\<lambda>j _. wlpf j (stage_credentials lib opts)
        (\<lambda>j _. wlpf j (promote_credentials lib) T P (\<lambda>_. True)) P (\<lambda>_. True)) (\<lambda>j e. P j (IdIo data_dir_path e)) (\<lambda>_. True) w'"
    if "same w'" "look w' staging_path = None" "look w' rotated_path = None" "i \<le> n" for i w'
    using that by (simp add: fs_create_dir_all_def wlpf_prim stage P)
  have sweep: "wlpf i (remove_dir_if_exists rotated_path) (\<lambda>j _. wlpf j fs_create_dir_all (\<lambda>j _. wlpf j (stage_credentials lib opts)
        (\<lambda>j _. wlpf j (promote_credentials lib) T P (\<lambda>_. True)) P (\<lambda>_. True)) (\<lambda>j e. P j (IdIo data_dir_path e)) (\<lambda>_. True)) P (\<lambda>_. True) w'"
    if "same w'" "look w' staging_path = None" "i \<le> n" for i w'
    by (rule wlpf_of_wlp [OF sweep_wlp [of rotated_path]])
      (use that in \<open>auto simp: same_def simp del: split_paired_All intro!: create P\<close>)
  have go: "wlpf i (remove_dir_if_exists staging_path) (\<lambda>j _. wlpf j (remove_dir_if_exists rotated_path)
        (\<lambda>j _. wlpf j fs_create_dir_all (\<lambda>j _. wlpf j (stage_credentials lib opts)
        (\<lambda>j _. wlpf j (promote_credentials lib) T P (\<lambda>_. True)) P (\<lambda>_. True)) (\<lambda>j e. P j (IdIo data_dir_path e)) (\<lambda>_. True)) P (\<lambda>_. True))
      P (\<lambda>_. True) w" if "i \<le> n" for i
    by (rule wlpf_of_wlp [OF sweep_wlp [of staging_path]])
      (use that in \<open>auto simp: same_def simp del: split_paired_All intro!: sweep P\<close>)
  have "same w" by (simp add: same_def)
  have "wlpf n (save lib opts) T P (\<lambda>_. True) w"
    using go P [OF \<open>same w\<close>]
    by (auto simp: save_def wlpf_simps intro!: wlpf_of_wlp [OF peek_wlp] split: option.split)
  then show ?thesis by (simp add: T_def P_def)
qed

text \<open>
  C12: Replacing the credentials never mixes two sets. Whatever the host injects and wherever the
  process dies, \<^verbatim>\<open>credentials/\<close> afterwards is the directory it was before, or the complete new set (the
  key file private, all four files of the same enrollment), or it is missing while the previous
  directory is intact under \<^verbatim>\<open>credentials.old\<close> and the new one complete under \<^verbatim>\<open>credentials.tmp\<close>. On success
  it is the new set and the identity returned is the one that was saved. Nothing else is touched.
\<close>

theorem save_never_mixes:
  assumes "cred_lib_ok lib" and run: "save lib opts w fs = (r, w', fs')"
  shows "(\<forall>p. p \<notin> {creds_path, staging_path, rotated_path} \<longrightarrow> look w' p = look w p) \<and>
    (look w' creds_path = look w creds_path \<or> look w' creds_path = Some (new_creds lib opts) \<or>
     look w' creds_path = None \<and> look w' rotated_path = look w creds_path \<and> look w' staging_path = Some (new_creds lib opts)) \<and>
    (case r of
       Ok i \<Rightarrow> look w' creds_path = Some (new_creds lib opts) \<and> station_id i = so_station_id opts \<and>
         enrolled_at i = so_enrolled_at opts \<and> si_perchpub_url i = so_perchpub_url opts \<and>
         parse_cert_not_after lib (station_cert_pem opts) = Inr (cert_not_after i)
     | _ \<Rightarrow> True)"
  using wlp_run [OF save_wlp [OF assms(1)] run]
  by (auto simp: creds_safe_def creds_saved_def untouched_def split: res.splits)

section \<open>A working host\<close>

lemma run_cred_calls [run_simps]:
  "dir_create p w [] = (case look w p of Some _ \<Rightarrow> (Err file_exists_err, w, [])
     | None \<Rightarrow> (Ok (), w\<lparr>files := AList.update p [] (files w)\<rparr>, []))"
  "dir_rename p q w [] = (case look w p of None \<Rightarrow> (Err NotFound, w, [])
     | Some d \<Rightarrow> (case look w q of Some (_ # _) \<Rightarrow> (Err not_empty_err, w, [])
         | _ \<Rightarrow> (Ok (), w\<lparr>files := AList.update q d (AList.delete p (files w))\<rparr>, [])))"
  "dir_remove_all p w [] = (case look w p of None \<Rightarrow> (Err NotFound, w, [])
     | Some _ \<Rightarrow> (Ok (), w\<lparr>files := AList.delete p (files w)\<rparr>, []))"
  "dir_write_new p f c w [] = (case look w p of None \<Rightarrow> (Err NotFound, w, [])
     | Some d \<Rightarrow> (case map_of d f of Some _ \<Rightarrow> (Err file_exists_err, w, [])
         | None \<Rightarrow> (Ok (), w\<lparr>files := AList.update p (AList.update f c d) (files w)\<rparr>, [])))"
  "dir_read p f w [] = (case look w p of None \<Rightarrow> (Err NotFound, w, [])
     | Some d \<Rightarrow> (case map_of d f of None \<Rightarrow> (Err NotFound, w, []) | Some (_, b) \<Rightarrow> (Ok b, w, [])))"
  "dir_sync p w [] = (case look w p of None \<Rightarrow> (Err NotFound, w, []) | Some _ \<Rightarrow> (Ok (), w, []))"
  "data_dir_sync w [] = (Ok (), w, [])"
  by (auto simp: cred_calls prim_def split: option.splits list.splits)

lemma run_load:
  assumes "cred_lib_ok lib" "look w creds_path = Some (new_creds lib opts)" "parse_cert_not_after lib (station_cert_pem opts) = Inr na"
  shows "load_identity lib w [] = (Ok \<lparr> station_id = so_station_id opts, enrolled_at = so_enrolled_at opts,
       si_perchpub_url = so_perchpub_url opts, cert_not_after = na \<rparr>, w, [])"
    "peek_existing_station_id lib w [] = (Ok (Some (so_station_id opts)), w, [])"
proof -
  obtain j where "json_enc lib (identity_of opts) = Some j" "json_dec lib j = Some (identity_of opts)" "valid_utf8 lib j"
    using assms(1) unfolding cred_lib_ok_def by blast
  then show "load_identity lib w [] = (Ok \<lparr> station_id = so_station_id opts, enrolled_at = so_enrolled_at opts,
       si_perchpub_url = so_perchpub_url opts, cert_not_after = na \<rparr>, w, [])"
    "peek_existing_station_id lib w [] = (Ok (Some (so_station_id opts)), w, [])"
    using assms(2,3)
    by (simp_all add: load_identity_def peek_existing_station_id_def read_to_string_def run_simps new_creds_def cred_names identity_of_def)
qed

lemma run_sweep_dir:
  "\<exists>w'. remove_dir_if_exists p w [] = (Ok (), w', []) \<and> (\<forall>q. look w' q = (if q = p then None else look w q))"
  by (cases "look w p") (simp_all add: remove_dir_if_exists_def run_simps)

lemma run_stage:
  assumes "cred_lib_ok lib" "look w staging_path = None"
  shows "\<exists>w'. stage_credentials lib opts w [] = (Ok (), w', []) \<and>
    (\<forall>q. look w' q = (if q = staging_path then Some (new_creds lib opts) else look w q))"
proof -
  obtain j where "json_enc lib (identity_of opts) = Some j"
    using assms unfolding cred_lib_ok_def by blast
  then show ?thesis
    using assms(2)
    by (simp add: stage_credentials_def write_mode_def fsync_dir_def run_simps new_creds_def cred_names)
qed

lemma run_promote:
  assumes "cred_lib_ok lib" "look w staging_path = Some (new_creds lib opts)" "look w rotated_path = None"
    and "parse_cert_not_after lib (station_cert_pem opts) = Inr na"
  shows "\<exists>w'. promote_credentials lib w [] = (Ok \<lparr> station_id = so_station_id opts, enrolled_at = so_enrolled_at opts,
       si_perchpub_url = so_perchpub_url opts, cert_not_after = na \<rparr>, w', []) \<and>
    look w' creds_path = Some (new_creds lib opts) \<and> look w' staging_path = None \<and> look w' rotated_path = None"
  using assms
  by (cases "look w creds_path") (simp_all add: promote_credentials_def run_simps run_load)

lemma run_save:
  assumes "cred_lib_ok lib" "overwrite opts \<or> look w creds_path = None"
    and "parse_cert_not_after lib (station_cert_pem opts) = Inr na"
  shows "\<exists>w'. save lib opts w [] = (Ok \<lparr> station_id = so_station_id opts, enrolled_at = so_enrolled_at opts,
       si_perchpub_url = so_perchpub_url opts, cert_not_after = na \<rparr>, w', []) \<and>
    look w' creds_path = Some (new_creds lib opts) \<and> look w' staging_path = None \<and> look w' rotated_path = None"
proof -
  obtain w1 where w1: "remove_dir_if_exists staging_path w [] = (Ok (), w1, [])" "look w1 staging_path = None"
    using run_sweep_dir [of staging_path w] by (auto simp del: split_paired_All)
  obtain w2 where w2: "remove_dir_if_exists rotated_path w1 [] = (Ok (), w2, [])" "look w2 staging_path = None" "look w2 rotated_path = None"
    using run_sweep_dir [of rotated_path w1] w1(2) by (auto simp del: split_paired_All)
  obtain w3 where w3: "stage_credentials lib opts w2 [] = (Ok (), w3, [])"
    "look w3 staging_path = Some (new_creds lib opts)" "look w3 rotated_path = None"
    using run_stage [OF assms(1) w2(2), of opts] w2(3) by (auto simp del: split_paired_All)
  have peek: "(if overwrite opts then ret None else peek_existing_station_id lib) w [] = (Ok None, w, [])"
    using assms(2) by (auto simp: peek_existing_station_id_def read_to_string_def run_simps)
  show ?thesis
    using run_promote [OF assms(1) w3(2,3) assms(3)] w1(1) w2(1) w3(1) peek
    by (auto simp: save_def run_bind run_map_err run_calls)
qed

text \<open>
  C34: Round trip. On a working host a set of credentials that is saved, over an existing one when
  asked to, is what loading it returns: the identity, its station id and the key, which is
  readable by its owner only; no staging or rotated directory is left behind.
\<close>

theorem save_load_roundtrip:
  assumes "cred_lib_ok lib" "overwrite opts \<or> look w creds_path = None"
    and "parse_cert_not_after lib (station_cert_pem opts) = Inr na"
    and "valid_utf8 lib (station_key_pem opts)" "key_from_pem lib (station_key_pem opts) = Some k"
  shows "\<exists>i w'. save lib opts w [] = (Ok i, w', []) \<and> load_identity lib w' [] = (Ok i, w', []) \<and>
    i = \<lparr> station_id = so_station_id opts, enrolled_at = so_enrolled_at opts, si_perchpub_url = so_perchpub_url opts, cert_not_after = na \<rparr> \<and>
    peek_existing_station_id lib w' [] = (Ok (Some (so_station_id opts)), w', []) \<and>
    load_keypair lib w' [] = (Ok k, w', []) \<and>
    map_option (\<lambda>d. map_of d key_name) (look w' creds_path) = Some (Some (384, station_key_pem opts)) \<and>
    look w' staging_path = None \<and> look w' rotated_path = None"
proof -
  obtain w' where s: "save lib opts w [] = (Ok \<lparr> station_id = so_station_id opts, enrolled_at = so_enrolled_at opts,
       si_perchpub_url = so_perchpub_url opts, cert_not_after = na \<rparr>, w', [])"
    and c: "look w' creds_path = Some (new_creds lib opts)" and r: "look w' staging_path = None" "look w' rotated_path = None"
    using run_save [OF assms(1-3)] by blast
  have "load_keypair lib w' [] = (Ok k, w', [])"
    using c assms(4,5) by (simp add: load_keypair_def read_to_string_def run_simps new_creds_def cred_names)
  then show ?thesis
    using s r c run_load [OF assms(1) c assms(3)] by (simp add: new_creds_def cred_names)
qed

text \<open>
  C35: A crash between the two renames of a replacement loses the previous key. The process dies after
  \<^verbatim>\<open>credentials/\<close> was moved aside; from then on the key reads as missing, which an enrollment takes
  for a station that never had one, and the next completed save deletes the directory that holds it.
\<close>

theorem interrupted_save_loses_key:
  assumes "cred_lib_ok lib" "overwrite opts" "look w creds_path = Some (x # d)"
    and "look w staging_path = None" "look w rotated_path = None"
    and "parse_cert_not_after lib (station_cert_pem opts') = Inr na"
  shows "\<exists>w1 e w2. save lib opts w (replicate 11 NoFault @ [Crash None]) = (Crashed, w1, []) \<and>
    look w1 rotated_path = Some (x # d) \<and>
    load_keypair lib w1 [] = (Err (IdIo creds_path NotFound), w1, []) \<and>
    save lib opts' w1 [] = (Ok e, w2, []) \<and>
    look w2 creds_path = Some (new_creds lib opts') \<and> look w2 staging_path = None \<and> look w2 rotated_path = None"
proof -
  obtain j where "json_enc lib (identity_of opts) = Some j"
    using assms unfolding cred_lib_ok_def by blast
  then have "\<exists>w1. save lib opts w (replicate 11 NoFault @ [Crash None]) = (Crashed, w1, []) \<and>
      look w1 rotated_path = Some (x # d) \<and> look w1 creds_path = None"
    using assms(2-5)
    by (simp add: save_def remove_dir_if_exists_def stage_credentials_def write_mode_def fsync_dir_def promote_credentials_def
        exec_simps cred_calls numeral_eq_Suc cred_names)
  then obtain w1 where w1: "save lib opts w (replicate 11 NoFault @ [Crash None]) = (Crashed, w1, [])"
    "look w1 rotated_path = Some (x # d)" "look w1 creds_path = None" by blast
  have "load_keypair lib w1 [] = (Err (IdIo creds_path NotFound), w1, [])"
    using w1(3) by (simp add: load_keypair_def read_to_string_def run_simps)
  then show ?thesis using w1 run_save [OF assms(1) _ assms(6), of w1] by blast
qed

section \<open>A concrete library\<close>

text \<open>Metadata as text: each number in unary, closed by a comma.\<close>

definition put_nat :: "nat \<Rightarrow> string" where
  "put_nat n = replicate n (CHR ''1'') @ '',''"

definition get_nat :: "string \<Rightarrow> nat \<times> string" where
  "get_nat s = (length (takeWhile ((=) (CHR ''1'')) s), tl (dropWhile ((=) (CHR ''1'')) s))"

lemma get_put_nat [simp]: "get_nat (put_nat n @ s) = (n, s)"
  by (induction n) (simp_all add: get_nat_def put_nat_def)

definition ex_cred_lib :: "string cred_lib" where
  "ex_cred_lib = \<lparr>
     json_enc = (\<lambda>f. Some (put_nat (if_station_id f) @ put_nat (nat (if_enrolled_at f)) @ put_nat (nat (- if_enrolled_at f)) @ if_perchpub_url f)),
     json_dec = (\<lambda>s. case get_nat s of (a, s) \<Rightarrow> case get_nat s of (b, s) \<Rightarrow> case get_nat s of (c, s) \<Rightarrow>
        Some \<lparr> if_station_id = a, if_enrolled_at = int b - int c, if_perchpub_url = s \<rparr>),
     valid_utf8 = (\<lambda>_. True), cert_parser = (\<lambda>s. if s = [] then NotPem else NotAfter (int (length s))),
     timestamp_utc = (\<lambda>t. Some (t * ns_per_sec)), key_from_pem = (\<lambda>s. Some s) \<rparr>"

lemma ex_cred_lib_ok [simp]: "cred_lib_ok ex_cred_lib"
  by (simp add: cred_lib_ok_def ex_cred_lib_def)

definition ex_save :: "string \<Rightarrow> bool \<Rightarrow> save_options" where
  "ex_save key force = \<lparr> so_station_id = 7, so_enrolled_at = 3, so_perchpub_url = ''https://p'', station_key_pem = key,
     station_cert_pem = ''cert'', so_ca_chain_pem = ''ca'', overwrite = force \<rparr>"

lemma ex_save_sel [simp]:
  "station_cert_pem (ex_save key force) = ''cert''" "overwrite (ex_save key force) = force"
  "so_station_id (ex_save key force) = 7" "station_key_pem (ex_save key force) = key"
  by (simp_all add: ex_save_def)

lemma ex_not_after [simp]: "parse_cert_not_after ex_cred_lib ''cert'' = Inr 4000000000"
  by (simp add: parse_cert_not_after_def ex_cred_lib_def ns_per_sec_def)

definition ex_fresh :: "cdir world" where
  "ex_fresh = \<lparr> files = [], seq = 0, journal = [] \<rparr>"

definition ex_enrolled :: "cdir world" where
  "ex_enrolled = \<lparr> files = [(creds_path, [(key_name, (384, ''old''))])], seq = 0, journal = [] \<rparr>"

lemma ex_enrolled_look [simp]:
  "look ex_enrolled creds_path = Some [(key_name, (384, ''old''))]" "look ex_enrolled staging_path = None"
  "look ex_enrolled rotated_path = None" "look ex_fresh p = None"
  by (simp_all add: ex_enrolled_def ex_fresh_def cred_paths)

theorem save_never_mixes_witness:
  "\<exists>r w' fs'. save ex_cred_lib (ex_save ''new'' True) ex_enrolled [NoFault, Crash None] = (r, w', fs') \<and>
     (look w' creds_path = Some [(key_name, (384, ''old''))] \<or>
      look w' creds_path = Some (new_creds ex_cred_lib (ex_save ''new'' True)) \<or>
      look w' rotated_path = Some [(key_name, (384, ''old''))])"
proof -
  obtain r w' fs' where run: "save ex_cred_lib (ex_save ''new'' True) ex_enrolled [NoFault, Crash None] = (r, w', fs')"
    using prod_cases3 by blast
  show ?thesis using save_never_mixes [OF ex_cred_lib_ok run] run by auto
qed

theorem save_load_roundtrip_witness:
  "\<exists>i w'. save ex_cred_lib (ex_save ''new'' False) ex_fresh [] = (Ok i, w', []) \<and> station_id i = 7 \<and>
     load_keypair ex_cred_lib w' [] = (Ok ''new'', w', [])"
proof -
  have "valid_utf8 ex_cred_lib ''new''" "key_from_pem ex_cred_lib ''new'' = Some ''new''"
    by (simp_all add: ex_cred_lib_def)
  then show ?thesis
    using save_load_roundtrip [OF ex_cred_lib_ok, where opts = "ex_save ''new'' False" and w = ex_fresh
        and na = 4000000000 and k = "''new''"] by auto
qed

theorem interrupted_save_loses_key_witness:
  "\<exists>w1 e w2. save ex_cred_lib (ex_save ''new'' True) ex_enrolled (replicate 11 NoFault @ [Crash None]) = (Crashed, w1, []) \<and>
     save ex_cred_lib (ex_save ''newer'' False) w1 [] = (Ok e, w2, []) \<and> look w2 rotated_path = None"
  using interrupted_save_loses_key [OF ex_cred_lib_ok, where opts = "ex_save ''new'' True" and w = ex_enrolled
      and x = "(key_name, (384, ''old''))" and d = "[]" and opts' = "ex_save ''newer'' False" and na = 4000000000]
  by auto

end
