(* ===== verification/Confirm.thy ===== *)
theory Confirm
  imports Client
begin

text \<open>
  The enrollment exchange, \<^verbatim>\<open>crates/perchstation-core/src/enrollment/confirm.rs\<close>, and the hardened
  TLS base it shares with the upload client, \<^verbatim>\<open>crates/perchstation-core/src/tls.rs\<close>.

  The record \<open>confirm_lib\<close> stands for the libraries (PEM, X.509, JSON, HTTP, key pairs); the
  network is a function from the client, the URL, the request and the number of the attempt to a
  transport error or an answer. \<open>send_with_backoff\<close> returns its result with the trace of what it did:
  the requests it posted and the time it slept in between.
\<close>

section \<open>Data\<close>

record enrollment_request =
  auth_token :: string
  csr_pem :: string

record enrollment_response =
  er_success :: bool
  er_reason :: string
  er_certificate_pem :: "string option"
  er_ca_chain_pem :: "string option"
  er_station_id :: "uuid option"

record validation_error =
  ve_loc :: "string list"
  ve_msg :: string
  ve_type :: string

record http_validation_error =
  hv_detail :: "validation_error list option"

record confirmed_enrollment =
  ce_station_id :: uuid
  ce_certificate_pem :: string
  ce_ca_chain_pem :: string

datatype confirm_error =
    ConfirmTls string
  | CaChainEmpty
  | TransientExhausted u32 string string
  | SessionInvalid u16 "http_validation_error option"
  | ServerRejected u16 string
  | Refused string
  | MissingField string
  | ConfirmCertPem string
  | KeyMismatch
  | ChainMismatch string
  | UnexpectedRedirect u16 "string option"
  | CertNotYetValid instant
  | CertExpired instant

datatype attempt_error = Transient string | Terminal confirm_error

section \<open>The TLS base\<close>

record client_builder =
  use_rustls :: bool
  built_in_roots :: bool
  min_tls_1_2 :: bool
  https_only :: bool
  follow_redirects :: bool
  extra_roots :: "string list"

record confirm_client =
  client_base :: client_builder
  client_timeout :: duration

text \<open>
  \<open>pem_certs\<close> is the iterator of \<^verbatim>\<open>rustls_pemfile::certs\<close>; \<open>root_of_der\<close>, \<open>build_builder\<close> and
  \<open>verify_signature\<close> return the message of a failure. \<open>key_usage\<close> is the outcome of parsing the
  extension: an error, its absence, or whether it allows to sign certificates.
\<close>

record ('c, 'k) confirm_lib =
  pem_certs :: "string \<Rightarrow> (string + string) list"
  root_of_der :: "string \<Rightarrow> string option"
  build_builder :: "confirm_client \<Rightarrow> string option"
  pem_der :: "string \<Rightarrow> string + string"
  der_cert :: "string \<Rightarrow> string + 'c"
  cert_spki :: "'c \<Rightarrow> string"
  not_before_ts :: "'c \<Rightarrow> int"
  not_after_ts :: "'c \<Rightarrow> int"
  is_ca :: "'c \<Rightarrow> bool"
  key_usage :: "'c \<Rightarrow> string + bool option"
  verify_signature :: "'c \<Rightarrow> 'c \<Rightarrow> string option"
  utc_of_timestamp :: "int \<Rightarrow> instant option"
  public_key_der :: "'k \<Rightarrow> string"
  response_json :: "string \<Rightarrow> string + enrollment_response"
  detail_json :: "string \<Rightarrow> http_validation_error option"
  status_show :: "u16 \<Rightarrow> string"
  uuid_show :: "uuid \<Rightarrow> string"

definition hardened_builder :: client_builder where
  "hardened_builder = \<lparr> use_rustls = True, built_in_roots = True, min_tls_1_2 = True, https_only = True,
     follow_redirects = False, extra_roots = [] \<rparr>"

fun add_roots :: "('c, 'k) confirm_lib \<Rightarrow> client_builder \<Rightarrow> (string + string) list \<Rightarrow> string + client_builder" where
  "add_roots lib b [] = Inr b"
| "add_roots lib b (Inl err # rest) = Inl (''parse CA cert: '' @ err)"
| "add_roots lib b (Inr der # rest) =
     (case root_of_der lib der of
        Some err \<Rightarrow> Inl (''convert CA cert: '' @ err)
      | None \<Rightarrow> add_roots lib (b\<lparr>extra_roots := extra_roots b @ [der]\<rparr>) rest)"

definition rustls_builder_for_upload :: "('c, 'k) confirm_lib \<Rightarrow> string option \<Rightarrow> string + client_builder" where
  "rustls_builder_for_upload lib extra_ca_pem =
     (case extra_ca_pem of
        None \<Rightarrow> Inr hardened_builder
      | Some ca_pem \<Rightarrow> add_roots lib hardened_builder (pem_certs lib ca_pem))"

definition build_client :: "('c, 'k) confirm_lib \<Rightarrow> string \<Rightarrow> confirm_error + confirm_client" where
  "build_client lib ca_chain =
     (if trim_spaces ca_chain = [] then Inl CaChainEmpty
      else
        (case rustls_builder_for_upload lib (Some ca_chain) of
           Inl msg \<Rightarrow> Inl (ConfirmTls msg)
         | Inr builder \<Rightarrow>
             (let client = \<lparr> client_base = builder, client_timeout = 30 * nat ns_per_sec \<rparr> in
              case build_builder lib client of
                Some err \<Rightarrow> Inl (ConfirmTls err)
              | None \<Rightarrow> Inr client)))"

section \<open>One attempt\<close>

record http_answer =
  ans_status :: u16
  ans_location :: "string option"
  ans_body :: "string + string"

type_synonym network = "confirm_client \<Rightarrow> string \<Rightarrow> enrollment_request \<Rightarrow> nat \<Rightarrow> string + http_answer"

definition is_redirection :: "u16 \<Rightarrow> bool" where
  "is_redirection s \<longleftrightarrow> 300 \<le> s \<and> s \<le> 399"

definition is_client_error :: "u16 \<Rightarrow> bool" where
  "is_client_error s \<longleftrightarrow> 400 \<le> s \<and> s \<le> 499"

definition is_server_error :: "u16 \<Rightarrow> bool" where
  "is_server_error s \<longleftrightarrow> 500 \<le> s \<and> s \<le> 599"

definition text_or_default :: "string + string \<Rightarrow> string" where
  "text_or_default body = (case body of Inl _ \<Rightarrow> [] | Inr t \<Rightarrow> t)"

definition classify_non_terminal_status :: "('c, 'k) confirm_lib \<Rightarrow> u16 \<Rightarrow> string option \<Rightarrow> attempt_error" where
  "classify_non_terminal_status lib status location =
     (if is_redirection status then Terminal (UnexpectedRedirect status location)
      else Transient (''unexpected HTTP '' @ status_show lib status))"

definition classify_server_error :: "('c, 'k) confirm_lib \<Rightarrow> u16 \<Rightarrow> string \<Rightarrow> attempt_error" where
  "classify_server_error lib status body =
     (if status = 502 then Terminal (ServerRejected status body)
      else Transient (''HTTP '' @ status_show lib status @ '': '' @ body))"

definition attempt_once :: "('c, 'k) confirm_lib \<Rightarrow> string + http_answer \<Rightarrow> attempt_error + enrollment_response" where
  "attempt_once lib sent =
     (case sent of
        Inl err \<Rightarrow> Inl (Transient (''send error: '' @ err))
      | Inr response \<Rightarrow>
          (let status = ans_status response in
           if status = 200 then
             (case (case ans_body response of Inl err \<Rightarrow> Inl err | Inr t \<Rightarrow> response_json lib t) of
                Inl err \<Rightarrow> Inl (Transient (''decode 200 body: '' @ err))
              | Inr parsed \<Rightarrow> Inr parsed)
           else if status = 422 then
             Inl (Terminal (SessionInvalid status (detail_json lib (text_or_default (ans_body response)))))
           else if is_client_error status then
             Inl (Terminal (ServerRejected status (text_or_default (ans_body response))))
           else if is_server_error status then
             Inl (classify_server_error lib status (text_or_default (ans_body response)))
           else Inl (classify_non_terminal_status lib status (ans_location response))))"

section \<open>Validation of the answer\<close>

fun collect_ders :: "(string + string) list \<Rightarrow> string + string list" where
  "collect_ders [] = Inr []"
| "collect_ders (Inl err # rest) = Inl err"
| "collect_ders (Inr der # rest) =
     (case collect_ders rest of Inl err \<Rightarrow> Inl err | Inr ders \<Rightarrow> Inr (der # ders))"

definition parse_cert_ders :: "('c, 'k) confirm_lib \<Rightarrow> string \<Rightarrow> string + string list" where
  "parse_cert_ders lib pem = collect_ders (pem_certs lib pem)"

definition usable_ca :: "('c, 'k) confirm_lib \<Rightarrow> 'c \<Rightarrow> bool" where
  "usable_ca lib ca \<longleftrightarrow> is_ca lib ca \<and> (case key_usage lib ca of Inr (Some sign) \<Rightarrow> sign | _ \<Rightarrow> False)"

fun verify_loop :: "('c, 'k) confirm_lib \<Rightarrow> 'c \<Rightarrow> string list \<Rightarrow> string option \<Rightarrow> confirm_error + unit" where
  "verify_loop lib leaf [] prev =
     Inl (ChainMismatch (case prev of Some e \<Rightarrow> e | None \<Rightarrow> ''no pinned CA verified the leaf signature''))"
| "verify_loop lib leaf (ca_der # rest) prev =
     (case der_cert lib ca_der of
        Inl err \<Rightarrow> verify_loop lib leaf rest (Some (''parse pinned CA: '' @ err))
      | Inr ca \<Rightarrow>
          if \<not> usable_ca lib ca
          then verify_loop lib leaf rest (Some ''pinned cert is not a usable CA (needs cA=TRUE + keyCertSign)'')
          else (case verify_signature lib leaf ca of
                  None \<Rightarrow> Inr ()
                | Some err \<Rightarrow> verify_loop lib leaf rest (Some (''verify against pinned CA: '' @ err))))"

definition validate_chain ::
  "('c, 'k) confirm_lib \<Rightarrow> string \<Rightarrow> string \<Rightarrow> string \<Rightarrow> instant \<Rightarrow> confirm_error + unit" where
  "validate_chain lib cert_pem pinned_ca_pem response_ca_pem now =
     (case parse_cert_ders lib pinned_ca_pem of
        Inl err \<Rightarrow> Inl (ChainMismatch (''parse pinned CA: '' @ err))
      | Inr pinned_ders \<Rightarrow>
     (case parse_cert_ders lib response_ca_pem of
        Inl err \<Rightarrow> Inl (ChainMismatch (''parse response CA: '' @ err))
      | Inr response_ders \<Rightarrow>
     if pinned_ders = [] then Inl CaChainEmpty
     else if \<not> list_all (\<lambda>d. list_ex (\<lambda>p. p = d) pinned_ders) response_ders
     then Inl (ChainMismatch ''response ca_chain contains a cert not in the pinned QR chain'')
     else
     (case pem_der lib cert_pem of
        Inl err \<Rightarrow> Inl (ChainMismatch (''parse leaf: '' @ err))
      | Inr leaf_der \<Rightarrow>
     (case der_cert lib leaf_der of
        Inl err \<Rightarrow> Inl (ChainMismatch (''parse leaf x509: '' @ err))
      | Inr leaf \<Rightarrow>
     (case utc_of_timestamp lib (not_before_ts lib leaf) of
        None \<Rightarrow> Inl (ChainMismatch ''leaf not_before is not a representable UTC time'')
      | Some not_before \<Rightarrow>
     (case utc_of_timestamp lib (not_after_ts lib leaf) of
        None \<Rightarrow> Inl (ChainMismatch ''leaf not_after is not a representable UTC time'')
      | Some not_after \<Rightarrow>
     if now < not_before then Inl (CertNotYetValid not_before)
     else if not_after < now then Inl (CertExpired not_after)
     else verify_loop lib leaf pinned_ders None))))))"

definition validate_cert_against_key :: "('c, 'k) confirm_lib \<Rightarrow> string \<Rightarrow> 'k \<Rightarrow> confirm_error + unit" where
  "validate_cert_against_key lib cert_pem keypair =
     (case pem_der lib cert_pem of
        Inl err \<Rightarrow> Inl (ConfirmCertPem err)
      | Inr der \<Rightarrow>
          (case der_cert lib der of
             Inl err \<Rightarrow> Inl (ConfirmCertPem err)
           | Inr cert \<Rightarrow> if cert_spki lib cert \<noteq> public_key_der lib keypair then Inl KeyMismatch else Inr ()))"

definition validate_response ::
  "('c, 'k) confirm_lib \<Rightarrow> enrollment_response \<Rightarrow> string \<Rightarrow> 'k \<Rightarrow> instant \<Rightarrow> confirm_error + confirmed_enrollment" where
  "validate_response lib response ca_chain keypair now =
     (if \<not> er_success response then Inl (Refused (er_reason response))
      else
     (case er_certificate_pem response of
        None \<Rightarrow> Inl (MissingField ''certificate_pem'')
      | Some certificate \<Rightarrow>
     (case er_ca_chain_pem response of
        None \<Rightarrow> Inl (MissingField ''ca_chain_pem'')
      | Some ca_chain_response \<Rightarrow>
     (case er_station_id response of
        None \<Rightarrow> Inl (MissingField ''station_id'')
      | Some sid \<Rightarrow>
     (case validate_cert_against_key lib certificate keypair of
        Inl err \<Rightarrow> Inl err
      | Inr _ \<Rightarrow>
     (case validate_chain lib certificate ca_chain ca_chain_response now of
        Inl err \<Rightarrow> Inl err
      | Inr _ \<Rightarrow> Inr \<lparr> ce_station_id = sid, ce_certificate_pem = certificate,
                      ce_ca_chain_pem = ca_chain_response \<rparr>))))))"

section \<open>The retry loop\<close>

definition transient_backoff :: "duration list" where
  "transient_backoff = [5 * nat ns_per_sec, 30 * nat ns_per_sec]"

datatype confirm_step = Post string enrollment_request | Sleep duration

function confirm_loop ::
  "('c, 'k) confirm_lib \<Rightarrow> (nat \<Rightarrow> string + http_answer) \<Rightarrow> (enrollment_response \<Rightarrow> confirm_error + confirmed_enrollment)
     \<Rightarrow> string \<Rightarrow> enrollment_request \<Rightarrow> duration list \<Rightarrow> u32 \<Rightarrow> u32 \<Rightarrow> string option
     \<Rightarrow> (confirm_error + confirmed_enrollment) \<times> confirm_step list" where
  "confirm_loop lib answer check url body backoff max_attempts n last_transient =
     (if max_attempts < n then
        (Inl (TransientExhausted max_attempts url
           (case last_transient of Some msg \<Rightarrow> msg | None \<Rightarrow> ''no detail captured'')), [])
      else
        (case attempt_once lib (answer n) of
           Inr response \<Rightarrow> (check response, [Post url body])
         | Inl (Terminal err) \<Rightarrow> (Inl err, [Post url body])
         | Inl (Transient msg) \<Rightarrow>
             (case confirm_loop lib answer check url body backoff max_attempts (n + 1) (Some msg) of
                (r, steps) \<Rightarrow>
                  (r, Post url body # (if n < max_attempts then [Sleep (backoff ! (n - 1))] else []) @ steps))))"
  by pat_completeness auto
termination
  by (relation "measure (\<lambda>(_, _, _, _, _, _, max_attempts, n, _). Suc max_attempts - n)") auto

definition send_with_backoff ::
  "('c, 'k) confirm_lib \<Rightarrow> network \<Rightarrow> string \<Rightarrow> string \<Rightarrow> uuid \<Rightarrow> string \<Rightarrow> string \<Rightarrow> 'k \<Rightarrow> instant \<Rightarrow> duration list
     \<Rightarrow> (confirm_error + confirmed_enrollment) \<times> confirm_step list" where
  "send_with_backoff lib net base ca_chain session token csr keypair now backoff =
     (case build_client lib ca_chain of
        Inl err \<Rightarrow> (Inl err, [])
      | Inr client \<Rightarrow>
          (let url = trim_end_slashes base @ ''/api/v1/enrollment/confirm/'' @ uuid_show lib session;
               body = \<lparr> auth_token = token, csr_pem = csr \<rparr>;
               max_attempts = sat_add u32_max (if length backoff \<le> u32_max then length backoff else u32_max) 1 in
           confirm_loop lib (net client url body) (\<lambda>response. validate_response lib response ca_chain keypair now)
             url body backoff max_attempts 1 None))"

definition send ::
  "('c, 'k) confirm_lib \<Rightarrow> network \<Rightarrow> string \<Rightarrow> string \<Rightarrow> uuid \<Rightarrow> string \<Rightarrow> string \<Rightarrow> 'k \<Rightarrow> instant
     \<Rightarrow> (confirm_error + confirmed_enrollment) \<times> confirm_step list" where
  "send lib net base ca_chain session token csr keypair now =
     send_with_backoff lib net base ca_chain session token csr keypair now transient_backoff"

section \<open>Which answers are tried again\<close>

text \<open>
  Read off the contract: no answer at all, a 200 that cannot be decoded, a server error other than
  502, and every status outside 200, 3xx, 4xx and 5xx.
\<close>

definition retryable :: "('c, 'k) confirm_lib \<Rightarrow> string + http_answer \<Rightarrow> bool" where
  "retryable lib sent \<longleftrightarrow>
     (case sent of
        Inl _ \<Rightarrow> True
      | Inr a \<Rightarrow>
          if ans_status a = 200 then
            (case ans_body a of Inl _ \<Rightarrow> True | Inr t \<Rightarrow> (case response_json lib t of Inl _ \<Rightarrow> True | Inr _ \<Rightarrow> False))
          else ans_status a < 300 \<or> (500 \<le> ans_status a \<and> ans_status a \<noteq> 502))"

lemma attempt_once_transient:
  "(\<exists>msg. attempt_once lib sent = Inl (Transient msg)) \<longleftrightarrow> retryable lib sent"
  by (auto simp: attempt_once_def retryable_def Let_def classify_server_error_def classify_non_terminal_status_def
      is_client_error_def is_server_error_def is_redirection_def split: sum.split)

lemma attempt_once_cases:
  obtains (again) msg where "attempt_once lib sent = Inl (Transient msg)" "retryable lib sent"
  | (stop) err where "attempt_once lib sent = Inl (Terminal err)" "\<not> retryable lib sent"
  | (answered) response where "attempt_once lib sent = Inr response" "\<not> retryable lib sent"
  using attempt_once_transient [of lib sent]
  by (cases "attempt_once lib sent"; cases "projl (attempt_once lib sent)") auto

lemma attempt_once_answered:
  "attempt_once lib sent = Inr response \<Longrightarrow> \<exists>a t. sent = Inr a \<and> ans_status a = 200 \<and> ans_body a = Inr t \<and> response_json lib t = Inr response"
  by (auto simp: attempt_once_def Let_def split: sum.splits if_splits)

text \<open>What the code makes of an answer that ends the loop.\<close>

definition settle ::
  "('c, 'k) confirm_lib \<Rightarrow> (enrollment_response \<Rightarrow> confirm_error + confirmed_enrollment) \<Rightarrow> string + http_answer
     \<Rightarrow> confirm_error + confirmed_enrollment" where
  "settle lib check sent =
     (case attempt_once lib sent of
        Inr response \<Rightarrow> check response
      | Inl (Terminal err) \<Rightarrow> Inl err
      | Inl (Transient msg) \<Rightarrow> Inl (Refused msg))"

definition post_trace :: "string \<Rightarrow> enrollment_request \<Rightarrow> duration list \<Rightarrow> confirm_step list" where
  "post_trace url body sleeps = Post url body # concat (map (\<lambda>d. [Sleep d, Post url body]) sleeps)"

declare confirm_loop.simps [simp del]

lemma confirm_loop_stop:
  assumes "n \<le> max_attempts" "\<not> retryable lib (answer n)"
  shows "confirm_loop lib answer check url body backoff max_attempts n prev = (settle lib check (answer n), [Post url body])"
  by (cases lib "answer n" rule: attempt_once_cases)
    (use assms in \<open>simp_all add: confirm_loop.simps [of _ _ _ _ _ _ _ n] settle_def\<close>)

lemma confirm_loop_settles:
  assumes "Suc (length backoff) = max_attempts" "1 \<le> n" "n \<le> max_attempts"
  shows "\<exists>m \<ge> n. m \<le> max_attempts \<and> (\<forall>k. n \<le> k \<longrightarrow> k < m \<longrightarrow> retryable lib (answer k)) \<and>
    (m < max_attempts \<longrightarrow> \<not> retryable lib (answer m)) \<and>
    snd (confirm_loop lib answer check url body backoff max_attempts n prev)
      = post_trace url body (take (m - n) (drop (n - 1) backoff)) \<and>
    (if retryable lib (answer m)
     then \<exists>msg. fst (confirm_loop lib answer check url body backoff max_attempts n prev) = Inl (TransientExhausted max_attempts url msg)
     else fst (confirm_loop lib answer check url body backoff max_attempts n prev) = settle lib check (answer m))"
  using assms(2,3)
proof (induction "max_attempts - n" arbitrary: n prev)
  case 0
  then have n: "n = max_attempts" by simp
  show ?case
  proof (cases "retryable lib (answer n)")
    case True
    then obtain msg where "attempt_once lib (answer n) = Inl (Transient msg)"
      using attempt_once_transient by blast
    then show ?thesis
      using n True by (intro exI [of _ n]) (simp add: confirm_loop.simps post_trace_def)
  next
    case False
    then show ?thesis
      using n by (intro exI [of _ n]) (simp add: confirm_loop_stop post_trace_def)
  qed
next
  case (Suc d)
  then have lt: "n < max_attempts" by simp
  show ?case
  proof (cases "retryable lib (answer n)")
    case True
    then obtain msg where again: "attempt_once lib (answer n) = Inl (Transient msg)"
      using attempt_once_transient by blast
    have pre: "d = max_attempts - (n + 1)" "1 \<le> n + 1" "n + 1 \<le> max_attempts" using Suc(2) lt by auto
    obtain m where m: "n + 1 \<le> m" "m \<le> max_attempts" "\<forall>k. n + 1 \<le> k \<longrightarrow> k < m \<longrightarrow> retryable lib (answer k)"
      "m < max_attempts \<longrightarrow> \<not> retryable lib (answer m)"
      and tr: "snd (confirm_loop lib answer check url body backoff max_attempts (n + 1) (Some msg))
        = post_trace url body (take (m - (n + 1)) (drop (n + 1 - 1) backoff))"
      and r: "if retryable lib (answer m)
        then \<exists>msg'. fst (confirm_loop lib answer check url body backoff max_attempts (n + 1) (Some msg)) = Inl (TransientExhausted max_attempts url msg')
        else fst (confirm_loop lib answer check url body backoff max_attempts (n + 1) (Some msg)) = settle lib check (answer m)"
      using Suc(1) [OF pre, of "Some msg"] by blast
    let ?rest = "confirm_loop lib answer check url body backoff max_attempts (n + 1) (Some msg)"
    have here: "confirm_loop lib answer check url body backoff max_attempts n prev
        = (fst ?rest, Post url body # Sleep (backoff ! (n - 1)) # snd ?rest)"
      using again lt by (simp add: confirm_loop.simps [of _ _ _ _ _ _ _ n] case_prod_beta)
    have "take (m - n) (drop (n - 1) backoff) = backoff ! (n - 1) # take (m - (n + 1)) (drop (n + 1 - 1) backoff)"
    proof -
      have "drop (n - 1) backoff = backoff ! (n - 1) # drop n backoff"
        using Cons_nth_drop_Suc [of "n - 1" backoff] assms(1) lt Suc(3) by simp
      moreover have "m - n = Suc (m - (n + 1))" using m(1) by simp
      ultimately show ?thesis by simp
    qed
    then have "snd (confirm_loop lib answer check url body backoff max_attempts n prev)
        = post_trace url body (take (m - n) (drop (n - 1) backoff))"
      using here tr by (simp add: post_trace_def)
    moreover have "\<forall>k. n \<le> k \<longrightarrow> k < m \<longrightarrow> retryable lib (answer k)"
      using m(3) True by (metis Suc_eq_plus1 le_neq_implies_less Suc_leI)
    ultimately show ?thesis
      using m(1,2,4) r here by (intro exI [of _ m]) auto
  next
    case False
    then show ?thesis
      using lt by (intro exI [of _ n]) (simp add: confirm_loop_stop post_trace_def)
  qed
qed

section \<open>The session budget\<close>

lemma send_unfold:
  assumes "build_client lib ca_chain = Inr client"
    and "url = trim_end_slashes base @ ''/api/v1/enrollment/confirm/'' @ uuid_show lib session"
    and "body = \<lparr> auth_token = token, csr_pem = csr \<rparr>"
  shows "send lib net base ca_chain session token csr keypair now =
    confirm_loop lib (net client url body) (\<lambda>response. validate_response lib response ca_chain keypair now)
      url body transient_backoff 3 1 None"
proof -
  have three: "sat_add u32_max (if length transient_backoff \<le> u32_max then length transient_backoff else u32_max) 1 = 3"
    by (simp add: transient_backoff_def sat_add_def u32_max_def)
  show ?thesis
    using assms unfolding send_def send_with_backoff_def Let_def three by simp
qed

lemma send_no_client:
  "build_client lib ca_chain = Inl err \<Longrightarrow> send lib net base ca_chain session token csr keypair now = (Inl err, [])"
  by (simp add: send_def send_with_backoff_def)

text \<open>
  C13: The session budget. The exchange posts at most three times, always the same request to the
  same URL, with five and then thirty seconds in between. It stops at the first answer that is not
  worth another try and its result is what that answer means; only when all three were transient
  does it report that the retries are exhausted. Without a usable client nothing is sent.
\<close>

theorem confirm_within_budget:
  "let url = trim_end_slashes base @ ''/api/v1/enrollment/confirm/'' @ uuid_show lib session;
       body = \<lparr> auth_token = token, csr_pem = csr \<rparr> in
    case (build_client lib ca_chain, send lib net base ca_chain session token csr keypair now) of
      (Inl err, (r, steps)) \<Rightarrow> r = Inl err \<and> steps = []
    | (Inr client, (r, steps)) \<Rightarrow>
        \<exists>m. 1 \<le> m \<and> m \<le> 3 \<and>
          steps = post_trace url body (take (m - 1) [5000000000, 30000000000]) \<and>
          length (filter (\<lambda>s. s = Post url body) steps) = m \<and>
          (\<forall>k. 1 \<le> k \<and> k < m \<longrightarrow> retryable lib (net client url body k)) \<and>
          (if retryable lib (net client url body m)
           then m = 3 \<and> (\<exists>msg. r = Inl (TransientExhausted 3 url msg))
           else r = settle lib (\<lambda>response. validate_response lib response ca_chain keypair now) (net client url body m))"
proof (cases "build_client lib ca_chain")
  case (Inl err)
  then show ?thesis by (simp add: send_no_client Let_def)
next
  case (Inr client)
  define url where "url = trim_end_slashes base @ ''/api/v1/enrollment/confirm/'' @ uuid_show lib session"
  define body where "body = \<lparr> auth_token = token, csr_pem = csr \<rparr>"
  let ?send = "send lib net base ca_chain session token csr keypair now"
  have loop: "?send = confirm_loop lib (net client url body) (\<lambda>response. validate_response lib response ca_chain keypair now)
      url body transient_backoff 3 1 None"
    using send_unfold [OF Inr] by (simp add: url_def body_def)
  have tb: "transient_backoff = [5000000000, 30000000000]" by (simp add: transient_backoff_def ns_per_sec_def)
  obtain m where m: "1 \<le> m" "m \<le> 3" "\<forall>k. 1 \<le> k \<longrightarrow> k < m \<longrightarrow> retryable lib (net client url body k)"
    "m < 3 \<longrightarrow> \<not> retryable lib (net client url body m)"
    and steps: "snd ?send = post_trace url body (take (m - 1) [5000000000, 30000000000])"
    and r: "if retryable lib (net client url body m) then \<exists>msg. fst ?send = Inl (TransientExhausted 3 url msg)
      else fst ?send = settle lib (\<lambda>response. validate_response lib response ca_chain keypair now) (net client url body m)"
    using confirm_loop_settles [of transient_backoff 3 1 lib "net client url body"
        "\<lambda>response. validate_response lib response ca_chain keypair now" url body None]
    unfolding loop tb by auto
  have posts: "length (filter (\<lambda>s. s = Post url body) (post_trace url body ds)) = Suc (length ds)" for ds
    by (induction ds) (auto simp: post_trace_def)
  show ?thesis
    unfolding url_def [symmetric] body_def [symmetric] Let_def
    using Inr m steps r posts [of "take (m - 1) [5000000000, 30000000000]"]
    by (cases ?send) (auto intro!: exI [of _ m] split: if_splits)
qed

section \<open>What a confirmed enrollment guarantees\<close>

lemma collect_ders_iff: "collect_ders items = Inr ders \<longleftrightarrow> items = map Inr ders"
proof -
  have "collect_ders (map Inr ders) = Inr ders" for ders by (induction ders) simp_all
  moreover have "items = map Inr ders" if "collect_ders items = Inr ders"
    using that by (induction items arbitrary: ders rule: collect_ders.induct) (auto split: sum.splits)
  ultimately show ?thesis by blast
qed

lemma verify_loop_iff:
  "verify_loop lib leaf ders prev = Inr () \<longleftrightarrow>
     (\<exists>der \<in> set ders. \<exists>ca. der_cert lib der = Inr ca \<and> usable_ca lib ca \<and> verify_signature lib leaf ca = None)"
  by (induction ders arbitrary: prev) (auto split: sum.split option.split)

text \<open>
  A certificate the station may use: it is for the station's key, its validity contains the present,
  and one of the pinned certificates is a certificate authority that signed it.
\<close>

definition trusted_leaf :: "('c, 'k) confirm_lib \<Rightarrow> string list \<Rightarrow> 'k \<Rightarrow> instant \<Rightarrow> string \<Rightarrow> bool" where
  "trusted_leaf lib pinned keypair now cert_pem \<longleftrightarrow>
     (\<exists>der leaf not_before not_after.
        pem_der lib cert_pem = Inr der \<and> der_cert lib der = Inr leaf \<and>
        cert_spki lib leaf = public_key_der lib keypair \<and>
        utc_of_timestamp lib (not_before_ts lib leaf) = Some not_before \<and>
        utc_of_timestamp lib (not_after_ts lib leaf) = Some not_after \<and> not_before \<le> now \<and> now \<le> not_after \<and>
        (\<exists>ca_der \<in> set pinned. \<exists>ca. der_cert lib ca_der = Inr ca \<and> is_ca lib ca \<and>
           key_usage lib ca = Inr (Some True) \<and> verify_signature lib leaf ca = None))"

lemma usable_ca_iff: "usable_ca lib ca \<longleftrightarrow> is_ca lib ca \<and> key_usage lib ca = Inr (Some True)"
  by (auto simp: usable_ca_def split: sum.split option.split)

lemma validate_iff:
  "validate_cert_against_key lib cert keypair = Inr () \<and> validate_chain lib cert ca_chain response_chain now = Inr () \<longleftrightarrow>
     (\<exists>pinned given. pem_certs lib ca_chain = map Inr pinned \<and> pem_certs lib response_chain = map Inr given \<and>
        set given \<subseteq> set pinned \<and> trusted_leaf lib pinned keypair now cert)"
proof -
  have chain: "validate_chain lib cert ca_chain response_chain now = Inr () \<longleftrightarrow>
     (\<exists>pinned given der leaf not_before not_after. parse_cert_ders lib ca_chain = Inr pinned \<and> parse_cert_ders lib response_chain = Inr given \<and>
        pinned \<noteq> [] \<and> set given \<subseteq> set pinned \<and> pem_der lib cert = Inr der \<and> der_cert lib der = Inr leaf \<and>
        utc_of_timestamp lib (not_before_ts lib leaf) = Some not_before \<and>
        utc_of_timestamp lib (not_after_ts lib leaf) = Some not_after \<and> not_before \<le> now \<and> now \<le> not_after \<and>
        verify_loop lib leaf pinned None = Inr ())"
    by (auto simp: validate_chain_def list_all_iff list_ex_iff subset_iff split: sum.splits option.splits if_splits)
  have key: "validate_cert_against_key lib cert keypair = Inr () \<longleftrightarrow>
     (\<exists>der leaf. pem_der lib cert = Inr der \<and> der_cert lib der = Inr leaf \<and> cert_spki lib leaf = public_key_der lib keypair)"
    by (auto simp: validate_cert_against_key_def split: sum.splits if_splits)
  show ?thesis
    unfolding chain key trusted_leaf_def parse_cert_ders_def collect_ders_iff verify_loop_iff usable_ca_iff
    by (auto 4 4)
qed

lemma validate_response_iff:
  "validate_response lib response ca_chain keypair now = Inr c \<longleftrightarrow>
     er_success response \<and> er_certificate_pem response = Some (ce_certificate_pem c) \<and>
     er_ca_chain_pem response = Some (ce_ca_chain_pem c) \<and> er_station_id response = Some (ce_station_id c) \<and>
     (\<exists>pinned given. pem_certs lib ca_chain = map Inr pinned \<and> pem_certs lib (ce_ca_chain_pem c) = map Inr given \<and>
        set given \<subseteq> set pinned \<and> trusted_leaf lib pinned keypair now (ce_certificate_pem c))"
  unfolding validate_iff [symmetric]
  by (cases c) (auto simp: validate_response_def split: sum.splits option.splits)

lemma add_roots_iff:
  "add_roots lib b items = Inr b' \<longleftrightarrow>
     (\<exists>ders. items = map Inr ders \<and> list_all (\<lambda>d. root_of_der lib d = None) ders \<and>
        b' = b\<lparr>extra_roots := extra_roots b @ ders\<rparr>)"
proof (induction lib b items rule: add_roots.induct)
  case (3 lib b der rest)
  show ?case
    using 3 by (auto simp: Cons_eq_map_conv split: option.split)
qed auto

lemma build_client_hardened:
  assumes "build_client lib ca_chain = Inr client" "pem_certs lib ca_chain = map Inr pinned"
  shows "client_base client = hardened_builder\<lparr>extra_roots := pinned\<rparr>"
proof -
  have "add_roots lib hardened_builder (map Inr pinned) = Inr (client_base client)"
    using assms by (auto simp: build_client_def rustls_builder_for_upload_def Let_def split: if_splits sum.splits option.splits)
  then show ?thesis
    by (auto simp: add_roots_iff hardened_builder_def dest: map_injective)
qed

lemma send_confirms:
  assumes "send lib net base ca_chain session token csr keypair now = (Inr c, steps)"
  shows "\<exists>client k a t response pinned given.
    build_client lib ca_chain = Inr client \<and>
    https_only (client_base client) \<and> min_tls_1_2 (client_base client) \<and> \<not> follow_redirects (client_base client) \<and>
    extra_roots (client_base client) = pinned \<and>
    1 \<le> k \<and> k \<le> 3 \<and>
    net client (trim_end_slashes base @ ''/api/v1/enrollment/confirm/'' @ uuid_show lib session)
      \<lparr> auth_token = token, csr_pem = csr \<rparr> k = Inr a \<and>
    ans_status a = 200 \<and> ans_body a = Inr t \<and> response_json lib t = Inr response \<and> er_success response \<and>
    er_station_id response = Some (ce_station_id c) \<and> er_certificate_pem response = Some (ce_certificate_pem c) \<and>
    er_ca_chain_pem response = Some (ce_ca_chain_pem c) \<and>
    pem_certs lib ca_chain = map Inr pinned \<and> pem_certs lib (ce_ca_chain_pem c) = map Inr given \<and>
    set given \<subseteq> set pinned \<and> trusted_leaf lib pinned keypair now (ce_certificate_pem c)"
proof -
  obtain client where client: "build_client lib ca_chain = Inr client"
    using assms by (cases "build_client lib ca_chain") (auto simp: send_no_client)
  define url where "url = trim_end_slashes base @ ''/api/v1/enrollment/confirm/'' @ uuid_show lib session"
  define body where "body = \<lparr> auth_token = token, csr_pem = csr \<rparr>"
  let ?check = "\<lambda>response. validate_response lib response ca_chain keypair now"
  have run: "confirm_loop lib (net client url body) ?check url body transient_backoff 3 1 None = (Inr c, steps)"
    using assms send_unfold [OF client] by (simp add: url_def body_def)
  have three: "Suc (length transient_backoff) = 3" by (simp add: transient_backoff_def)
  obtain k where k: "1 \<le> k" "k \<le> 3"
    and r: "if retryable lib (net client url body k) then \<exists>msg. (Inr c :: confirm_error + _) = Inl (TransientExhausted 3 url msg)
      else Inr c = settle lib ?check (net client url body k)"
    using confirm_loop_settles [OF three, where n = 1 and lib = lib and answer = "net client url body" and check = ?check
        and url = url and body = body and prev = None] unfolding run fst_conv by auto
  then have "settle lib ?check (net client url body k) = Inr c" by (simp split: if_splits)
  then obtain response where once: "attempt_once lib (net client url body k) = Inr response" and "?check response = Inr c"
    by (auto simp: settle_def split: sum.splits attempt_error.splits)
  then obtain pinned given where v: "er_success response" "er_certificate_pem response = Some (ce_certificate_pem c)"
    "er_ca_chain_pem response = Some (ce_ca_chain_pem c)" "er_station_id response = Some (ce_station_id c)"
    "pem_certs lib ca_chain = map Inr pinned" "pem_certs lib (ce_ca_chain_pem c) = map Inr given"
    "set given \<subseteq> set pinned" "trusted_leaf lib pinned keypair now (ce_certificate_pem c)"
    unfolding validate_response_iff by blast
  have "client_base client = hardened_builder\<lparr>extra_roots := pinned\<rparr>"
    using build_client_hardened [OF client v(5)] .
  then show ?thesis
    using client k v attempt_once_answered [OF once] unfolding url_def body_def hardened_builder_def by fastforce
qed

text \<open>
  C11: What a confirmed enrollment guarantees. The certificate came in a decoded 200 answer to one of the
  three requests, sent by a client that insists on TLS, follows no redirect and trusts the pinned
  certificates besides the public roots. It is for the station's own key, its validity contains the present, and a
  pinned certificate that may sign certificates signed it; the chain that will be stored holds pinned
  certificates only.
\<close>

theorem confirmed_is_trusted:
  assumes "send lib net base ca_chain session token csr keypair now = (Inr c, steps)"
  shows "\<exists>client k a t response pinned given.
    build_client lib ca_chain = Inr client \<and>
    https_only (client_base client) \<and> min_tls_1_2 (client_base client) \<and> \<not> follow_redirects (client_base client) \<and>
    extra_roots (client_base client) = pinned \<and>
    1 \<le> k \<and> k \<le> 3 \<and>
    net client (trim_end_slashes base @ ''/api/v1/enrollment/confirm/'' @ uuid_show lib session)
      \<lparr> auth_token = token, csr_pem = csr \<rparr> k = Inr a \<and>
    ans_status a = 200 \<and> ans_body a = Inr t \<and> response_json lib t = Inr response \<and> er_success response \<and>
    er_station_id response = Some (ce_station_id c) \<and> er_certificate_pem response = Some (ce_certificate_pem c) \<and>
    er_ca_chain_pem response = Some (ce_ca_chain_pem c) \<and>
    pem_certs lib ca_chain = map Inr pinned \<and> pem_certs lib (ce_ca_chain_pem c) = map Inr given \<and>
    set given \<subseteq> set pinned \<and> trusted_leaf lib pinned keypair now (ce_certificate_pem c)"
  by (rule send_confirms [OF assms])

section \<open>A concrete exchange\<close>

text \<open>Certificates are their own encoding; the first request is lost, the second is answered.\<close>

definition ex_confirm_lib :: "string \<Rightarrow> (string, string) confirm_lib" where
  "ex_confirm_lib chain = \<lparr> pem_certs = (\<lambda>s. if s = [] then [] else [Inr s]), root_of_der = (\<lambda>_. None), build_builder = (\<lambda>_. None),
     pem_der = Inr, der_cert = Inr, cert_spki = (\<lambda>_. ''key''), not_before_ts = (\<lambda>_. 0), not_after_ts = (\<lambda>_. 10),
     is_ca = (\<lambda>c. c = ''ca''), key_usage = (\<lambda>_. Inr (Some True)), verify_signature = (\<lambda>_ _. None),
     utc_of_timestamp = (\<lambda>t. Some (t * ns_per_sec)), public_key_der = (\<lambda>k. k),
     response_json = (\<lambda>_. Inr \<lparr> er_success = True, er_reason = [], er_certificate_pem = Some ''leaf'',
        er_ca_chain_pem = Some chain, er_station_id = Some 7 \<rparr>),
     detail_json = (\<lambda>_. None), status_show = (\<lambda>_. []), uuid_show = (\<lambda>_. ''id'') \<rparr>"

definition ex_network :: network where
  "ex_network client url body n = (if n = 1 then Inl ''reset'' else Inr \<lparr> ans_status = 200, ans_location = None, ans_body = Inr ''{}'' \<rparr>)"

lemmas ex_confirm = ex_confirm_lib_def ex_network_def retryable_def build_client_def rustls_builder_for_upload_def
  trim_spaces_def is_space_def Let_def

lemma ex_send:
  assumes "chain = ''ca'' \<or> chain = []" "0 \<le> now" "now \<le> 10000000000"
  shows "send (ex_confirm_lib chain) ex_network ''https://p/'' ''ca'' 3 ''tok'' ''csr'' ''key'' now =
    (Inr \<lparr> ce_station_id = 7, ce_certificate_pem = ''leaf'', ce_ca_chain_pem = chain \<rparr>,
     post_trace ''https://p/api/v1/enrollment/confirm/id'' \<lparr> auth_token = ''tok'', csr_pem = ''csr'' \<rparr> [5000000000])"
  using assms
  by (auto simp: send_def send_with_backoff_def confirm_loop.simps attempt_once_def post_trace_def transient_backoff_def
      sat_add_def u32_max_def validate_response_def validate_cert_against_key_def validate_chain_def parse_cert_ders_def
      usable_ca_def trim_end_slashes_def ex_confirm ns_per_sec_def)

theorem confirm_within_budget_witness:
  "length (filter (\<lambda>s. s = Post ''https://p/api/v1/enrollment/confirm/id'' \<lparr> auth_token = ''tok'', csr_pem = ''csr'' \<rparr>)
     (snd (send (ex_confirm_lib ''ca'') ex_network ''https://p/'' ''ca'' 3 ''tok'' ''csr'' ''key'' 5))) \<le> 3"
proof -
  let ?lib = "ex_confirm_lib ''ca''"
  obtain client where client: "build_client ?lib ''ca'' = Inr client"
    by (simp add: ex_confirm)
  have url: "trim_end_slashes ''https://p/'' @ ''/api/v1/enrollment/confirm/'' @ uuid_show ?lib 3 = ''https://p/api/v1/enrollment/confirm/id''"
    by (simp add: trim_end_slashes_def ex_confirm_lib_def)
  show ?thesis
    using confirm_within_budget [where base = "''https://p/''" and lib = ?lib and session = 3 and token = "''tok''" and csr = "''csr''"
        and ca_chain = "''ca''" and net = ex_network and keypair = "''key''" and now = 5] client
    unfolding url Let_def
    by (cases "send ?lib ex_network ''https://p/'' ''ca'' 3 ''tok'' ''csr'' ''key'' 5") (simp; blast)
qed

theorem confirmed_is_trusted_witness:
  "\<exists>pinned. pem_certs (ex_confirm_lib ''ca'') ''ca'' = map Inr pinned \<and> trusted_leaf (ex_confirm_lib ''ca'') pinned ''key'' 5 ''leaf''"
  using confirmed_is_trusted [OF ex_send [of "''ca''" 5]] by auto

text \<open>
  Two answers that pass, at the edge of the checks: a chain without any certificate, and a certificate
  in the last instant of its validity.
\<close>

lemma empty_chain_confirmed:
  "fst (send (ex_confirm_lib []) ex_network ''https://p/'' ''ca'' 3 ''tok'' ''csr'' ''key'' 10000000000) =
     Inr \<lparr> ce_station_id = 7, ce_certificate_pem = ''leaf'', ce_ca_chain_pem = [] \<rparr>"
  using ex_send [of "[]" 10000000000] by simp

end
