(* ===== verification/Redaction.thy ===== *)
theory Redaction
  imports Client "HOL-Library.Sublist"
begin

text \<open>
  The redaction layer of the log, \<^verbatim>\<open>crates/perchstation-core/src/observability/tracing.rs\<close>: the
  process-wide registry of secrets and the writer that scrubs every formatted line before it goes
  to standard error. Lines are strings; \<open>lossy\<close> stands for \<^verbatim>\<open>String::from_utf8_lossy\<close> and may be
  any function. The counter that mirrors the length of the registry is a field of its own, as in
  the code.
\<close>

section \<open>The registry\<close>

record registry =
  secrets :: "string list"
  secret_count :: nat

definition new_registry :: registry where
  "new_registry = \<lparr> secrets = [], secret_count = 0 \<rparr>"

definition register_secret :: "string \<Rightarrow> registry \<Rightarrow> registry" where
  "register_secret secret reg =
     (if secret = [] then reg
      else if list_ex (\<lambda>existing. existing = secret) (secrets reg) then reg
      else reg\<lparr>secrets := secrets reg @ [secret], secret_count := secret_count reg + 1\<rparr>)"

definition contains_any :: "registry \<Rightarrow> string \<Rightarrow> bool" where
  "contains_any reg line \<longleftrightarrow> list_ex (\<lambda>secret. sublist secret line) (secrets reg)"

definition registry_is_empty :: "registry \<Rightarrow> bool" where
  "registry_is_empty reg \<longleftrightarrow> secret_count reg = 0"

section \<open>The writer\<close>

definition redacted_placeholder :: string where
  "redacted_placeholder = ''[REDACTED]''"

text \<open>
  \<^verbatim>\<open>str::replace\<close> with a non-empty pattern: the matches are found from left to right and do not
  overlap.
\<close>

function replace_all :: "string \<Rightarrow> string \<Rightarrow> string \<Rightarrow> string" where
  "replace_all pat new [] = []"
| "replace_all pat new (c # cs) =
     (if pat \<noteq> [] \<and> prefix pat (c # cs) then new @ replace_all pat new (drop (length pat - 1) cs)
      else c # replace_all pat new cs)"
  by pat_completeness auto
termination
  by (relation "measure (\<lambda>(_, _, cs). length cs)") auto

fun scrub :: "string \<Rightarrow> string list \<Rightarrow> string" where
  "scrub out [] = out"
| "scrub out (secret # rest) =
     scrub (if secret \<noteq> [] \<and> sublist secret out then replace_all secret redacted_placeholder out else out) rest"

definition redacting_write :: "(string \<Rightarrow> string) \<Rightarrow> registry \<Rightarrow> string \<Rightarrow> string" where
  "redacting_write lossy reg buf =
     (if registry_is_empty reg then buf else scrub (lossy buf) (secrets reg))"

section \<open>What registering does\<close>

definition registry_ok :: "registry \<Rightarrow> bool" where
  "registry_ok reg \<longleftrightarrow> secret_count reg = length (secrets reg) \<and> distinct (secrets reg) \<and> [] \<notin> set (secrets reg)"

lemma registry_ok_new [simp]: "registry_ok new_registry"
  by (simp add: registry_ok_def new_registry_def)

lemma registry_ok_register [simp]: "registry_ok reg \<Longrightarrow> registry_ok (register_secret s reg)"
  by (auto simp: registry_ok_def register_secret_def list_ex_iff)

lemma secrets_register [simp]: "set (secrets (register_secret s reg)) = set (secrets reg) \<union> ({s} - {[]})"
  by (auto simp: register_secret_def list_ex_iff)

lemma registry_ok_fold: "registry_ok reg \<Longrightarrow> registry_ok (fold register_secret ss reg)"
  by (induction ss arbitrary: reg) simp_all

lemma secrets_fold: "set (secrets (fold register_secret ss reg)) = set (secrets reg) \<union> (set ss - {[]})"
  by (induction ss arbitrary: reg) auto

lemma registry_is_empty_iff: "registry_ok reg \<Longrightarrow> registry_is_empty reg \<longleftrightarrow> secrets reg = []"
  by (simp add: registry_is_empty_def registry_ok_def)

section \<open>What scrubbing hides\<close>

text \<open>
  A secret is plain when it has no bracket and is not a piece of the word between the brackets of
  the placeholder. Base64 text of more than eight characters is plain.
\<close>

definition plain_secret :: "string \<Rightarrow> bool" where
  "plain_secret s \<longleftrightarrow> CHR ''['' \<notin> set s \<and> CHR '']'' \<notin> set s \<and> \<not> sublist s ''REDACTED''"

lemma plain_nonempty: "plain_secret s \<Longrightarrow> s \<noteq> []"
  by (auto simp: plain_secret_def)

lemma placeholder_split: "redacted_placeholder = CHR ''['' # (''REDACTED'' @ [CHR '']''])"
  by (simp add: redacted_placeholder_def)

lemma prefix_replace_all:
  assumes "new = CHR ''['' # rest"
  shows "CHR ''['' \<notin> set s \<Longrightarrow> prefix s (replace_all pat new t) \<Longrightarrow> prefix s t"
  using assms
proof (induction pat new t arbitrary: s rule: replace_all.induct)
  case (2 pat new c cs)
  show ?case
  proof (cases s)
    case (Cons a s')
    have hit: "\<not> (pat \<noteq> [] \<and> prefix pat (c # cs))"
      using 2(3-5) Cons by auto
    then have "prefix s (c # replace_all pat new cs)" using 2(4) by auto
    then show ?thesis
      using 2(2) [OF hit, of s'] 2(3,5) Cons by auto
  qed simp
qed simp

lemma sublist_placeholder_append:
  assumes "plain_secret s" "sublist s (redacted_placeholder @ r)"
  shows "sublist s r"
proof -
  have no: "x \<notin> set s" if "x = CHR ''['' \<or> x = CHR '']''" for x
    using assms(1) that by (auto simp: plain_secret_def)
  have "\<not> sublist s redacted_placeholder"
  proof
    assume "sublist s redacted_placeholder"
    moreover have "\<not> prefix s redacted_placeholder"
      using no plain_nonempty [OF assms(1)] by (cases s) (auto simp: placeholder_split)
    ultimately have "sublist s (''REDACTED'' @ [CHR '']''])"
      unfolding placeholder_split sublist_Cons_right by blast
    moreover have "s2 = []" if "s = s1 @ s2" "prefix s2 [CHR '']'']" for s1 s2
      using that no by (cases s2) auto
    moreover have "\<not> sublist s [CHR '']'']"
      using no plain_nonempty [OF assms(1)] by (cases s) (auto simp: sublist_Cons_right)
    moreover have "\<not> sublist s ''REDACTED''" using assms(1) unfolding plain_secret_def by blast
    ultimately show False
      unfolding sublist_append by (metis append_Nil2 suffix_imp_sublist)
  qed
  moreover have "\<not> suffix s1 redacted_placeholder" if "s = s1 @ s2" "s1 \<noteq> []" for s1 s2
  proof
    assume "suffix s1 redacted_placeholder"
    then have "last s1 = last redacted_placeholder" using that(2) unfolding suffix_def by (metis last_appendR)
    then have "last s1 = CHR '']''" by (simp add: redacted_placeholder_def)
    then show False using no that by (metis Un_iff last_in_set set_append)
  qed
  ultimately show ?thesis
    using assms(2) unfolding sublist_append by (metis append_Nil prefix_imp_sublist)
qed

lemma sublist_replace_all:
  assumes "plain_secret s" and new: "new = redacted_placeholder"
  shows "sublist s (replace_all pat new t) \<Longrightarrow> sublist s t \<and> s \<noteq> pat"
  using new
proof (induction pat new t rule: replace_all.induct)
  case (1 pat new)
  then show ?case using plain_nonempty [OF assms(1)] by simp
next
  case (2 pat new c cs)
  show ?case
  proof (cases "pat \<noteq> [] \<and> prefix pat (c # cs)")
    case True
    then have "sublist s (replace_all pat new (drop (length pat - 1) cs))"
      using 2(3) sublist_placeholder_append [OF assms(1)] 2(4) by simp
    then have "sublist s (drop (length pat - 1) cs)" "s \<noteq> pat" using 2(1,4) True by auto
    then show ?thesis by (meson sublist_Cons_right sublist_drop sublist_order.order_trans)
  next
    case False
    then have "sublist s (c # replace_all pat new cs)" using 2(3) by auto
    then consider (here) "prefix s (c # replace_all pat new cs)" | (later) "sublist s (replace_all pat new cs)"
      by (auto simp: sublist_Cons_right)
    then show ?thesis
    proof cases
      case here
      then have "prefix s (replace_all pat new (c # cs))" using False by auto
      then have "prefix s (c # cs)"
        using prefix_replace_all [of new] 2(4) placeholder_split assms(1) unfolding plain_secret_def by blast
      then show ?thesis using False plain_nonempty [OF assms(1)] by (auto simp: sublist_Cons_right)
    next
      case later
      then show ?thesis using 2(2) [OF False] 2(4) by (auto simp: sublist_Cons_right)
    qed
  qed
qed

lemma scrub_keeps_out: "plain_secret s \<Longrightarrow> \<not> sublist s out \<Longrightarrow> \<not> sublist s (scrub out ss)"
  by (induction ss arbitrary: out) (auto dest: sublist_replace_all)

lemma scrub_hides: "plain_secret s \<Longrightarrow> s \<in> set ss \<Longrightarrow> \<not> sublist s (scrub out ss)"
proof (induction ss arbitrary: out)
  case (Cons a ss)
  show ?case
  proof (cases "a = s")
    case True
    let ?o = "if a \<noteq> [] \<and> sublist a out then replace_all a redacted_placeholder out else out"
    have "\<not> sublist s ?o" using True Cons.prems(1) plain_nonempty by (auto dest: sublist_replace_all)
    then show ?thesis using scrub_keeps_out [OF Cons.prems(1)] by simp
  next
    case False
    then show ?thesis using Cons by simp
  qed
qed simp

lemma scrub_clean: "\<forall>s \<in> set ss. s = [] \<or> \<not> sublist s out \<Longrightarrow> scrub out ss = out"
  by (induction ss) auto

text \<open>
  C15: The log hides what was registered. After any sequence of registrations a line that is written,
  whatever it contained, contains no registered plain secret; a line in which no registered secret
  occurs is written unchanged.
\<close>

theorem log_hides_secrets:
  "(plain_secret s \<and> s \<in> set registered \<longrightarrow>
      \<not> sublist s (redacting_write lossy (fold register_secret registered new_registry) line)) \<and>
   (lossy line = line \<and> \<not> contains_any (fold register_secret registered new_registry) line \<longrightarrow>
      redacting_write lossy (fold register_secret registered new_registry) line = line)"
proof -
  let ?reg = "fold register_secret registered new_registry"
  have set: "set (secrets ?reg) = set registered - {[]}"
    by (simp add: secrets_fold new_registry_def)
  have empty: "registry_is_empty ?reg \<longleftrightarrow> secrets ?reg = []"
    by (simp add: registry_is_empty_iff registry_ok_fold)
  show ?thesis
  proof (intro conjI impI)
    assume s: "plain_secret s \<and> s \<in> set registered"
    then have "s \<in> set (secrets ?reg)" using set plain_nonempty by blast
    then show "\<not> sublist s (redacting_write lossy ?reg line)"
      using s empty scrub_hides by (auto simp: redacting_write_def)
  next
    assume "lossy line = line \<and> \<not> contains_any ?reg line"
    then show "redacting_write lossy ?reg line = line"
      using scrub_clean [of "secrets ?reg" line] by (auto simp: redacting_write_def contains_any_def list_ex_iff)
  qed
qed

theorem log_hides_secrets_witness:
  "\<not> sublist ''tok-1'' (redacting_write id (fold register_secret [''k'', ''tok-1''] new_registry) ''bad tok-1 token'')"
proof -
  have "plain_secret ''tok-1''" by (simp add: plain_secret_def sublist_Cons_right)
  then show ?thesis using log_hides_secrets [of "''tok-1''" "[''k'', ''tok-1'']" id "''bad tok-1 token''"] by simp
qed

text \<open>
  The bound matters: a secret that begins like the end of the placeholder can be put together by
  the replacement itself.
\<close>

lemma bracketed_secret_leaks:
  "sublist ''D]a'' (redacting_write id (register_secret ''D]a'' new_registry) ''D]aa'')"
  by (simp add: redacting_write_def registry_is_empty_def register_secret_def new_registry_def
      redacted_placeholder_def sublist_Cons_right)

end
