(* ===== verification/Enrollment.thy ===== *)
theory Enrollment
  imports Identity Confirm Redaction
begin

text \<open>
  The \<^verbatim>\<open>enroll\<close> command from the QR frame to the saved credentials:
  \<^verbatim>\<open>crates/perchstation-core/src/enrollment/{mod,csr,file_source}.rs\<close> and
  \<^verbatim>\<open>crates/perchstation/src/commands/{mod,enroll}.rs\<close>.

  The QR detector, the image decoder, the JSON decoder of the payload, \<^verbatim>\<open>rcgen\<close> and \<^verbatim>\<open>ring\<close> are
  fields of \<open>enroll_lib\<close>; a generated key pair, the camera's frame and the readings of the clock are
  inputs. The redaction registry is threaded through explicitly: the command returns it with its
  result and with every error. Error texts for the operator are left out, the event codes with
  their kinds are kept.
\<close>

section \<open>Data\<close>

record 'p gray_image =
  img_width :: u32
  img_height :: u32
  img_pixels :: 'p

record qr_payload =
  qp_session_id :: string
  qp_auth_token :: string
  qp_ca_chain_pem :: string
  qp_expires_at :: "string option"

record enrollment_session_material =
  esm_session_id :: uuid
  esm_auth_token :: string
  esm_ca_chain_pem :: string
  esm_decoded_at :: instant

datatype qr_decode_error =
    NoCode
  | NotUtf8 string
  | NotJson string
  | QrMissingField string
  | BadField string string
  | FrameTooLarge u32 u32 u32

datatype csr_error = Keygen string | CsrBuild string | CsrSerialise string

record 'k enrollment_csr =
  keypair :: 'k
  ecsr_pem :: string

record csr_params =
  subject_alt_names :: "string list"
  common_name :: string

datatype qr_frame_error = Unavailable string | FrameIo io_error | FrameDecode string

text \<open>
  \<open>qr_grids\<close> lists the codes found in a frame, each with the outcome of decoding it. \<open>key_pem\<close> is
  \<^verbatim>\<open>KeyPair::serialize_pem\<close>; \<open>csr_params_new\<close> and \<open>csr_dns_name\<close> return the message of a failure.
\<close>

record ('c, 'k, 'p) enroll_lib = "('c, 'k) confirm_lib" +
  qr_grids :: "'p gray_image \<Rightarrow> (string + string) list"
  qr_json :: "string \<Rightarrow> string + qr_payload"
  uuid_parse :: "string \<Rightarrow> string + uuid"
  image_decode :: "u32 \<Rightarrow> string \<Rightarrow> string + 'p gray_image"
  sha256 :: "string \<Rightarrow> nat list"
  key_pem :: "'k \<Rightarrow> string"
  csr_params_new :: "string list \<Rightarrow> string option"
  csr_dns_name :: "string \<Rightarrow> string option"
  serialize_request :: "csr_params \<Rightarrow> 'k \<Rightarrow> string + string"
  request_pem :: "string \<Rightarrow> string + string"

section \<open>The QR payload\<close>

definition max_qr_image_dim :: u32 where
  "max_qr_image_dim = 8192"

definition decode_enrollment_session ::
  "('c, 'k, 'p) enroll_lib \<Rightarrow> instant \<Rightarrow> 'p gray_image \<Rightarrow> registry
     \<Rightarrow> (qr_decode_error + enrollment_session_material) \<times> registry" where
  "decode_enrollment_session lib now img reg =
     (if max_qr_image_dim < img_width img \<or> max_qr_image_dim < img_height img
      then (Inl (FrameTooLarge (img_width img) (img_height img) max_qr_image_dim), reg)
      else
        (case qr_grids lib img of
           [] \<Rightarrow> (Inl NoCode, reg)
         | Inl err # _ \<Rightarrow> (Inl (NotUtf8 err), reg)
         | Inr text # _ \<Rightarrow>
             (case qr_json lib text of
                Inl err \<Rightarrow> (Inl (NotJson err), reg)
              | Inr payload \<Rightarrow>
                  if qp_auth_token payload = [] then (Inl (QrMissingField ''auth_token''), reg)
                  else if qp_ca_chain_pem payload = [] then (Inl (QrMissingField ''ca_chain_pem''), reg)
                  else
                    (case uuid_parse lib (qp_session_id payload) of
                       Inl err \<Rightarrow> (Inl (BadField ''session_id'' err), reg)
                     | Inr session \<Rightarrow>
                         (Inr \<lparr> esm_session_id = session, esm_auth_token = qp_auth_token payload,
                            esm_ca_chain_pem = qp_ca_chain_pem payload, esm_decoded_at = now \<rparr>,
                          register_secret (qp_auth_token payload) reg)))))"

section \<open>The certificate request\<close>

definition hex_digit :: "nat \<Rightarrow> char" where
  "hex_digit n = ''0123456789abcdef'' ! n"

definition hex_byte :: "nat \<Rightarrow> string" where
  "hex_byte b = [hex_digit (b div 16), hex_digit (b mod 16)]"

definition csr_station_identity :: "('c, 'k, 'p) enroll_lib \<Rightarrow> 'k \<Rightarrow> string" where
  "csr_station_identity lib kp = ''station-'' @ concat (map hex_byte (take 8 (sha256 lib (public_key_der lib kp))))"

definition pem_body_lines :: "string \<Rightarrow> string list" where
  "pem_body_lines pem =
     filter (\<lambda>l. l \<noteq> []) (map trim_spaces (filter (\<lambda>l. \<not> starts_with ''-----'' l) (str_lines pem)))"

definition build_from_keypair ::
  "('c, 'k, 'p) enroll_lib \<Rightarrow> 'k \<Rightarrow> registry \<Rightarrow> (csr_error + 'k enrollment_csr) \<times> registry" where
  "build_from_keypair lib kp reg =
     (let identity = csr_station_identity lib kp in
      case csr_params_new lib [identity] of
        Some err \<Rightarrow> (Inl (CsrBuild err), reg)
      | None \<Rightarrow>
     (case csr_dns_name lib identity of
        Some err \<Rightarrow> (Inl (CsrBuild (''identity is not a valid dNSName: '' @ err)), reg)
      | None \<Rightarrow>
     (case serialize_request lib \<lparr> subject_alt_names = [identity], common_name = identity \<rparr> kp of
        Inl err \<Rightarrow> (Inl (CsrBuild err), reg)
      | Inr csr \<Rightarrow>
     (case request_pem lib csr of
        Inl err \<Rightarrow> (Inl (CsrSerialise err), reg)
      | Inr pem \<Rightarrow>
          (Inr \<lparr> keypair = kp, ecsr_pem = pem \<rparr>,
           fold register_secret (pem_body_lines (key_pem lib kp)) (fold register_secret (pem_body_lines pem) reg))))))"

text \<open>\<open>fresh\<close> is what \<^verbatim>\<open>KeyPair::generate_for\<close> returns.\<close>

definition generate_csr ::
  "('c, 'k, 'p) enroll_lib \<Rightarrow> string + 'k \<Rightarrow> registry \<Rightarrow> (csr_error + 'k enrollment_csr) \<times> registry" where
  "generate_csr lib fresh reg =
     (case fresh of Inl err \<Rightarrow> (Inl (Keygen err), reg) | Inr kp \<Rightarrow> build_from_keypair lib kp reg)"

section \<open>The file source\<close>

record file_qr_source =
  fq_path :: string
  fq_consumed :: bool

definition new_file_source :: "string \<Rightarrow> file_qr_source" where
  "new_file_source path = \<lparr> fq_path = path, fq_consumed = False \<rparr>"

text \<open>\<open>read_file\<close> is \<^verbatim>\<open>std::fs::read\<close> on the operator's file, outside the data directory.\<close>

definition load_frame ::
  "('c, 'k, 'p) enroll_lib \<Rightarrow> (string \<Rightarrow> io_error + string) \<Rightarrow> file_qr_source \<Rightarrow> qr_frame_error + 'p gray_image" where
  "load_frame lib read_file source =
     (case read_file (fq_path source) of
        Inl err \<Rightarrow> Inl (FrameIo err)
      | Inr bytes \<Rightarrow>
          (case image_decode lib max_qr_image_dim bytes of
             Inl err \<Rightarrow> Inl (FrameDecode err)
           | Inr img \<Rightarrow> Inr img))"

definition next_file_frame ::
  "('c, 'k, 'p) enroll_lib \<Rightarrow> (string \<Rightarrow> io_error + string) \<Rightarrow> file_qr_source
     \<Rightarrow> (qr_frame_error + 'p gray_image) \<times> file_qr_source" where
  "next_file_frame lib read_file source =
     (if fq_consumed source then (Inl (Unavailable (fq_path source)), source)
      else
        (case load_frame lib read_file source of
           Inl err \<Rightarrow> (Inl err, source)
         | Inr img \<Rightarrow> (Inr img, source\<lparr>fq_consumed := True\<rparr>)))"

section \<open>The command\<close>

datatype command_error = CmdConfig | CmdIo | CmdTransient | CmdUnrecoverable

fun exit_code :: "command_error \<Rightarrow> int" where
  "exit_code CmdConfig = 70"
| "exit_code CmdIo = 74"
| "exit_code CmdTransient = 75"
| "exit_code CmdUnrecoverable = 76"

datatype qr_source_arg = CameraSource | FileSource

record enroll_args =
  qr_source :: qr_source_arg
  qr_file :: "string option"
  force :: bool

text \<open>
  What the command meets: the operator's file, whether the hardware section of the configuration
  decodes, the camera's frame, a freshly generated key, the network, and three readings of the clock.
\<close>

record ('k, 'p) enroll_env =
  read_qr_file :: "string \<Rightarrow> io_error + string"
  hw_config_ok :: bool
  camera_frame :: "qr_frame_error + 'p gray_image"
  fresh_key :: "string + 'k"
  enroll_net :: network
  now_decoded :: instant
  now_confirm :: instant
  now_persist :: instant

type_synonym 'a cmd_io = "(registry \<times> command_error, 'a) cred_io"

definition fail_with :: "string \<Rightarrow> registry \<Rightarrow> command_error \<Rightarrow> 'a cmd_io" where
  "fail_with kind reg err = bind_io (emit (EnrollmentEv (EnrollmentFailed kind))) (\<lambda>_. throw (reg, err))"

text \<open>Building the source and taking one frame; \<open>Inl None\<close> is a source that cannot be built.\<close>

definition acquire_frame ::
  "('c, 'k, 'p) enroll_lib \<Rightarrow> ('k, 'p) enroll_env \<Rightarrow> enroll_args \<Rightarrow> qr_frame_error option + 'p gray_image" where
  "acquire_frame lib env args =
     (case qr_source args of
        FileSource \<Rightarrow>
          (case qr_file args of
             None \<Rightarrow> Inl None
           | Some path \<Rightarrow>
               (case fst (next_file_frame lib (read_qr_file env) (new_file_source path)) of
                  Inl err \<Rightarrow> Inl (Some err)
                | Inr img \<Rightarrow> Inr img))
      | CameraSource \<Rightarrow>
          if \<not> hw_config_ok env then Inl None
          else (case camera_frame env of Inl err \<Rightarrow> Inl (Some err) | Inr img \<Rightarrow> Inr img))"

definition build_fresh_csr ::
  "('c, 'k, 'p) enroll_lib \<Rightarrow> string + 'k \<Rightarrow> registry \<Rightarrow> ('k enrollment_csr \<times> bool \<times> registry) cmd_io" where
  "build_fresh_csr lib fresh reg =
     (case generate_csr lib fresh reg of
        (Inl _, reg') \<Rightarrow> fail_with ''csr'' reg' CmdIo
      | (Inr csr, reg') \<Rightarrow> ret (csr, False, reg'))"

definition obtain_csr ::
  "('c, 'k, 'p) enroll_lib \<Rightarrow> 'k cred_lib \<Rightarrow> string + 'k \<Rightarrow> bool \<Rightarrow> registry \<Rightarrow> ('k enrollment_csr \<times> bool \<times> registry) cmd_io" where
  "obtain_csr lib cl fresh forced reg =
     (if forced then build_fresh_csr lib fresh reg
      else
        match_io (load_keypair cl)
          (\<lambda>existing.
             case build_from_keypair lib existing reg of
               (Inl _, reg') \<Rightarrow> fail_with ''csr'' reg' CmdIo
             | (Inr csr, reg') \<Rightarrow> ret (csr, True, reg'))
          (\<lambda>err.
             case err of
               IdIo _ NotFound \<Rightarrow> build_fresh_csr lib fresh reg
             | _ \<Rightarrow> fail_with ''key_load'' reg CmdIo))"

fun map_confirm_error :: "confirm_error \<Rightarrow> enrollment_event \<times> command_error" where
  "map_confirm_error (SessionInvalid status _) = (EnrollmentSessionInvalid status, CmdUnrecoverable)"
| "map_confirm_error (Refused _) = (EnrollmentFailed ''refused'', CmdUnrecoverable)"
| "map_confirm_error (ServerRejected _ _) = (EnrollmentFailed ''server_rejected'', CmdUnrecoverable)"
| "map_confirm_error (TransientExhausted _ _ _) = (EnrollmentFailed ''transient_exhausted'', CmdTransient)"
| "map_confirm_error _ = (EnrollmentFailed ''validation'', CmdIo)"

definition enroll_options ::
  "('c, 'k, 'p) enroll_lib \<Rightarrow> config \<Rightarrow> instant \<Rightarrow> confirmed_enrollment \<Rightarrow> 'k \<Rightarrow> bool \<Rightarrow> save_options" where
  "enroll_options lib cfg now confirmed kp over =
     \<lparr> so_station_id = ce_station_id confirmed, so_enrolled_at = now,
       so_perchpub_url = (case perchpub_url cfg of Some u \<Rightarrow> u | None \<Rightarrow> []),
       station_key_pem = key_pem lib kp, station_cert_pem = ce_certificate_pem confirmed,
       so_ca_chain_pem = ce_ca_chain_pem confirmed, overwrite = over \<rparr>"

definition persist_identity ::
  "'k cred_lib \<Rightarrow> save_options \<Rightarrow> registry \<Rightarrow> station_identity cmd_io" where
  "persist_identity cl opts reg =
     match_io (save cl opts) ret
       (\<lambda>err. case err of
          AlreadyExists existing \<Rightarrow>
            bind_io (emit (EnrollmentEv (EnrollmentRefusedOverwrite existing))) (\<lambda>_. throw (reg, CmdUnrecoverable))
        | _ \<Rightarrow> fail_with ''persist'' reg CmdIo)"

definition finish_enroll ::
  "('c, 'k, 'p) enroll_lib \<Rightarrow> 'k cred_lib \<Rightarrow> ('k, 'p) enroll_env \<Rightarrow> config \<Rightarrow> bool \<Rightarrow> uuid option
     \<Rightarrow> enrollment_session_material \<Rightarrow> 'k enrollment_csr \<Rightarrow> bool \<Rightarrow> registry \<Rightarrow> registry cmd_io" where
  "finish_enroll lib cl env cfg forced previous material csr reused reg =
     (let url = the (perchpub_url cfg) in
      case fst (send (confirm_lib.truncate lib) (enroll_net env) url (esm_ca_chain_pem material) (esm_session_id material)
                  (esm_auth_token material) (ecsr_pem csr) (keypair csr) (now_confirm env)) of
        Inl err \<Rightarrow>
          bind_io (emit (EnrollmentEv (fst (map_confirm_error err)))) (\<lambda>_. throw (reg, snd (map_confirm_error err)))
      | Inr confirmed \<Rightarrow>
          bind_io (emit (EnrollmentEv (EnrollmentSent (esm_session_id material) url))) (\<lambda>_.
          bind_io (persist_identity cl
              (enroll_options lib cfg (now_persist env) confirmed (keypair csr) (reused \<or> forced \<or> previous \<noteq> None)) reg) (\<lambda>identity.
          bind_io (case previous of
                     Some prev \<Rightarrow> if reused then ret () else emit (EnrollmentEv (EnrollmentOverwritten prev (station_id identity)))
                   | None \<Rightarrow> ret ()) (\<lambda>_.
          bind_io (emit (EnrollmentEv (EnrollmentPersisted (station_id identity) (cert_not_after identity) reused))) (\<lambda>_.
          ret reg)))))"

definition run_enroll ::
  "('c, 'k, 'p) enroll_lib \<Rightarrow> 'k cred_lib \<Rightarrow> ('k, 'p) enroll_env \<Rightarrow> config \<Rightarrow> enroll_args \<Rightarrow> registry \<Rightarrow> registry cmd_io" where
  "run_enroll lib cl env cfg args reg =
     (case ensure_runtime_ready cfg of
        Inl _ \<Rightarrow> throw (reg, CmdConfig)
      | Inr _ \<Rightarrow>
     if \<not> is_set (perchpub_url cfg) then throw (reg, CmdConfig)
     else
       bind_io (match_io (peek_existing_station_id cl) ret (\<lambda>_. ret None)) (\<lambda>previous.
       case acquire_frame lib env args of
         Inl None \<Rightarrow> throw (reg, CmdConfig)
       | Inl (Some _) \<Rightarrow> fail_with ''qr_source'' reg CmdIo
       | Inr frame \<Rightarrow>
           (case decode_enrollment_session lib (now_decoded env) frame reg of
              (Inl _, reg1) \<Rightarrow> fail_with ''qr_decode'' reg1 CmdIo
            | (Inr material, reg1) \<Rightarrow>
                bind_io (emit (EnrollmentEv (EnrollmentQrDecoded (esm_session_id material)))) (\<lambda>_.
                bind_io (obtain_csr lib cl (fresh_key env) (force args) reg1) (\<lambda>(csr, reused, reg2).
                bind_io (emit (EnrollmentEv (EnrollmentCsrGenerated reused))) (\<lambda>_.
                finish_enroll lib cl env cfg (force args) previous material csr reused reg2))))))"

section \<open>Which key an enrollment uses\<close>

text \<open>
  With \<^verbatim>\<open>--force\<close>, or when there is no key file, it is the generated key; otherwise the key on disk, if
  it can be read.
\<close>

definition station_key :: "'k cred_lib \<Rightarrow> (path \<Rightarrow> cdir option) \<Rightarrow> bool \<Rightarrow> string + 'k \<Rightarrow> 'k \<Rightarrow> bool" where
  "station_key cl before forced fresh kp \<longleftrightarrow>
     (if forced then fresh = Inr kp
      else case Option.bind (before creds_path) (\<lambda>d. map_of d key_name) of
             None \<Rightarrow> fresh = Inr kp
           | Some (_, pem) \<Rightarrow> valid_utf8 cl pem \<and> key_from_pem cl pem = Some kp)"

lemma uniform_fail_with [simp]: "uniform (fail_with kind reg err)"
  by (simp add: fail_with_def)

lemma uniform_fresh [simp]: "uniform (build_fresh_csr lib fresh reg)"
  by (auto simp: build_fresh_csr_def split: prod.split sum.split)

lemma uniform_obtain [simp]: "uniform (obtain_csr lib cl fresh forced reg)"
  by (auto simp: obtain_csr_def split: prod.split sum.split identity_error.split io_error.split)

lemma uniform_save [simp]: "uniform (save cl opts)"
  by (auto simp: save_def split: option.split)

lemma uniform_persist [simp]: "uniform (persist_identity cl opts reg)"
  by (auto simp: persist_identity_def split: identity_error.split)

lemma uniform_finish [simp]: "uniform (finish_enroll lib cl env cfg forced previous material csr reused reg)"
  by (auto simp: finish_enroll_def Let_def split: sum.split option.split)

lemma wlp_fail_with [wlp_simps]:
  "wlp (fail_with kind reg err) Q E C w = E (reg, err) (w\<lparr>journal := journal w @ [EnrollmentEv (EnrollmentFailed kind)]\<rparr>)"
  by (simp add: fail_with_def wlp_simps)

lemma build_registers:
  assumes "build_from_keypair lib kp reg = (Inr csr, reg')"
  shows "keypair csr = kp" "set (secrets reg) \<subseteq> set (secrets reg')" "set (pem_body_lines (key_pem lib kp)) \<subseteq> set (secrets reg')"
proof -
  obtain pem where "keypair csr = kp"
    "reg' = fold register_secret (pem_body_lines (key_pem lib kp)) (fold register_secret (pem_body_lines pem) reg)"
    using assms by (auto simp: build_from_keypair_def Let_def split: option.splits sum.splits)
  moreover have "[] \<notin> set (pem_body_lines (key_pem lib kp))"
    by (auto simp: pem_body_lines_def)
  ultimately show "keypair csr = kp" "set (secrets reg) \<subseteq> set (secrets reg')" "set (pem_body_lines (key_pem lib kp)) \<subseteq> set (secrets reg')"
    by (auto simp: secrets_fold)
qed

lemma load_keypair_wlp:
  "wlp (load_keypair cl) (\<lambda>kp w'. w' = w \<and> station_key cl (look w) False fresh kp)
     (\<lambda>err w'. w' = w \<and> (\<forall>p. err = IdIo p NotFound \<longrightarrow> Option.bind (look w creds_path) (\<lambda>d. map_of d key_name) = None))
     (\<lambda>w'. w' = w) w"
  by (auto simp: load_keypair_def read_to_string_def wlp_simps station_key_def invalid_data_err_def
      split: option.splits)

definition csr_ready ::
  "('c, 'k, 'p) enroll_lib \<Rightarrow> 'k cred_lib \<Rightarrow> string + 'k \<Rightarrow> bool \<Rightarrow> registry \<Rightarrow> (path \<Rightarrow> cdir option)
     \<Rightarrow> 'k enrollment_csr \<Rightarrow> registry \<Rightarrow> bool" where
  "csr_ready lib cl fresh forced reg before csr reg' \<longleftrightarrow>
     station_key cl before forced fresh (keypair csr) \<and> set (secrets reg) \<subseteq> set (secrets reg') \<and>
     set (pem_body_lines (key_pem lib (keypair csr))) \<subseteq> set (secrets reg')"

lemma build_ready:
  "station_key cl before forced fresh kp \<Longrightarrow> build_from_keypair lib kp reg = (Inr csr, reg') \<Longrightarrow>
     csr_ready lib cl fresh forced reg before csr reg'"
  using build_registers [of lib kp reg csr reg'] by (simp add: csr_ready_def)

lemma fresh_wlp:
  assumes "\<And>kp. fresh = Inr kp \<Longrightarrow> station_key cl (look w) forced fresh kp"
  shows "wlp (build_fresh_csr lib fresh reg)
     (\<lambda>(csr, _, reg') w'. look w' = look w \<and> csr_ready lib cl fresh forced reg (look w) csr reg')
     (\<lambda>_ w'. look w' = look w) (\<lambda>w'. look w' = look w) w"
  using assms
  by (auto simp: build_fresh_csr_def generate_csr_def wlp_simps dest: build_ready split: sum.splits prod.splits)

lemma obtain_csr_wlp:
  "wlp (obtain_csr lib cl fresh forced reg)
     (\<lambda>(csr, _, reg') w'. look w' = look w \<and> csr_ready lib cl fresh forced reg (look w) csr reg')
     (\<lambda>_ w'. look w' = look w) (\<lambda>w'. look w' = look w) w"
proof (cases forced)
  case True
  then show ?thesis by (simp add: obtain_csr_def fresh_wlp station_key_def)
next
  case False
  have none: "wlp (build_fresh_csr lib fresh reg)
     (\<lambda>(csr, _, reg') w'. look w' = look w \<and> csr_ready lib cl fresh False reg (look w) csr reg')
     (\<lambda>_ w'. look w' = look w) (\<lambda>w'. look w' = look w) w"
    if "Option.bind (look w creds_path) (\<lambda>d. map_of d key_name) = None"
    using that by (intro fresh_wlp) (simp add: station_key_def)
  have reuse: "wlp (case build_from_keypair lib kp reg of (Inl _, reg') \<Rightarrow> fail_with ''csr'' reg' CmdIo | (Inr csr, reg') \<Rightarrow> ret (csr, True, reg'))
     (\<lambda>(csr, _, reg') w'. look w' = look w \<and> csr_ready lib cl fresh False reg (look w) csr reg')
     (\<lambda>_ w'. look w' = look w) (\<lambda>w'. look w' = look w) w"
    if "station_key cl (look w) False fresh kp" for kp
    using that
    by (auto simp: wlp_simps dest: build_ready split: sum.split prod.split)
  show ?thesis
    using False
    by (auto simp: obtain_csr_def wlp_match wlp_simps intro!: wlp_mono [OF load_keypair_wlp [where fresh = fresh]] none reuse
        split: identity_error.split io_error.split)
qed

section \<open>What an enrollment leaves on disk\<close>

text \<open>
  A set of credentials that may be stored: the certificate is trusted for the key beside it by what the
  QR code pinned, and the chain beside it holds pinned certificates only.
\<close>

definition issued :: "('c, 'k, 'p) enroll_lib \<Rightarrow> instant \<Rightarrow> string \<Rightarrow> 'k \<Rightarrow> save_options \<Rightarrow> bool" where
  "issued lib now qr_chain kp opts \<longleftrightarrow> station_key_pem opts = key_pem lib kp \<and>
     (\<exists>pinned given. pem_certs lib qr_chain = map Inr pinned \<and> pem_certs lib (so_ca_chain_pem opts) = map Inr given \<and>
        set given \<subseteq> set pinned \<and> trusted_leaf (confirm_lib.truncate lib) pinned kp now (station_cert_pem opts))"

lemma issued_key: "issued lib now qr_chain kp opts \<Longrightarrow> station_key_pem opts = key_pem lib kp"
  by (simp add: issued_def)

lemma truncate_sel [simp]:
  "pem_certs (confirm_lib.truncate lib) = pem_certs lib"
  by (simp add: confirm_lib.defs)

lemma send_issued:
  assumes "fst (send (confirm_lib.truncate lib) net url chain session token csr kp now) = Inr confirmed"
  shows "issued lib now chain kp (enroll_options lib cfg t confirmed kp over)"
proof -
  obtain steps where "send (confirm_lib.truncate lib) net url chain session token csr kp now = (Inr confirmed, steps)"
    using assms by (metis prod.collapse)
  from send_confirms [OF this] show ?thesis
    by (auto simp: issued_def enroll_options_def)
qed

definition enroll_safe ::
  "'k cred_lib \<Rightarrow> (save_options \<Rightarrow> bool) \<Rightarrow> (path \<Rightarrow> cdir option) \<Rightarrow> (path \<Rightarrow> cdir option) \<Rightarrow> bool" where
  "enroll_safe cl good before after \<longleftrightarrow>
     after = before \<or> (\<exists>opts. good opts \<and> creds_safe (new_creds cl opts) before after)"

lemma enroll_safe_refl [simp]: "enroll_safe cl good before before"
  by (simp add: enroll_safe_def)

lemma persist_wlp:
  assumes "cred_lib_ok cl" "good opts"
  shows "wlp (persist_identity cl opts reg)
     (\<lambda>i w'. creds_saved cl opts i (look w') \<and> untouched (look w) (look w'))
     (\<lambda>e w'. fst e = reg \<and> enroll_safe cl good (look w) (look w')) (\<lambda>w'. enroll_safe cl good (look w) (look w')) w"
  using assms(2)
  by (auto simp: persist_identity_def wlp_match wlp_simps enroll_safe_def
      intro!: wlp_mono [OF save_wlp [OF assms(1)]] split: identity_error.split)

lemma finish_wlp:
  assumes "cred_lib_ok cl"
  shows "wlp (finish_enroll lib cl env cfg forced previous material csr reused reg)
     (\<lambda>reg' w'. reg' = reg \<and> (\<exists>opts i. issued lib (now_confirm env) (esm_ca_chain_pem material) (keypair csr) opts \<and>
        creds_saved cl opts i (look w') \<and> untouched (look w) (look w')))
     (\<lambda>e w'. fst e = reg \<and> enroll_safe cl (issued lib (now_confirm env) (esm_ca_chain_pem material) (keypair csr)) (look w) (look w'))
     (\<lambda>w'. enroll_safe cl (issued lib (now_confirm env) (esm_ca_chain_pem material) (keypair csr)) (look w) (look w')) w"
proof (cases "fst (send (confirm_lib.truncate lib) (enroll_net env) (the (perchpub_url cfg)) (esm_ca_chain_pem material)
    (esm_session_id material) (esm_auth_token material) (ecsr_pem csr) (keypair csr) (now_confirm env))")
  case (Inl err)
  then show ?thesis by (simp add: finish_enroll_def Let_def wlp_simps)
next
  case (Inr confirmed)
  note good = send_issued [OF Inr, where cfg = cfg and t = "now_persist env" and over = "reused \<or> forced \<or> previous \<noteq> None"]
  define good_opts where "good_opts = issued lib (now_confirm env) (esm_ca_chain_pem material) (keypair csr)"
  have u: "uniform (case previous of Some prev \<Rightarrow> if reused then ret () else emit (EnrollmentEv (EnrollmentOverwritten prev sid)) | None \<Rightarrow> ret ())" for sid
    by (simp split: option.split)
  have w: "wlp (case previous of Some prev \<Rightarrow> if reused then ret () else emit (EnrollmentEv (EnrollmentOverwritten prev sid)) | None \<Rightarrow> ret ()) Q E C w'"
    if "\<And>w''. look w'' = look w' \<Longrightarrow> Q () w''" for Q E C w' sid
    using that by (simp add: wlp_simps split: option.split)
  show ?thesis
    using Inr good unfolding good_opts_def [symmetric]
    by (auto simp: finish_enroll_def Let_def wlp_simps u simp del: split_paired_All
        intro!: wlp_mono [OF persist_wlp [OF assms, where good = good_opts]] w) blast
qed

text \<open>What the QR code of this run says.\<close>

definition scanned :: "('c, 'k, 'p) enroll_lib \<Rightarrow> ('k, 'p) enroll_env \<Rightarrow> enroll_args \<Rightarrow> enrollment_session_material \<Rightarrow> bool" where
  "scanned lib env args material \<longleftrightarrow>
     (\<exists>frame reg reg'. acquire_frame lib env args = Inr frame \<and>
        decode_enrollment_session lib (now_decoded env) frame reg = (Inr material, reg'))"

lemma decode_registers:
  assumes "decode_enrollment_session lib now img reg = (r, reg')"
  shows "set (secrets reg) \<subseteq> set (secrets reg')" "r = Inr material \<Longrightarrow> esm_auth_token material \<in> set (secrets reg')"
  using assms
  by (auto simp: decode_enrollment_session_def split: if_splits list.splits sum.splits)

definition good_credentials ::
  "('c, 'k, 'p) enroll_lib \<Rightarrow> 'k cred_lib \<Rightarrow> ('k, 'p) enroll_env \<Rightarrow> enroll_args \<Rightarrow> (path \<Rightarrow> cdir option)
     \<Rightarrow> enrollment_session_material \<Rightarrow> save_options \<Rightarrow> bool" where
  "good_credentials lib cl env args before material opts \<longleftrightarrow> scanned lib env args material \<and>
     (\<exists>kp. station_key cl before (force args) (fresh_key env) kp \<and>
        issued lib (now_confirm env) (esm_ca_chain_pem material) kp opts)"

definition run_safe ::
  "('c, 'k, 'p) enroll_lib \<Rightarrow> 'k cred_lib \<Rightarrow> ('k, 'p) enroll_env \<Rightarrow> enroll_args \<Rightarrow> (path \<Rightarrow> cdir option) \<Rightarrow> (path \<Rightarrow> cdir option) \<Rightarrow> bool" where
  "run_safe lib cl env args before after \<longleftrightarrow>
     enroll_safe cl (\<lambda>opts. \<exists>material. good_credentials lib cl env args before material opts) before after"

definition run_done ::
  "('c, 'k, 'p) enroll_lib \<Rightarrow> 'k cred_lib \<Rightarrow> ('k, 'p) enroll_env \<Rightarrow> enroll_args \<Rightarrow> registry \<Rightarrow> registry
     \<Rightarrow> (path \<Rightarrow> cdir option) \<Rightarrow> (path \<Rightarrow> cdir option) \<Rightarrow> bool" where
  "run_done lib cl env args reg reg' before after \<longleftrightarrow>
     (\<exists>material opts i. good_credentials lib cl env args before material opts \<and> creds_saved cl opts i after \<and> untouched before after \<and>
        set (secrets reg) \<subseteq> set (secrets reg') \<and> esm_auth_token material \<in> set (secrets reg') \<and>
        set (pem_body_lines (station_key_pem opts)) \<subseteq> set (secrets reg'))"

lemma finish_run_wlp:
  assumes lib: "cred_lib_ok cl" and scan: "acquire_frame lib env args = Inr frame"
    "decode_enrollment_session lib (now_decoded env) frame reg = (Inr material, reg1)"
    and csr: "csr_ready lib cl (fresh_key env) (force args) reg1 (look w) csr reg2"
  shows "wlp (finish_enroll lib cl env cfg (force args) previous material csr reused reg2)
     (\<lambda>reg' w'. run_done lib cl env args reg reg' (look w) (look w'))
     (\<lambda>e w'. run_safe lib cl env args (look w) (look w')) (\<lambda>w'. run_safe lib cl env args (look w) (look w')) w"
proof -
  have good: "good_credentials lib cl env args (look w) material opts"
    if "issued lib (now_confirm env) (esm_ca_chain_pem material) (keypair csr) opts" for opts
    using that scan csr unfolding good_credentials_def scanned_def csr_ready_def by blast
  have safe: "run_safe lib cl env args (look w) after"
    if "enroll_safe cl (issued lib (now_confirm env) (esm_ca_chain_pem material) (keypair csr)) (look w) after" for after
    using that good unfolding run_safe_def enroll_safe_def by blast
  have "run_done lib cl env args reg reg2 (look w) after"
    if "issued lib (now_confirm env) (esm_ca_chain_pem material) (keypair csr) opts" "creds_saved cl opts i after" "untouched (look w) after"
    for opts i after
  proof -
    have "station_key_pem opts = key_pem lib (keypair csr)" using that(1) by (simp add: issued_def)
    then show ?thesis
      using good [OF that(1)] that(2,3) csr decode_registers [OF scan(2)] unfolding run_done_def csr_ready_def
      by (intro exI [of _ material] exI [of _ opts] exI [of _ i]) auto
  qed
  then show ?thesis
    using safe by (intro wlp_mono [OF finish_wlp [OF lib]]) auto
qed

lemma run_enroll_wlp:
  assumes lib: "cred_lib_ok cl"
  shows "wlp (run_enroll lib cl env cfg args reg)
     (\<lambda>reg' w'. run_done lib cl env args reg reg' (look w) (look w'))
     (\<lambda>e w'. run_safe lib cl env args (look w) (look w')) (\<lambda>w'. run_safe lib cl env args (look w) (look w')) w"
proof -
  have same: "run_safe lib cl env args (look w) (look w')" if "look w' = look w" for w'
    using that by (simp add: run_safe_def)
  have after_scan: "wlp (obtain_csr lib cl (fresh_key env) (force args) reg1)
      (\<lambda>x. wlp (case x of (csr, reused, reg2) \<Rightarrow> bind_io (emit (EnrollmentEv (EnrollmentCsrGenerated reused))) (\<lambda>_.
          finish_enroll lib cl env cfg (force args) previous material csr reused reg2))
        (\<lambda>reg' w'. run_done lib cl env args reg reg' (look w) (look w'))
        (\<lambda>e w'. run_safe lib cl env args (look w) (look w')) (\<lambda>w'. run_safe lib cl env args (look w) (look w')))
      (\<lambda>e w'. run_safe lib cl env args (look w) (look w')) (\<lambda>w'. run_safe lib cl env args (look w) (look w')) w1"
    if scan: "acquire_frame lib env args = Inr frame"
      "decode_enrollment_session lib (now_decoded env) frame reg = (Inr material, reg1)"
      and w1: "look w1 = look w" for frame material reg1 previous w1
  proof -
    have fin: "wlp (finish_enroll lib cl env cfg (force args) previous material csr reused reg2)
        (\<lambda>reg' w'. run_done lib cl env args reg reg' (look w) (look w'))
        (\<lambda>e w'. run_safe lib cl env args (look w) (look w')) (\<lambda>w'. run_safe lib cl env args (look w) (look w')) w2"
      if "look w2 = look w" "csr_ready lib cl (fresh_key env) (force args) reg1 (look w) csr reg2" for w2 csr reused reg2
      using finish_run_wlp [OF lib scan, of w2 csr reg2] that by simp
    show ?thesis
      by (auto simp: wlp_simps w1 simp del: split_paired_All
          intro!: wlp_mono [OF obtain_csr_wlp] fin same split: prod.splits)
  qed
  have u: "uniform (match_io (peek_existing_station_id cl) ret (\<lambda>_. ret None))" by simp
  show ?thesis
    by (auto simp: run_enroll_def wlp_match wlp_simps intro!: wlp_mono [OF peek_wlp] after_scan same
        split: sum.split option.split prod.split)
qed

lemma uniform_run_enroll [simp]: "uniform (run_enroll lib cl env cfg args reg)"
  by (auto simp: run_enroll_def split: sum.split option.split prod.split)

text \<open>An enrollment that returns leaves the directory in place, unless two system calls failed.\<close>

lemma persist_in_place:
  assumes "cred_lib_ok cl" "n \<le> 1"
  shows "wlpf n (persist_identity cl opts reg) (\<lambda>_ _ _. True) (\<lambda>_ _. in_place w) (\<lambda>_. True) w"
proof -
  have j: "in_place w (w'\<lparr>journal := j\<rparr>) \<longleftrightarrow> in_place w w'" for w' :: "cdir world" and j by (simp add: in_place_def)
  show ?thesis
    by (auto simp: persist_identity_def wlpf_match wlpf_simps fail_with_def j
        intro!: wlpf_mono [OF save_in_place [OF assms]] split: identity_error.split)
qed

lemma finish_in_place:
  assumes lib: "cred_lib_ok cl" "n \<le> 1" and w1: "look w1 = look w"
  shows "wlpf n (finish_enroll lib cl env cfg forced previous material csr reused reg) (\<lambda>_ _ _. True) (\<lambda>_ _. in_place w) (\<lambda>_. True) w1"
proof -
  have persist: "wlpf i (persist_identity cl opts reg) (\<lambda>_ _ _. True) (\<lambda>_ _. in_place w) (\<lambda>_. True) (w1\<lparr>journal := j\<rparr>)"
    if "i \<le> n" for i j opts
    using persist_in_place [OF lib(1), of i opts reg "w1\<lparr>journal := j\<rparr>"] that lib(2)
      in_place_from [of "w1\<lparr>journal := j\<rparr>" w] w1 by simp
  have told: "uniform (case previous of Some prev \<Rightarrow> if reused then ret () else emit (EnrollmentEv (EnrollmentOverwritten prev sid)) | None \<Rightarrow> ret ())"
    "wlpf i (case previous of Some prev \<Rightarrow> if reused then ret () else emit (EnrollmentEv (EnrollmentOverwritten prev sid)) | None \<Rightarrow> ret ())
       (\<lambda>_ _ _. True) E C w'" for sid i E C w'
    by (simp_all add: wlpf_simps split: option.split)
  show ?thesis
    using w1
    by (auto simp: finish_enroll_def Let_def wlpf_simps told in_place_same intro!: wlpf_mono [OF persist] split: sum.split)
qed

lemma run_enroll_in_place:
  assumes lib: "cred_lib_ok cl" "n \<le> 1"
  shows "wlpf n (run_enroll lib cl env cfg args reg) (\<lambda>_ _ _. True) (\<lambda>_ _. in_place w) (\<lambda>_. True) w"
proof -
  have csr: "wlpf i (obtain_csr lib cl (fresh_key env) (force args) reg1)
      (\<lambda>j x. wlpf j (case x of (csr, reused, reg2) \<Rightarrow> bind_io (emit (EnrollmentEv (EnrollmentCsrGenerated reused))) (\<lambda>_.
          finish_enroll lib cl env cfg (force args) previous material csr reused reg2)) (\<lambda>_ _ _. True) (\<lambda>_ _. in_place w) (\<lambda>_. True))
      (\<lambda>_ _. in_place w) (\<lambda>_. True) w1" if "i \<le> n" "look w1 = look w" for i w1 reg1 previous material
    by (rule wlpf_of_wlp [OF obtain_csr_wlp])
      (use that lib in \<open>auto simp: wlpf_simps in_place_same intro!: finish_in_place split: prod.splits\<close>)
  show ?thesis
    by (auto simp: run_enroll_def wlpf_match wlpf_simps fail_with_def in_place_same
        intro!: wlpf_of_wlp [OF peek_wlp] csr split: sum.split option.split prod.split)
qed

text \<open>
  C10: An enrollment never changes the station by accident. Whatever the host, the network and the QR code
  do, and wherever the process dies, nothing but the credentials is touched, and they are what they were before or a
  complete new set: with the key that was on disk (unless \<^verbatim>\<open>--force\<close> was given or there was none; a
  key that cannot be read leaves the credentials alone), and with a certificate that the pinned
  authority issued for that key. There is one exception, between the two renames of the promotion: the
  previous directory is intact under \<^verbatim>\<open>credentials.old\<close>, the new one complete under \<^verbatim>\<open>credentials.tmp\<close>, and
  \<^verbatim>\<open>credentials/\<close> is missing. It needs a process that died there, or two failed system calls, the second one the
  rename that restores the previous directory. After a success the new set is in place, and the token and every line of the
  key are in the redaction registry.
\<close>

theorem enroll_keeps_station:
  assumes "cred_lib_ok cl" and "run_enroll lib cl env cfg args reg w fs = (r, w', fs')"
  shows "(\<forall>p. p \<notin> {creds_path, staging_path, rotated_path} \<longrightarrow> look w' p = look w p) \<and>
    (look w' creds_path = look w creds_path \<or>
     (\<exists>material kp opts. scanned lib env args material \<and> station_key cl (look w) (force args) (fresh_key env) kp \<and>
        issued lib (now_confirm env) (esm_ca_chain_pem material) kp opts \<and>
        (look w' creds_path = Some (new_creds cl opts) \<or>
         look w' creds_path = None \<and> look w' rotated_path = look w creds_path \<and> look w' staging_path = Some (new_creds cl opts) \<and>
         (r = Crashed \<or> 2 \<le> failures fs - failures fs')))) \<and>
    (case r of
       Ok reg' \<Rightarrow> \<exists>material kp opts. scanned lib env args material \<and>
         station_key cl (look w) (force args) (fresh_key env) kp \<and>
         issued lib (now_confirm env) (esm_ca_chain_pem material) kp opts \<and> look w' creds_path = Some (new_creds cl opts) \<and>
         esm_auth_token material \<in> set (secrets reg') \<and> set (pem_body_lines (key_pem lib kp)) \<subseteq> set (secrets reg')
     | _ \<Rightarrow> True)"
proof -
  have run: "case r of Ok reg' \<Rightarrow> run_done lib cl env args reg reg' (look w) (look w') | _ \<Rightarrow> run_safe lib cl env args (look w) (look w')"
    using wlp_run [OF run_enroll_wlp [OF assms(1)] assms(2)] by (simp split: res.splits)
  have done_safe: "run_safe lib cl env args (look w) (look w')" if "run_done lib cl env args reg reg' (look w) (look w')" for reg'
    using that unfolding run_done_def run_safe_def enroll_safe_def creds_safe_def creds_saved_def by blast
  have safe: "run_safe lib cl env args (look w) (look w')"
    using run done_safe by (cases r) auto
  have gone: "look w creds_path = None \<or> r = Crashed \<or> 2 \<le> failures fs - failures fs'" if "look w' creds_path = None"
  proof (rule ccontr)
    assume n: "\<not> (look w creds_path = None \<or> r = Crashed \<or> 2 \<le> failures fs - failures fs')"
    then obtain x where "r = Ok x \<or> (\<exists>e. r = Err e)" by (cases r) auto
    moreover have "\<not> (\<exists>reg'. r = Ok reg')"
      using run that unfolding run_done_def creds_saved_def by auto
    ultimately show False
      using wlpf_run [OF _ assms(2) run_enroll_in_place [OF assms(1)]] n that by (auto simp: in_place_def)
  qed
  have "\<forall>p. p \<notin> {creds_path, staging_path, rotated_path} \<longrightarrow> look w' p = look w p"
    using safe unfolding run_safe_def enroll_safe_def creds_safe_def untouched_def by auto
  moreover have "look w' creds_path = look w creds_path \<or>
     (\<exists>material kp opts. scanned lib env args material \<and> station_key cl (look w) (force args) (fresh_key env) kp \<and>
        issued lib (now_confirm env) (esm_ca_chain_pem material) kp opts \<and>
        (look w' creds_path = Some (new_creds cl opts) \<or>
         look w' creds_path = None \<and> look w' rotated_path = look w creds_path \<and> look w' staging_path = Some (new_creds cl opts) \<and>
         (r = Crashed \<or> 2 \<le> failures fs - failures fs')))"
    using safe gone unfolding run_safe_def enroll_safe_def creds_safe_def good_credentials_def by metis
  moreover have "\<exists>material kp opts. scanned lib env args material \<and> station_key cl (look w) (force args) (fresh_key env) kp \<and>
      issued lib (now_confirm env) (esm_ca_chain_pem material) kp opts \<and> look w' creds_path = Some (new_creds cl opts) \<and>
      esm_auth_token material \<in> set (secrets reg') \<and> set (pem_body_lines (key_pem lib kp)) \<subseteq> set (secrets reg')"
    if "r = Ok reg'" for reg'
  proof -
    have "run_done lib cl env args reg reg' (look w) (look w')" using run that by simp
    then show ?thesis
      unfolding run_done_def good_credentials_def creds_saved_def by (metis issued_key)
  qed
  ultimately show ?thesis by (simp split: res.split)
qed

section \<open>An enrollment on a working host\<close>

lemma run_load_keypair:
  assumes "station_key cl (look w) False fresh kp"
  shows "load_keypair cl w [] =
    (if Option.bind (look w creds_path) (\<lambda>d. map_of d key_name) = None then (Err (IdIo creds_path NotFound), w, []) else (Ok kp, w, []))"
  using assms
  by (auto simp: station_key_def load_keypair_def read_to_string_def run_simps split: option.splits)

lemma run_obtain_csr:
  assumes "station_key cl (look w) forced fresh kp" "build_from_keypair lib kp reg = (Inr csr, reg')"
  shows "obtain_csr lib cl fresh forced reg w [] =
    (Ok (csr, \<not> forced \<and> Option.bind (look w creds_path) (\<lambda>d. map_of d key_name) \<noteq> None, reg'), w, [])"
proof (cases forced)
  case True
  then show ?thesis using assms by (simp add: obtain_csr_def build_fresh_csr_def generate_csr_def station_key_def run_simps)
next
  case False
  show ?thesis
  proof (cases "Option.bind (look w creds_path) (\<lambda>d. map_of d key_name) = None")
    case True
    then have "fresh = Inr kp" using assms(1) False by (simp add: station_key_def)
    then show ?thesis
      using run_load_keypair [of cl w fresh kp] assms False True
      by (simp add: obtain_csr_def build_fresh_csr_def generate_csr_def run_match run_simps)
  next
    case key: False
    then obtain x where "Option.bind (look w creds_path) (\<lambda>d. map_of d key_name) = Some x" by blast
    then show ?thesis
      using run_load_keypair [of cl w fresh kp] assms False
      by (simp add: obtain_csr_def run_match run_simps)
  qed
qed

lemma run_peek:
  "\<exists>previous. match_io (peek_existing_station_id cl) ret (\<lambda>_. ret None) w [] = ((Ok previous :: (registry \<times> command_error, uuid option) res), w, [])"
  by (auto simp: peek_existing_station_id_def read_to_string_def run_simps split: option.split)

lemma ready_has_url: "ensure_runtime_ready cfg = Inr () \<Longrightarrow> is_set (perchpub_url cfg)"
  by (simp add: ensure_runtime_ready_def split: if_splits)

lemma run_finish:
  assumes "fst (send (confirm_lib.truncate lib) (enroll_net env) (the (perchpub_url cfg)) (esm_ca_chain_pem material)
      (esm_session_id material) (esm_auth_token material) (ecsr_pem csr) (keypair csr) (now_confirm env)) = Inr confirmed"
    and opts: "opts = enroll_options lib cfg (now_persist env) confirmed (keypair csr) (reused \<or> forced \<or> previous \<noteq> None)"
    and "cred_lib_ok cl" "overwrite opts \<or> look w creds_path = None"
    and "parse_cert_not_after cl (ce_certificate_pem confirmed) = Inr na"
  shows "\<exists>w'. finish_enroll lib cl env cfg forced previous material csr reused reg w [] = (Ok reg, w', []) \<and>
    look w' creds_path = Some (new_creds cl opts)"
proof -
  define w1 where "w1 = w\<lparr>journal := journal w @ [EnrollmentEv (EnrollmentSent (esm_session_id material) (the (perchpub_url cfg)))]\<rparr>"
  have "look w1 = look w" by (simp add: w1_def)
  then obtain i w2 where "save cl opts w1 [] = (Ok i, w2, [])" "look w2 creds_path = Some (new_creds cl opts)"
    using run_save [OF assms(3), of opts w1 na] assms(4,5) by (auto simp: opts enroll_options_def)
  then show ?thesis
    using assms(1) opts [symmetric]
    by (cases previous) (auto simp: finish_enroll_def Let_def persist_identity_def run_simps w1_def [symmetric])
qed

text \<open>
  C14: An enrollment completes. On a working host, with a valid configuration, a readable QR code, a key that can be
  used and an answer that passes the checks within the three tries, the command succeeds; the identity that
  the station loads from then on is the one perchpub assigned, with the key of this enrollment,
  and a later enrollment without \<^verbatim>\<open>--force\<close> uses that key and no other.
\<close>

theorem enroll_completes:
  assumes lib: "cred_lib_ok cl" and ready: "ensure_runtime_ready cfg = Inr ()"
    and scan: "acquire_frame lib env args = Inr frame"
      "decode_enrollment_session lib (now_decoded env) frame reg = (Inr material, reg1)"
    and key: "station_key cl (look w) (force args) (fresh_key env) kp" "build_from_keypair lib kp reg1 = (Inr csr, reg2)"
      "force args \<or> Option.bind (look w creds_path) (\<lambda>d. map_of d key_name) \<noteq> None \<or> look w creds_path = None"
    and pem: "valid_utf8 cl (key_pem lib kp)" "key_from_pem cl (key_pem lib kp) = Some kp"
    and confirmed: "fst (send (confirm_lib.truncate lib) (enroll_net env) (the (perchpub_url cfg)) (esm_ca_chain_pem material)
      (esm_session_id material) (esm_auth_token material) (ecsr_pem csr) kp (now_confirm env)) = Inr confirmed"
      "parse_cert_not_after cl (ce_certificate_pem confirmed) = Inr na"
  shows "\<exists>w'. run_enroll lib cl env cfg args reg w [] = (Ok reg2, w', []) \<and>
    load_identity cl w' [] = (Ok \<lparr> station_id = ce_station_id confirmed, enrolled_at = now_persist env,
       si_perchpub_url = the (perchpub_url cfg), cert_not_after = na \<rparr>, w', []) \<and>
    load_keypair cl w' [] = (Ok kp, w', []) \<and>
    (\<forall>fresh kp'. station_key cl (look w') False fresh kp' \<longleftrightarrow> kp' = kp)"
proof -
  obtain previous where peek: "match_io (peek_existing_station_id cl) ret (\<lambda>_. ret None) w [] = ((Ok previous :: (registry \<times> command_error, uuid option) res), w, [])"
    using run_peek by blast
  define reused where "reused \<longleftrightarrow> \<not> force args \<and> Option.bind (look w creds_path) (\<lambda>d. map_of d key_name) \<noteq> None"
  define opts where "opts = enroll_options lib cfg (now_persist env) confirmed (keypair csr) (reused \<or> force args \<or> previous \<noteq> None)"
  define w1 where "w1 = w\<lparr>journal := journal w @ [EnrollmentEv (EnrollmentQrDecoded (esm_session_id material))]\<rparr>"
  define w2 where "w2 = w1\<lparr>journal := journal w1 @ [EnrollmentEv (EnrollmentCsrGenerated reused)]\<rparr>"
  have look: "look w1 = look w" "look w2 = look w" by (simp_all add: w1_def w2_def)
  have kp: "keypair csr = kp" using build_registers(1) [OF key(2)] .
  have csr: "obtain_csr lib cl (fresh_key env) (force args) reg1 w1 [] = (Ok (csr, reused, reg2), w1, [])"
    using run_obtain_csr [of cl w1 "force args" "fresh_key env" kp lib reg1 csr reg2] key(1,2) look by (simp add: reused_def)
  have over: "overwrite opts \<or> look w2 creds_path = None"
    using key(3) look by (auto simp: opts_def enroll_options_def reused_def)
  obtain w' where fin: "finish_enroll lib cl env cfg (force args) previous material csr reused reg2 w2 [] = (Ok reg2, w', [])"
    and saved: "look w' creds_path = Some (new_creds cl opts)"
    using run_finish [OF _ opts_def lib over confirmed(2)] confirmed(1) kp by metis
  have "run_enroll lib cl env cfg args reg w [] = (Ok reg2, w', [])"
    using ready ready_has_url [OF ready] scan peek csr fin
    by (simp add: run_enroll_def run_simps w1_def [symmetric] w2_def [symmetric] del: run_match)
  moreover obtain u where "perchpub_url cfg = Some u"
    using ready_has_url [OF ready] by (auto simp: is_set_def split: option.splits)
  moreover have "load_keypair cl w' [] = (Ok kp, w', [])" "\<forall>fresh kp'. station_key cl (look w') False fresh kp' \<longleftrightarrow> kp' = kp"
    using saved pem kp
    by (auto simp: load_keypair_def read_to_string_def run_simps new_creds_def cred_names opts_def enroll_options_def station_key_def)
  moreover note run_load(1) [OF lib saved, of na]
  ultimately show ?thesis
    using confirmed(2) by (auto simp: opts_def enroll_options_def)
qed

section \<open>A concrete enrollment\<close>

text \<open>A station that has its key enrolls again; the generated key of the run is another one.\<close>

definition ex_enroll_lib :: "(string, string, unit) enroll_lib" where
  "ex_enroll_lib = confirm_lib.extend (ex_confirm_lib ''ca'')
     \<lparr> qr_grids = (\<lambda>_. [Inr ''{}'']),
       qr_json = (\<lambda>_. Inr \<lparr> qp_session_id = ''3'', qp_auth_token = ''tok'', qp_ca_chain_pem = ''ca'', qp_expires_at = None \<rparr>),
       uuid_parse = (\<lambda>_. Inr 3), image_decode = (\<lambda>_ _. Inl []), sha256 = (\<lambda>_. replicate 32 0), key_pem = (\<lambda>k. k),
       csr_params_new = (\<lambda>_. None), csr_dns_name = (\<lambda>_. None), serialize_request = (\<lambda>_ _. Inr ''csr''), request_pem = Inr \<rparr>"

definition ex_enroll_env :: "(string, unit) enroll_env" where
  "ex_enroll_env = \<lparr> read_qr_file = (\<lambda>_. Inl NotFound), hw_config_ok = True,
     camera_frame = Inr \<lparr> img_width = 300, img_height = 300, img_pixels = () \<rparr>, fresh_key = Inr ''other'', enroll_net = ex_network,
     now_decoded = 4, now_confirm = 5, now_persist = 6 \<rparr>"

definition ex_args :: enroll_args where
  "ex_args = \<lparr> qr_source = CameraSource, qr_file = None, force = False \<rparr>"

definition ex_config :: config where
  "ex_config = default_config\<lparr>perchpub_url := Some ''https://p/''\<rparr>"

definition ex_keyed :: "cdir world" where
  "ex_keyed = \<lparr> files = [(creds_path, [(key_name, (384, ''key''))])], seq = 0, journal = [] \<rparr>"

lemma ex_config_ready: "ensure_runtime_ready ex_config = Inr ()"
  by (simp add: ex_config_def ensure_runtime_ready_def validate_def default_config_def default_queue_config_def
      default_retry_config_def default_capture_config_def is_set_def max_wallclock_hours_def
      max_clip_duration_secs_def max_hang_margin_secs_def max_retry_delay_secs_def)

lemma ex_truncate: "confirm_lib.truncate ex_enroll_lib = ex_confirm_lib ''ca''"
  by (simp add: ex_enroll_lib_def ex_confirm_lib_def confirm_lib.defs)

lemma ex_lib_sel [simp]:
  "qr_grids ex_enroll_lib = (\<lambda>_. [Inr ''{}''])"
  "qr_json ex_enroll_lib = (\<lambda>_. Inr \<lparr> qp_session_id = ''3'', qp_auth_token = ''tok'', qp_ca_chain_pem = ''ca'', qp_expires_at = None \<rparr>)"
  "uuid_parse ex_enroll_lib = (\<lambda>_. Inr 3)" "key_pem ex_enroll_lib = (\<lambda>k. k)" "csr_params_new ex_enroll_lib = (\<lambda>_. None)"
  "csr_dns_name ex_enroll_lib = (\<lambda>_. None)" "serialize_request ex_enroll_lib = (\<lambda>_ _. Inr ''csr'')" "request_pem ex_enroll_lib = Inr"
  by (simp_all add: ex_enroll_lib_def ex_confirm_lib_def confirm_lib.defs)

lemma ex_decode:
  "decode_enrollment_session ex_enroll_lib 4 \<lparr> img_width = 300, img_height = 300, img_pixels = () \<rparr> reg =
     (Inr \<lparr> esm_session_id = 3, esm_auth_token = ''tok'', esm_ca_chain_pem = ''ca'', esm_decoded_at = 4 \<rparr>, register_secret ''tok'' reg)"
  by (simp add: decode_enrollment_session_def max_qr_image_dim_def)

lemma ex_station_key: "station_key ex_cred_lib (look ex_keyed) False fresh kp \<longleftrightarrow> kp = ''key''"
  by (auto simp: station_key_def ex_keyed_def ex_cred_lib_def)

theorem enroll_keeps_station_witness:
  "\<exists>r w' fs'. run_enroll ex_enroll_lib ex_cred_lib ex_enroll_env ex_config ex_args new_registry ex_keyed [NoFault, Fail (OtherFault 5) None] = (r, w', fs') \<and>
     (look w' creds_path = look ex_keyed creds_path \<or>
      (\<exists>opts. station_key_pem opts = ''key'' \<and>
         (look w' creds_path = Some (new_creds ex_cred_lib opts) \<or> look w' rotated_path = look ex_keyed creds_path)))"
proof -
  obtain r w' fs' where run: "run_enroll ex_enroll_lib ex_cred_lib ex_enroll_env ex_config ex_args new_registry ex_keyed
      [NoFault, Fail (OtherFault 5) None] = (r, w', fs')"
    using prod_cases3 by blast
  show ?thesis
    using enroll_keeps_station [OF ex_cred_lib_ok run] run
    by (simp add: ex_args_def ex_station_key) (use issued_key in fastforce)
qed

theorem enroll_completes_witness:
  "\<exists>reg' w'. run_enroll ex_enroll_lib ex_cred_lib ex_enroll_env ex_config ex_args new_registry ex_keyed [] = (Ok reg', w', []) \<and>
     load_keypair ex_cred_lib w' [] = (Ok ''key'', w', [])"
proof -
  obtain reg2 where csr: "build_from_keypair ex_enroll_lib ''key'' (register_secret ''tok'' new_registry) =
      (Inr \<lparr> keypair = ''key'', ecsr_pem = ''csr'' \<rparr>, reg2)"
    by (simp add: build_from_keypair_def Let_def)
  have frame: "acquire_frame ex_enroll_lib ex_enroll_env ex_args = Inr \<lparr> img_width = 300, img_height = 300, img_pixels = () \<rparr>"
    by (simp add: acquire_frame_def ex_args_def ex_enroll_env_def)
  have scan: "decode_enrollment_session ex_enroll_lib (now_decoded ex_enroll_env) \<lparr> img_width = 300, img_height = 300, img_pixels = () \<rparr> new_registry =
      (Inr \<lparr> esm_session_id = 3, esm_auth_token = ''tok'', esm_ca_chain_pem = ''ca'', esm_decoded_at = 4 \<rparr>, register_secret ''tok'' new_registry)"
    using ex_decode by (simp add: ex_enroll_env_def)
  have key: "station_key ex_cred_lib (look ex_keyed) (force ex_args) (fresh_key ex_enroll_env) ''key''"
    "force ex_args \<or> Option.bind (look ex_keyed creds_path) (\<lambda>d. map_of d key_name) \<noteq> None \<or> look ex_keyed creds_path = None"
    by (simp_all add: ex_args_def ex_station_key) (simp add: ex_keyed_def)
  have pem: "valid_utf8 ex_cred_lib (key_pem ex_enroll_lib ''key'')" "key_from_pem ex_cred_lib (key_pem ex_enroll_lib ''key'') = Some ''key''"
    by (simp_all add: ex_cred_lib_def)
  have sent: "fst (send (confirm_lib.truncate ex_enroll_lib) (enroll_net ex_enroll_env) (the (perchpub_url ex_config)) ''ca'' 3 ''tok'' ''csr'' ''key''
      (now_confirm ex_enroll_env)) = Inr \<lparr> ce_station_id = 7, ce_certificate_pem = ''leaf'', ce_ca_chain_pem = ''ca'' \<rparr>"
    using ex_send [of "''ca''" 5] by (simp add: ex_truncate ex_enroll_env_def ex_config_def)
  have "parse_cert_not_after ex_cred_lib ''leaf'' = Inr 4000000000"
    by (simp add: parse_cert_not_after_def ex_cred_lib_def ns_per_sec_def)
  then show ?thesis
    using enroll_completes [OF ex_cred_lib_ok ex_config_ready frame scan key(1) csr key(2) pem,
        where confirmed = "\<lparr> ce_station_id = 7, ce_certificate_pem = ''leaf'', ce_ca_chain_pem = ''ca'' \<rparr>" and na = 4000000000] sent
    by auto
qed

end
