(* ===== verification/Serve.thy ===== *)
theory Serve
  imports Classify_Poller Sensor Enrollment
begin

text \<open>
  The long-running command, \<^verbatim>\<open>crates/perchstation/src/commands/serve.rs\<close>, and the hardware section it
  decodes, \<^verbatim>\<open>crates/perchstation-hw/src/capture_config.rs\<close>: the checks and the boot sequence, the wiring of the
  three workers, the reload on \<^verbatim>\<open>SIGHUP\<close>, and the iteration of the delivery loop cut at its upload, where it waits. The
  tokio runtime, the bounded wait for the workers at shutdown and \<^verbatim>\<open>sd_notify\<close> are left out.
\<close>

section \<open>The hardware section\<close>

record capture_hw_config =
  sensor_gpiochip :: string
  sensor_line :: u32
  sensor_active_high :: bool
  camera_width :: u32
  camera_height :: u32
  camera_framerate :: u32
  camera_bitrate_bps :: u64
  camera_command :: string
  camera_still_command :: string

definition default_hw_config :: capture_hw_config where
  "default_hw_config =
     \<lparr> sensor_gpiochip = ''/dev/gpiochip0'', sensor_line = 17, sensor_active_high = True, camera_width = 1280,
       camera_height = 720, camera_framerate = 30, camera_bitrate_bps = 4000000, camera_command = ''rpicam-vid'',
       camera_still_command = ''rpicam-still'' \<rparr>"

definition validate_hw :: "capture_hw_config \<Rightarrow> string + unit" where
  "validate_hw hw =
     (if camera_command hw = [] then Inl ''capture.camera_command must not be empty''
      else if camera_still_command hw = [] then Inl ''capture.camera_still_command must not be empty''
      else Inr ())"

section \<open>The credentials\<close>

text \<open>
  What the command uses of its libraries beside those of the workers: X.509 and TLS for the client, and what the
  decoder makes of the opaque hardware table (\<open>Inl\<close>: it does not decode).
\<close>

record ('u, 'c, 'k) serve_lib =
  sl_creds :: "'k cred_lib"
  sl_api :: "'u url_api"
  sl_x509 :: "string \<Rightarrow> (string \<times> string) option"
  sl_tls :: "string \<Rightarrow> string option \<Rightarrow> string + 'c"

definition key_secrets :: "string \<Rightarrow> string list" where
  "key_secrets pem = filter (\<lambda>t. t \<noteq> [] \<and> \<not> starts_with ''-----'' t) (map trim_spaces (str_lines pem))"

definition register_station_key_secrets :: "'k cred_lib \<Rightarrow> registry \<Rightarrow> registry cmd_io" where
  "register_station_key_secrets cl reg =
     bind_io (map_err (\<lambda>_. (reg, CmdIo)) (read_to_string cl creds_path key_name)) (\<lambda>pem.
     ret (foldl (\<lambda>r t. register_secret t r) reg (key_secrets pem)))"

text \<open>\<^verbatim>\<open>build_inner\<close> with its reads: the certificate, the key, the chain.\<close>

definition build_from_disk ::
  "(string \<Rightarrow> (string \<times> string) option) \<Rightarrow> (string \<Rightarrow> string option \<Rightarrow> string + 'c) \<Rightarrow> ('e, client_error + 'c) cred_io" where
  "build_from_disk x509 tls =
     bind_io (attempt (dir_read creds_path cert_name)) (\<lambda>cert.
     case cert of
       Inl err \<Rightarrow> ret (Inl (CredentialIo ''station.crt'' err))
     | Inr _ \<Rightarrow>
         bind_io (attempt (dir_read creds_path key_name)) (\<lambda>key.
         case key of
           Inl err \<Rightarrow> ret (Inl (CredentialIo ''station.key'' err))
         | Inr _ \<Rightarrow>
             bind_io (attempt (dir_read creds_path chain_name)) (\<lambda>ca. ret (build_inner x509 tls cert key ca))))"

definition serve_credentials ::
  "('u, 'c, 'k) serve_lib \<Rightarrow> config \<Rightarrow> registry \<Rightarrow> (station_identity \<times> registry \<times> ('u, 'c) perchpub_client) cmd_io" where
  "serve_credentials lib cfg reg =
     (case ensure_runtime_ready cfg of
        Inl _ \<Rightarrow> throw (reg, CmdConfig)
      | Inr _ \<Rightarrow>
     (case upload_base (url_lib.truncate (sl_api lib)) cfg of
        Inl _ \<Rightarrow> throw (reg, CmdConfig)
      | Inr base \<Rightarrow>
          match_io (load_identity (sl_creds lib))
            (\<lambda>identity.
               bind_io (register_station_key_secrets (sl_creds lib) reg) (\<lambda>reg'.
               bind_io (build_from_disk (sl_x509 lib) (sl_tls lib)) (\<lambda>built.
               case new_client (sl_api lib) built base of
                 Inl _ \<Rightarrow> throw (reg', CmdIo)
               | Inr cl \<Rightarrow> ret (identity, reg', cl))))
            (\<lambda>err. case err of
               IdIo _ NotFound \<Rightarrow> throw (reg, CmdUnrecoverable)
             | _ \<Rightarrow> throw (reg, CmdIo))))"

section \<open>The queue at boot\<close>

fun emit_recovered_entries :: "clip_queue_entry list \<Rightarrow> ('b, 'e, unit) io" where
  "emit_recovered_entries [] = ret ()"
| "emit_recovered_entries (e # es) =
     bind_io (emit (QueueEv (QueueRecoveredInflight (clip_id e)))) (\<lambda>_. emit_recovered_entries es)"

fun count_pending_loop :: "string list \<Rightarrow> u32 \<Rightarrow> ('b, io_error, u32) io" where
  "count_pending_loop [] n = ret n"
| "count_pending_loop (x # xs) n =
     bind_io fs_next_entry (\<lambda>_. count_pending_loop xs (if has_ext ''json'' x then sat_add u32_max n 1 else n))"

definition count_pending :: "('b, io_error, u32) io" where
  "count_pending = bind_io (fs_read_dir PendingDir) (\<lambda>ns. count_pending_loop ns 0)"

definition purge_capture_staging_or_disable :: "'b codec \<Rightarrow> ('b, 'e, purge_report option) io" where
  "purge_capture_staging_or_disable cd =
     match_io (purge cd) (\<lambda>rep. ret (Some rep))
       (\<lambda>_. bind_io (emit (CaptureEv (CaptureInitFailed ''staging_purge_failed''))) (\<lambda>_. ret None))"

text \<open>Everything between the construction of the client and the spawning of the workers.\<close>

definition prepare_queue :: "'b codec \<Rightarrow> uuid \<Rightarrow> ('b, command_error, u32 \<times> purge_report option) io" where
  "prepare_queue cd sid =
     bind_io (map_err (\<lambda>_. CmdIo) open_store) (\<lambda>_.
     bind_io (map_err (\<lambda>_. CmdIo) (reconcile_inflight cd)) (\<lambda>recovered.
     bind_io (emit_recovered_entries recovered) (\<lambda>_.
     bind_io (map_err (\<lambda>_. CmdIo) count_pending) (\<lambda>pending_at_start.
     bind_io (purge_capture_staging_or_disable cd) (\<lambda>rep.
     bind_io (emit (ServiceEv (ServiceReady sid pending_at_start))) (\<lambda>_.
     ret (pending_at_start, rep)))))))"

section \<open>The workers\<close>

text \<open>What the workers are built from, beside the identity and the client.\<close>

record ('b, 'u, 'c) plant =
  pt_codec :: "'b codec"
  pt_http :: "('b, 'u, 'c) http_env"
  pt_display :: "client_error \<Rightarrow> string"
  pt_fp :: fp_env
  pt_jitter :: f64
  pt_limits :: chrono_limits
  pt_dt_min :: instant
  pt_camera :: "'b camera_host"
  pt_fmt :: "instant \<Rightarrow> string"
  pt_io_text :: "io_error \<Rightarrow> string"
  pt_path_text :: "path \<Rightarrow> string"
  pt_json_text :: string
  pt_hw :: "string + capture_hw_config"
  pt_gpio :: "string \<Rightarrow> u32 \<Rightarrow> gpio_host"

record ('b, 'u, 'c) service =
  sr_runner :: "('b, 'u, 'c) delivery_runner"
  sr_logged :: bool
  sr_flight :: "clip_queue_entry option"
  sr_poller :: "('b, 'u, 'c) classify_poller"
  sr_polled :: "string set \<times> nat"
  sr_capture :: "('b capture_env \<times> supervisor) option"

definition new_runner :: "('b, 'u, 'c) plant \<Rightarrow> config \<Rightarrow> station_identity \<Rightarrow> ('u, 'c) perchpub_client \<Rightarrow> ('b, 'u, 'c) delivery_runner" where
  "new_runner pt cfg identity cl =
     \<lparr> rn_codec = pt_codec pt, rn_env = pt_http pt, rn_client = cl, rn_display = pt_display pt, rn_fp = pt_fp pt,
       rn_lims = pt_limits pt, rn_schedule = schedule_from_config (pt_jitter pt) (retry_section cfg),
       rn_cert_not_after = cert_not_after identity \<rparr>"

definition new_poller :: "('b, 'u, 'c) plant \<Rightarrow> config \<Rightarrow> ('u, 'c) perchpub_client \<Rightarrow> ('b, 'u, 'c) classify_poller" where
  "new_poller pt cfg cl =
     with_retention_hours (delivered_retention_hours (queue_section cfg))
       \<lparr> pl_codec = pt_codec pt, pl_env = pt_http pt, pl_client = cl, pl_lims = pt_limits pt, pl_dt_min = pt_dt_min pt,
         pl_retention_hours = 24 * 7 \<rparr>"

definition capture_env_of :: "('b, 'u, 'c) plant \<Rightarrow> config \<Rightarrow> capture_hw_config \<Rightarrow> 'b capture_env" where
  "capture_env_of pt cfg hw =
     station_env (pt_codec pt) (pt_camera pt)
       (with_binary (camera_command hw)
         (new_libcamera_vid (camera_width hw) (camera_height hw) (camera_framerate hw) (camera_bitrate_bps hw)))
       (policy_from_config (queue_section cfg)) (pt_fmt pt) (capture_section cfg) (pt_limits pt)
       (pt_io_text pt) (pt_path_text pt) (pt_json_text pt)"

text \<open>The first steps of the capture task; \<open>None\<close> when it ends there.\<close>

definition start_capture :: "'b capture_env \<Rightarrow> purge_report \<Rightarrow> supervisor \<Rightarrow> ('b, 'e, supervisor option) io" where
  "start_capture env rep sv =
     match_io fs_create_dir_all
       (\<lambda>_. bind_io (emit (CaptureEv (CaptureReady (removed_files rep)))) (\<lambda>_. ret (Some sv)))
       (\<lambda>_. bind_io (emit (CaptureEv (CaptureInitFailed ''staging_dir_create_failed''))) (\<lambda>_. ret None))"

definition spawn_capture_task ::
  "('b, 'u, 'c) plant \<Rightarrow> config \<Rightarrow> purge_report option \<Rightarrow> ('b, 'e, ('b capture_env \<times> supervisor) option) io" where
  "spawn_capture_task pt cfg purged =
     (case purged of
        None \<Rightarrow> ret None
      | Some rep \<Rightarrow>
     (case Option.bind (case pt_hw pt of Inr hw \<Rightarrow> Some hw | Inl _ \<Rightarrow> None)
             (\<lambda>hw. case validate_hw hw of Inr _ \<Rightarrow> Some hw | Inl _ \<Rightarrow> None) of
        None \<Rightarrow> bind_io (emit (CaptureEv (CaptureInitFailed ''hardware_config_invalid''))) (\<lambda>_. ret None)
      | Some hw \<Rightarrow>
          (case new_gpio_sensor (pt_gpio pt (sensor_gpiochip hw) (sensor_line hw)) (sensor_active_high hw) of
             Inl _ \<Rightarrow> bind_io (emit (CaptureEv (CaptureInitFailed ''sensor_open_failed''))) (\<lambda>_. ret None)
           | Inr _ \<Rightarrow>
               (case new_capture (pt_limits pt) (capture_section cfg) of
                  None \<Rightarrow> crash_now
                | Some sv \<Rightarrow>
                    (let env = capture_env_of pt cfg hw in
                     bind_io (start_capture env rep sv) (\<lambda>started. ret (map_option (Pair env) started)))))))"

definition serve_boot ::
  "('b, 'u, 'c) plant \<Rightarrow> config \<Rightarrow> nat \<Rightarrow> station_identity \<Rightarrow> ('u, 'c) perchpub_client \<Rightarrow> ('b, command_error, ('b, 'u, 'c) service) io" where
  "serve_boot pt cfg tick0 identity cl =
     bind_io (prepare_queue (pt_codec pt) (station_id identity)) (\<lambda>(_, purged).
     bind_io (spawn_capture_task pt cfg purged) (\<lambda>capture.
     ret \<lparr> sr_runner = new_runner pt cfg identity cl, sr_logged = False, sr_flight = None,
           sr_poller = new_poller pt cfg cl, sr_polled = ({}, tick0), sr_capture = capture \<rparr>))"

text \<open>The command up to the point where the workers run, over the credentials and the queue.\<close>

definition serve_start ::
  "('u, 'c, 'k) serve_lib \<Rightarrow> ('b, 'u, 'c) plant \<Rightarrow> config \<Rightarrow> nat \<Rightarrow> registry \<Rightarrow> cdir world \<times> cdir fault list
     \<Rightarrow> 'b world \<times> 'b fault list
     \<Rightarrow> (command_error, registry \<times> ('b, 'u, 'c) service) res \<times> cdir world \<times> 'b world" where
  "serve_start lib pt cfg tick0 reg creds queue =
     (case serve_credentials lib cfg reg (fst creds) (snd creds) of
        (Err (_, err), cw, _) \<Rightarrow> (Err err, cw, fst queue)
      | (Crashed, cw, _) \<Rightarrow> (Crashed, cw, fst queue)
      | (Ok (identity, reg', cl), cw, _) \<Rightarrow>
          (case serve_boot pt cfg tick0 identity cl (fst queue) (snd queue) of
             (Err err, w, _) \<Rightarrow> (Err err, cw, w)
           | (Crashed, w, _) \<Rightarrow> (Crashed, cw, w)
           | (Ok sr, w, _) \<Rightarrow> (Ok (reg', sr), cw, w)))"

text \<open>\<^verbatim>\<open>SIGHUP\<close>: all clones of the client share the inner one.\<close>

definition reload_service :: "client_error + 'c \<Rightarrow> ('b, 'u, 'c) service \<Rightarrow> ('b, unit, ('b, 'u, 'c) service) io" where
  "reload_service built sr =
     (case reload_client built (rn_client (sr_runner sr)) of
        (Inr _, cl) \<Rightarrow>
          bind_io (emit (ServiceEv ServiceCredentialsReloaded)) (\<lambda>_.
          ret (sr\<lparr>sr_runner := (sr_runner sr)\<lparr>rn_client := cl\<rparr>, sr_poller := (sr_poller sr)\<lparr>pl_client := cl\<rparr>\<rparr>))
      | (Inl _, _) \<Rightarrow>
          bind_io (emit (Warn ''credential reload failed; keeping the previous identity'')) (\<lambda>_. ret sr))"

text \<open>
  The wait for a terminating signal, over the signals that arrive; a hangup comes with what \<open>build_inner\<close> makes
  of the files at that moment.
\<close>

datatype 'c signal = SigTerm | SigInt | SigHup "client_error + 'c"

fun await_shutdown :: "'c signal list \<Rightarrow> ('b, 'u, 'c) service \<Rightarrow> ('b, unit, string option \<times> ('b, 'u, 'c) service) io" where
  "await_shutdown [] sr = ret (None, sr)"
| "await_shutdown (SigTerm # _) sr = ret (Some ''sigterm'', sr)"
| "await_shutdown (SigInt # _) sr = ret (Some ''sigint'', sr)"
| "await_shutdown (SigHup built # sigs) sr = bind_io (reload_service built sr) (await_shutdown sigs)"

section \<open>The delivery loop between two waits\<close>

text \<open>An iteration up to the upload: either it is over, or the claimed clip is in flight.\<close>

definition claim_next ::
  "('b, 'u, 'c) delivery_runner \<Rightarrow> reads \<Rightarrow> ('b, runner_error, attempt_result + clip_queue_entry) io" where
  "claim_next rn ts =
     bind_io (store_op (pick_oldest_pending (rn_codec rn) (t_pick ts))) (\<lambda>picked.
     case picked of
       None \<Rightarrow> ret (Inl Idle)
     | Some e0 \<Rightarrow>
         match_io (transition_inflight (rn_codec rn) e0 (t_pick ts))
           (\<lambda>e. bind_io (emit (DeliveryEv (DeliveryAttemptStarted (clip_id e) (attempts e)))) (\<lambda>_. ret (Inr e)))
           (\<lambda>err. case err of
              MissingMedia cid \<Rightarrow>
                bind_io (emit (QueueEv (QueueMissingMedia cid))) (\<lambda>_.
                bind_io (store_op (quarantine_orphan cid)) (\<lambda>_. ret (Inl Progress)))
            | _ \<Rightarrow> throw (RunnerQueue err)))"

definition iteration_verdict ::
  "('b, 'u, 'c) delivery_runner \<Rightarrow> bool \<Rightarrow> ('b, runner_error, attempt_result) io \<Rightarrow> ('b, unit, loop_next \<times> bool) io" where
  "iteration_verdict rn logged m =
     match_io m
       (\<lambda>res. ret (case res of Progress \<Rightarrow> Continue | Idle \<Rightarrow> loop_next.Sleep idle_tick | Interrupted \<Rightarrow> Stop, logged))
       (\<lambda>err. case err of
          RunnerQueue (DiskFull p) \<Rightarrow>
            bind_io (emit (QueueEv (QueueDiskFull p))) (\<lambda>_.
            ret (loop_next.Sleep (disk_full_backoff (max_attempt_delay (rn_schedule rn))), logged))
        | _ \<Rightarrow>
            bind_io (emit (Warn ''delivery iteration aborted on internal queue error'')) (\<lambda>_.
            ret (loop_next.Sleep idle_tick, logged)))"

definition begin_iteration ::
  "('b, 'u, 'c) delivery_runner \<Rightarrow> bool \<Rightarrow> instant \<Rightarrow> reads \<Rightarrow> bool \<Rightarrow> ('b, unit, loop_next \<times> bool + clip_queue_entry) io" where
  "begin_iteration rn logged now ts shutdown =
     (if shutdown then ret (Inl (Stop, logged))
      else if cert_is_expired (rn_cert_not_after rn) now then
        bind_io (if logged then ret () else emit (DeliveryEv (DeliveryCertExpired (rn_cert_not_after rn)))) (\<lambda>_.
        ret (Inl (loop_next.Sleep cert_expired_tick, True)))
      else
        match_io (claim_next rn ts)
          (\<lambda>x. case x of
             Inl res \<Rightarrow> bind_io (iteration_verdict rn logged (ret res)) (\<lambda>v. ret (Inl v))
           | Inr e \<Rightarrow> ret (Inr e))
          (\<lambda>err. bind_io (iteration_verdict rn logged (throw err)) (\<lambda>v. ret (Inl v))))"

definition end_iteration ::
  "('b, 'u, 'c) delivery_runner \<Rightarrow> bool \<Rightarrow> reads \<Rightarrow> bool \<Rightarrow> clip_queue_entry \<Rightarrow> ('b, unit, loop_next \<times> bool) io" where
  "end_iteration rn logged ts interrupted e = iteration_verdict rn logged (upload_and_record rn ts interrupted e)"

lemma match_match: "match_io (match_io m f g) h k = match_io m (\<lambda>x. match_io (f x) h k) (\<lambda>e. match_io (g e) h k)"
  by (rule ext)+ (simp add: match_io_def split: prod.split res.split)

lemma match_leaf [simp]:
  "match_io (ret x) f g = f x" "match_io (throw e) f g = g e"
  by (rule ext, rule ext, simp add: match_io_def ret_def throw_def)+

lemma match_cong [fundef_cong]:
  "m = m' \<Longrightarrow> (\<And>x. f x = f' x) \<Longrightarrow> (\<And>e. g e = g' e) \<Longrightarrow> match_io m f g = match_io m' f' g'"
  by presburger

lemma try_once_split:
  "try_once rn ts c =
     bind_io (claim_next rn ts) (\<lambda>x. case x of Inl res \<Rightarrow> ret res | Inr e \<Rightarrow> upload_and_record rn ts c e)"
  by (auto simp: try_once_def claim_next_def bind_io_def match_match intro!: match_cong split: option.split queue_error.split)

text \<open>The two halves, one after the other, are the iteration of the loop.\<close>

lemma run_iteration_split:
  "run_iteration rn logged now ts shutdown interrupted =
     bind_io (begin_iteration rn logged now ts shutdown)
       (\<lambda>x. case x of Inl v \<Rightarrow> ret v | Inr e \<Rightarrow> end_iteration rn logged ts interrupted e)"
  unfolding run_iteration_def begin_iteration_def end_iteration_def try_once_split
  by (auto simp: bind_io_def match_match iteration_verdict_def intro!: match_cong
      split: sum.split attempt_result.split queue_error.split runner_error.split)

section \<open>What a start vouches for\<close>

lemma uniform_serve_credentials [simp]:
  "uniform (register_station_key_secrets cl reg)" "uniform (build_from_disk x509 tls)" "uniform (load_identity cl)"
  by (auto simp: register_station_key_secrets_def build_from_disk_def load_identity_def read_to_string_def split: sum.split option.split)

text \<open>Not enrolled: the metadata or the certificate is missing.\<close>

definition not_enrolled :: "cdir world \<Rightarrow> bool" where
  "not_enrolled w \<longleftrightarrow>
     (case look w creds_path of None \<Rightarrow> True | Some d \<Rightarrow> map_of d identity_name = None \<or> map_of d cert_name = None)"

text \<open>Every line of the key file but its armour is registered, and the client talks to the configured upload base.\<close>

definition key_registered :: "cdir world \<Rightarrow> registry \<Rightarrow> bool" where
  "key_registered w reg \<longleftrightarrow>
     (\<exists>d mode pem. look w creds_path = Some d \<and> map_of d key_name = Some (mode, pem) \<and> set (key_secrets pem) \<subseteq> set (secrets reg))"

definition upload_client :: "'u url_api \<Rightarrow> config \<Rightarrow> ('u, 'c) perchpub_client \<Rightarrow> bool" where
  "upload_client api cfg cl \<longleftrightarrow>
     (\<exists>base. upload_base (url_lib.truncate api) cfg = Inr base \<and> url_parse api (trim_end_slashes base) = Some (base_url cl))"

lemma secrets_foldl: "set (secrets (foldl (\<lambda>r t. register_secret t r) reg ss)) = set (secrets reg) \<union> (set ss - {[]})"
  by (induction ss arbitrary: reg) auto

lemma key_secrets_nonempty: "[] \<notin> set (key_secrets pem)"
  by (auto simp: key_secrets_def)

lemma new_client_url: "new_client api built base = Inr cl \<Longrightarrow> url_parse api (trim_end_slashes base) = Some (base_url cl)"
  by (auto simp: new_client_def split: sum.splits option.splits)

lemma build_from_disk_wlp:
  "wlp (build_from_disk x509 tls) (\<lambda>_ w'. w' = w) (\<lambda>_ _. False) (\<lambda>w'. w' = w) w"
  by (auto simp: build_from_disk_def wlp_simps split: option.split)

lemma serve_credentials_wlp:
  assumes "ensure_runtime_ready cfg = Inr ()" "upload_base (url_lib.truncate (sl_api lib)) cfg = Inr base"
  shows "wlp (serve_credentials lib cfg reg)
     (\<lambda>x w'. w' = w \<and> key_registered w (fst (snd x)) \<and> upload_client (sl_api lib) cfg (snd (snd x)))
     (\<lambda>e w'. w' = w \<and> snd e \<noteq> CmdConfig \<and> (snd e = CmdUnrecoverable \<longrightarrow> not_enrolled w)) (\<lambda>w'. w' = w) w"
proof -
  have load: "wlp (load_identity (sl_creds lib)) (\<lambda>_ w'. w' = w)
      (\<lambda>e w'. w' = w \<and> (\<forall>p. e = IdIo p NotFound \<longrightarrow> not_enrolled w)) (\<lambda>w'. w' = w) w"
    by (auto simp: load_identity_def read_to_string_def wlp_simps not_enrolled_def invalid_data_err_def parse_cert_not_after_def
        split: option.split sum.split cert_parse.split)
  have build: "wlp (build_from_disk (sl_x509 lib) (sl_tls lib)) (\<lambda>built. wlp
        (case new_client (sl_api lib) built base of Inl _ \<Rightarrow> throw (reg', CmdIo) | Inr cl \<Rightarrow> ret (identity, reg', cl))
        (\<lambda>x w'. w' = w \<and> key_registered w (fst (snd x)) \<and> upload_client (sl_api lib) cfg (snd (snd x)))
        (\<lambda>e w'. w' = w \<and> snd e \<noteq> CmdConfig \<and> (snd e = CmdUnrecoverable \<longrightarrow> not_enrolled w)) (\<lambda>w'. w' = w))
      (\<lambda>e w'. w' = w \<and> snd e \<noteq> CmdConfig \<and> (snd e = CmdUnrecoverable \<longrightarrow> not_enrolled w)) (\<lambda>w'. w' = w) w"
    if "key_registered w reg'" for reg' identity
    by (rule wlp_mono [OF build_from_disk_wlp])
      (use that assms(2) in \<open>auto simp: wlp_simps upload_client_def dest!: new_client_url split: sum.split\<close>)
  have register: "wlp (register_station_key_secrets (sl_creds lib) reg) (\<lambda>reg' w'. w' = w \<and> key_registered w reg')
      (\<lambda>e w'. w' = w \<and> snd e = CmdIo) (\<lambda>w'. w' = w) w"
    using key_secrets_nonempty
    by (auto simp: register_station_key_secrets_def read_to_string_def wlp_simps key_registered_def secrets_foldl split: option.split)
  have start: "wlp (bind_io (register_station_key_secrets (sl_creds lib) reg) (\<lambda>reg'.
         bind_io (build_from_disk (sl_x509 lib) (sl_tls lib)) (\<lambda>built.
         case new_client (sl_api lib) built base of Inl _ \<Rightarrow> throw (reg', CmdIo) | Inr cl \<Rightarrow> ret (identity, reg', cl))))
      (\<lambda>x w'. w' = w \<and> key_registered w (fst (snd x)) \<and> upload_client (sl_api lib) cfg (snd (snd x)))
      (\<lambda>e w'. w' = w \<and> snd e \<noteq> CmdConfig \<and> (snd e = CmdUnrecoverable \<longrightarrow> not_enrolled w)) (\<lambda>w'. w' = w) w" for identity
    by (simp add: wlp_simps) (rule wlp_mono [OF register], auto intro: build)
  show ?thesis
    by (simp add: serve_credentials_def assms wlp_match)
      (rule wlp_mono [OF load], erule ssubst, rule start, auto simp: wlp_simps split: identity_error.split io_error.split)
qed

lemma serve_credentials_pure:
  assumes "serve_credentials lib cfg reg cw fs = (r, cw', fs')"
  shows "cw' = cw"
proof (cases "\<exists>base. ensure_runtime_ready cfg = Inr () \<and> upload_base (url_lib.truncate (sl_api lib)) cfg = Inr base")
  case True
  then obtain base where "ensure_runtime_ready cfg = Inr ()" "upload_base (url_lib.truncate (sl_api lib)) cfg = Inr base" by blast
  from wlp_run [OF serve_credentials_wlp [OF this] assms] show ?thesis by (cases r) auto
next
  case False
  then show ?thesis using assms
    by (cases "ensure_runtime_ready cfg"; cases "upload_base (url_lib.truncate (sl_api lib)) cfg") (auto simp: serve_credentials_def throw_def)
qed

text \<open>The errors a program can end with.\<close>

definition only_errs :: "('e \<Rightarrow> bool) \<Rightarrow> ('b, 'e, 'a) io \<Rightarrow> bool" where
  "only_errs P x \<longleftrightarrow> (\<forall>w fs e w' fs'. x w fs = (Err e, w', fs') \<longrightarrow> P e)"

lemma only_errs_leaves [simp]:
  "only_errs P (ret x)" "only_errs P (emit ev)" "only_errs P crash_now" "only_errs P (throw e) = P e"
  by (auto simp: only_errs_def ret_def emit_def crash_now_def throw_def)

lemma only_errs_match [simp]:
  "(\<And>v. only_errs P (f v)) \<Longrightarrow> (\<And>e. only_errs P (g e)) \<Longrightarrow> only_errs P (match_io x f g)"
  unfolding only_errs_def by (auto simp: match_io_def split: prod.splits res.splits)

lemma only_errs_bind [simp]:
  "only_errs P x \<Longrightarrow> (\<And>v. only_errs P (k v)) \<Longrightarrow> only_errs P (bind_io x k)"
  unfolding only_errs_def by (fastforce simp: bind_io_def match_io_def throw_def split: prod.splits res.splits)

lemma only_errs_map [simp]: "(\<And>e. P (h e)) \<Longrightarrow> only_errs P (map_err h x)"
  by (simp add: map_err_def)

lemma serve_boot_errors: "only_errs (\<lambda>e. e = CmdIo) (serve_boot pt cfg tick0 identity cl)"
proof -
  have recovered: "only_errs P (emit_recovered_entries es)" for P :: "command_error \<Rightarrow> bool" and es by (induction es) auto
  have queue: "only_errs (\<lambda>e. e = CmdIo) (prepare_queue (pt_codec pt) sid)" for sid
    by (auto simp: prepare_queue_def purge_capture_staging_or_disable_def recovered)
  have task: "only_errs P (spawn_capture_task pt cfg purged)" for P :: "command_error \<Rightarrow> bool" and purged
    by (auto simp: spawn_capture_task_def start_capture_def Let_def split: option.split sum.split)
  show ?thesis by (auto simp: serve_boot_def queue task split: prod.split)
qed

lemma serve_boot_client:
  "serve_boot pt cfg tick0 identity cl w fs = (Ok sr, w', fs') \<Longrightarrow> rn_client (sr_runner sr) = cl \<and> pl_client (sr_poller sr) = cl"
  by (auto simp: serve_boot_def bind_io_def match_io_def ret_def throw_def new_runner_def new_poller_def with_retention_hours_def
      split: prod.splits res.splits)

text \<open>
  C3: What a start vouches for, whatever the host injects. The credentials are only read. Exit code 70 is
  answered exactly for a configuration that cannot run, and 76 only when the station is not enrolled; neither touches the
  queue. When the workers run, every line of the station's private key is known to the log filter, and both
  network workers share one client, which talks to the configured upload base.
\<close>

theorem serve_start_gates:
  assumes run: "serve_start lib pt cfg tick0 reg (cw, cfs) (w, qfs) = (r, cw', w')"
  shows "cw' = cw \<and>
    (r = Err CmdConfig \<longleftrightarrow> ensure_runtime_ready cfg \<noteq> Inr () \<or> (\<forall>base. upload_base (url_lib.truncate (sl_api lib)) cfg \<noteq> Inr base)) \<and>
    (r = Err CmdUnrecoverable \<longrightarrow> not_enrolled cw) \<and>
    (r \<in> {Err CmdConfig, Err CmdUnrecoverable} \<longrightarrow> w' = w) \<and>
    (\<forall>reg' sr. r = Ok (reg', sr) \<longrightarrow> key_registered cw reg' \<and> upload_client (sl_api lib) cfg (rn_client (sr_runner sr)) \<and>
       pl_client (sr_poller sr) = rn_client (sr_runner sr))"
proof (cases "ensure_runtime_ready cfg = Inr () \<and> (\<exists>base. upload_base (url_lib.truncate (sl_api lib)) cfg = Inr base)")
  case False
  then have "serve_credentials lib cfg reg cw cfs = (Err (reg, CmdConfig), cw, cfs)"
    by (cases "ensure_runtime_ready cfg"; cases "upload_base (url_lib.truncate (sl_api lib)) cfg") (auto simp: serve_credentials_def throw_def)
  then show ?thesis using run False by (auto simp: serve_start_def)
next
  case True
  then obtain base where ok: "ensure_runtime_ready cfg = Inr ()" "upload_base (url_lib.truncate (sl_api lib)) cfg = Inr base" by blast
  obtain r1 cw1 cfs1 where c: "serve_credentials lib cfg reg cw cfs = (r1, cw1, cfs1)" by (cases "serve_credentials lib cfg reg cw cfs") auto
  note creds = wlp_run [OF serve_credentials_wlp [OF ok] c]
  show ?thesis
  proof (cases r1)
    case (Ok x)
    obtain identity reg1 cl where x: "x = (identity, reg1, cl)" by (cases x) auto
    obtain r2 w2 fs2 where b: "serve_boot pt cfg tick0 identity cl w qfs = (r2, w2, fs2)"
      by (cases "serve_boot pt cfg tick0 identity cl w qfs") auto
    have io: "r2 = Err e \<Longrightarrow> e = CmdIo" for e
      using serve_boot_errors [unfolded only_errs_def, rule_format, of pt cfg tick0 identity cl w qfs] b by blast
    have cl: "r2 = Ok sr \<Longrightarrow> rn_client (sr_runner sr) = cl \<and> pl_client (sr_poller sr) = cl" for sr
      using serve_boot_client b by blast
    show ?thesis using run c creds b Ok x ok io cl by (cases r2) (auto simp: serve_start_def)
  qed (use run c creds ok in \<open>auto simp: serve_start_def\<close>)
qed

section \<open>Booting on a working host\<close>

lemma run_emit_recovered:
  "emit_recovered_entries es w fs = (Ok (), w\<lparr>journal := journal w @ map (\<lambda>e. QueueEv (QueueRecoveredInflight (clip_id e))) es\<rparr>, fs)"
  by (induction es arbitrary: w) (auto simp: run_simps)

lemma run_count_loop:
  "k \<le> u32_max \<Longrightarrow> count_pending_loop ns k w [] = (Ok (min u32_max (k + length (filter (has_ext ''json'') ns))), w, [])"
  by (induction ns arbitrary: k) (auto simp: run_simps sat_add_def min_def)

lemma run_count_pending:
  "count_pending w [] = (Ok (min u32_max (length (filter (has_ext ''json'') (listing PendingDir (files w))))), w, [])"
  by (simp add: count_pending_def run_simps run_count_loop)

text \<open>The purge leaves everything outside the staging directory alone and adds to the log.\<close>

definition staging_purged :: "'b world \<Rightarrow> 'b world \<Rightarrow> bool" where
  "staging_purged w w' \<longleftrightarrow> (\<forall>d. d \<noteq> StagingDir \<longrightarrow> filter (\<lambda>x. fst (fst x) = d) (files w') = filter (\<lambda>x. fst (fst x) = d) (files w)) \<and>
     set (journal w) \<subseteq> set (journal w')"

lemma staging_purged_delete: "staging_purged (w\<lparr>files := AList.delete (StagingDir, n) (files w)\<rparr>) w' \<Longrightarrow> staging_purged w w'"
  unfolding staging_purged_def by (auto simp: AList.delete_eq intro!: filter_cong)

lemma run_purge_loop: "\<exists>rep' w'. purge_loop cd ns rep w [] = (Ok rep', w', []) \<and> staging_purged w w'"
proof (induction ns arbitrary: rep w)
  case Nil
  then show ?case by (simp add: run_simps staging_purged_def)
next
  case (Cons n ns)
  show ?case
  proof (cases "look w (StagingDir, n)")
    case None
    then show ?thesis using Cons by (simp add: run_simps)
  next
    case (Some b)
    obtain rep' w' where "purge_loop cd ns \<lparr> removed_files = sat_add u32_max (removed_files rep) 1,
        removed_bytes = sat_add u64_max (removed_bytes rep) (blen cd b) \<rparr> (w\<lparr>files := AList.delete (StagingDir, n) (files w)\<rparr>) [] = (Ok rep', w', [])"
      "staging_purged (w\<lparr>files := AList.delete (StagingDir, n) (files w)\<rparr>) w'"
      using Cons by blast
    then show ?thesis using Some staging_purged_delete by (auto simp: run_simps)
  qed
qed

lemma run_purge: "\<exists>rep w'. purge_capture_staging_or_disable cd w [] = (Ok (Some rep), w', []) \<and> staging_purged w w'"
proof -
  obtain rep w' where "purge_loop cd (listing StagingDir (files w)) \<lparr> removed_files = 0, removed_bytes = 0 \<rparr> w [] = (Ok rep, w', [])" "staging_purged w w'"
    using run_purge_loop by blast
  then show ?thesis by (auto simp: purge_capture_staging_or_disable_def purge_def run_simps staging_purged_def)
qed

lemma map_of_dir: "map_of fl p = map_of (filter (\<lambda>x. fst (fst x) = fst p) fl) p"
  by (induction fl) auto

lemma staging_purged_look: "staging_purged w w' \<Longrightarrow> fst p \<noteq> StagingDir \<Longrightarrow> look w' p = look w p"
  unfolding staging_purged_def using map_of_dir [of "files w" p] map_of_dir [of "files w'" p] by simp

lemma staging_purged_listing: "staging_purged w w' \<Longrightarrow> d \<noteq> StagingDir \<Longrightarrow> listing d (files w') = listing d (files w)"
  by (simp add: staging_purged_def listing_def)

lemma staging_purged_phase: "staging_purged w w' \<Longrightarrow> phase_of cd cid w' = phase_of cd cid w"
  by (simp add: phase_of_def staging_purged_look)

lemma phase_of_journal [simp]: "phase_of cd cid (w\<lparr>journal := j\<rparr>) = phase_of cd cid w"
  by (simp add: phase_of_def)

text \<open>When the capture worker starts: the hardware section decodes and validates, and the sensor opens.\<close>

definition capture_starts :: "('b, 'u, 'c) plant \<Rightarrow> bool" where
  "capture_starts pt \<longleftrightarrow> (\<exists>hw s. pt_hw pt = Inr hw \<and> validate_hw hw = Inr () \<and>
     new_gpio_sensor (pt_gpio pt (sensor_gpiochip hw) (sensor_line hw)) (sensor_active_high hw) = Inr s)"

lemma run_spawn_capture:
  assumes "new_capture (pt_limits pt) (capture_section cfg) = Some sv"
  shows "\<exists>c evs. spawn_capture_task pt cfg (Some rep) w [] = (Ok c, w\<lparr>journal := journal w @ evs\<rparr>, []) \<and> (c \<noteq> None \<longleftrightarrow> capture_starts pt)"
  using assms by (auto simp: spawn_capture_task_def start_capture_def capture_starts_def run_simps Let_def split: sum.split)

lemma run_prepare_queue:
  fixes cd :: "'b codec" and w :: "'b world"
  assumes "codec_ok cd" "wf_world w" "inflight_filed cd w"
  shows "\<exists>es w1 w' n rep. reconcile_inflight cd w [] = (Ok es, w1, []) \<and> prepare_queue cd sid w [] = (Ok (n, Some rep), w', []) \<and>
    set es = {requeued e |e n. filed_entry cd w InflightDir n e \<and> \<not> is_terminal e} \<and>
    (\<forall>cid. phase_of cd cid w' = phase_of cd cid w1) \<and>
    (\<forall>e \<in> set es. QueueEv (QueueRecoveredInflight (clip_id e)) \<in> set (journal w')) \<and>
    ServiceEv (ServiceReady sid n) \<in> set (journal w') \<and>
    n = min u32_max (length (filter (has_ext ''json'') (listing PendingDir (files w'))))"
proof -
  obtain es w1 where rec: "reconcile_inflight cd w [] = (Ok es, w1, [])"
    and es: "set es = {requeued e |e n. filed_entry cd w InflightDir n e \<and> \<not> is_terminal e}"
    using run_reconcile [OF assms] by (elim exE conjE) (rule that)
  define w2 where "w2 = w1\<lparr>journal := journal w1 @ map (\<lambda>e. QueueEv (QueueRecoveredInflight (clip_id e))) es\<rparr>"
  obtain rep w3 where purge: "(purge_capture_staging_or_disable cd :: ('b, command_error, purge_report option) io) w2 [] = (Ok (Some rep), w3, [])" and p: "staging_purged w2 w3"
    using run_purge by blast
  let ?n = "min u32_max (length (filter (has_ext ''json'') (listing PendingDir (files w2))))"
  have run: "prepare_queue cd sid w [] = (Ok (?n, Some rep), w3\<lparr>journal := journal w3 @ [ServiceEv (ServiceReady sid ?n)]\<rparr>, [])"
    using rec purge by (simp add: prepare_queue_def open_store_def run_simps run_emit_recovered run_count_pending flip: w2_def)
  have "phase_of cd cid w3 = phase_of cd cid w1" for cid
    using staging_purged_phase [OF p] by (simp add: w2_def)
  moreover have "\<forall>e \<in> set es. QueueEv (QueueRecoveredInflight (clip_id e)) \<in> set (journal w3)"
    using p by (auto simp: staging_purged_def w2_def)
  ultimately show ?thesis using rec run es staging_purged_listing [OF p, of PendingDir] by simp
qed

lemma clip_id_requeued [simp]: "clip_id (requeued e) = clip_id e"
  by (simp add: requeued_def)

text \<open>The queue after a boot: clips in flight are back or done, and those that are back are in the log; the others stay.\<close>

definition resumed :: "'b codec \<Rightarrow> 'b world \<Rightarrow> 'b world \<Rightarrow> bool" where
  "resumed cd w w' \<longleftrightarrow>
     (\<forall>cid e m. cid \<noteq> [] \<longrightarrow> phase_of cd cid w = Flying e m \<longrightarrow>
        (if is_terminal e then phase_of cd cid w' = Done e
         else phase_of cd cid w' = Waiting (requeued e) m \<and> QueueEv (QueueRecoveredInflight cid) \<in> set (journal w'))) \<and>
     (\<forall>cid e m. cid \<noteq> [] \<longrightarrow> phase_of cd cid w \<in> {Waiting e m, Done e} \<longrightarrow> phase_of cd cid w' = phase_of cd cid w)"

lemma resumed_logs: "resumed cd w w' \<Longrightarrow> resumed cd w (w'\<lparr>journal := journal w' @ evs\<rparr>)"
  unfolding resumed_def by (auto split: if_splits)

lemma prepare_queue_resumes:
  assumes "codec_ok cd" "wf_world w" "inflight_filed cd w"
  shows "\<exists>w' n rep. prepare_queue cd sid w [] = (Ok (n, Some rep), w', []) \<and> resumed cd w w' \<and>
    ServiceEv (ServiceReady sid n) \<in> set (journal w') \<and>
    n = min u32_max (length (filter (has_ext ''json'') (listing PendingDir (files w'))))"
proof -
  obtain es w1 w2 n rep where rec: "reconcile_inflight cd w [] = (Ok es, w1, [])"
    and prep: "prepare_queue cd sid w [] = (Ok (n, Some rep), w2, [])"
    and es: "set es = {requeued e |e n. filed_entry cd w InflightDir n e \<and> \<not> is_terminal e}"
    and ph2: "\<And>cid. phase_of cd cid w2 = phase_of cd cid w1"
    and logged: "\<And>e. e \<in> set es \<Longrightarrow> QueueEv (QueueRecoveredInflight (clip_id e)) \<in> set (journal w2)"
    and ready: "ServiceEv (ServiceReady sid n) \<in> set (journal w2)"
      "n = min u32_max (length (filter (has_ext ''json'') (listing PendingDir (files w2))))"
    using run_prepare_queue [OF assms, where sid = sid] by blast
  have recovered: "QueueEv (QueueRecoveredInflight cid) \<in> set (journal w2)"
    if "cid \<noteq> []" "phase_of cd cid w = Flying e m" "\<not> is_terminal e" for cid e m
    using logged [of "requeued e"] flying_filed [OF assms(3) that(1,2)] es that(3) by (auto simp: filed_entry_def)
  have "resumed cd w w2"
    unfolding resumed_def using reboot_flying [OF assms _ _ rec] reboot_stays [OF assms _ _ rec] recovered by (simp add: ph2)
  then show ?thesis using prep ready by blast
qed

text \<open>
  C2: A restart resumes the work. With readable credentials, a store left in any state by the last run, and a host
  that works, the command comes up: every clip that was in flight waits again with its recording and a
  cleared backoff and is logged as recovered, or is done when its record says so; clips that wait or are done
  stay; the ready event carries the number of sidecars in \<open>pending/\<close>; and the capture worker runs exactly
  when the hardware section is valid and the sensor opens, while the two network workers run in any case.
\<close>

theorem serve_resumes:
  fixes pt :: "('b, 'u, 'c) plant" and w :: "'b world"
  assumes "codec_ok (pt_codec pt)" "wf_world w" "inflight_filed (pt_codec pt) w"
    and creds: "serve_credentials lib cfg reg cw [] = (Ok (identity, reg', cl), cw, [])"
    and "new_capture (pt_limits pt) (capture_section cfg) = Some sv"
  shows "\<exists>sr w' n. serve_start lib pt cfg tick0 reg (cw, []) (w, []) = (Ok (reg', sr), cw, w') \<and>
    (\<forall>cid e m. cid \<noteq> [] \<longrightarrow> phase_of (pt_codec pt) cid w = Flying e m \<longrightarrow>
       (if is_terminal e then phase_of (pt_codec pt) cid w' = Done e
        else phase_of (pt_codec pt) cid w' = Waiting (requeued e) m \<and> QueueEv (QueueRecoveredInflight cid) \<in> set (journal w'))) \<and>
    (\<forall>cid e m. cid \<noteq> [] \<longrightarrow> phase_of (pt_codec pt) cid w \<in> {Waiting e m, Done e} \<longrightarrow> phase_of (pt_codec pt) cid w' = phase_of (pt_codec pt) cid w) \<and>
    ServiceEv (ServiceReady (station_id identity) n) \<in> set (journal w') \<and>
    n = min u32_max (length (filter (has_ext ''json'') (listing PendingDir (files w')))) \<and>
    sr_flight sr = None \<and> (sr_capture sr \<noteq> None \<longleftrightarrow> capture_starts pt)"
proof -
  obtain w2 n rep where prep: "prepare_queue (pt_codec pt) (station_id identity) w [] = (Ok (n, Some rep), w2, [])" "resumed (pt_codec pt) w w2"
    and ready: "ServiceEv (ServiceReady (station_id identity) n) \<in> set (journal w2)"
      "n = min u32_max (length (filter (has_ext ''json'') (listing PendingDir (files w2))))"
    using prepare_queue_resumes [OF assms(1-3)] by blast
  obtain c :: "('b capture_env \<times> supervisor) option" and evs where
    spawn: "(spawn_capture_task pt cfg (Some rep) :: ('b, command_error, _) io) w2 [] = (Ok c, w2\<lparr>journal := journal w2 @ evs\<rparr>, [])"
    and c: "c \<noteq> None \<longleftrightarrow> capture_starts pt"
    using run_spawn_capture [OF assms(5)] by blast
  let ?w = "w2\<lparr>journal := journal w2 @ evs\<rparr>"
  obtain sr where start: "serve_start lib pt cfg tick0 reg (cw, []) (w, []) = (Ok (reg', sr), cw, ?w)"
    and sr: "sr_flight sr = None" "sr_capture sr = c"
    using creds prep(1) spawn by (auto simp: serve_start_def serve_boot_def run_simps)
  have ready': "ServiceEv (ServiceReady (station_id identity) n) \<in> set (journal ?w)"
    "n = min u32_max (length (filter (has_ext ''json'') (listing PendingDir (files ?w))))" using ready by simp_all
  have workers: "sr_capture sr \<noteq> None \<longleftrightarrow> capture_starts pt" using sr(2) c by simp
  note back_again = resumed_logs [OF prep(2), of evs, unfolded resumed_def]
  show ?thesis
    by (rule exI [of _ sr], rule exI [of _ ?w], rule exI [of _ n], intro conjI)
      (fact start back_again [THEN conjunct1] back_again [THEN conjunct2] ready' sr(1) workers)+
qed

section \<open>Renewed credentials\<close>

text \<open>What hangups do to a service: the client is the last one that could be built, nothing else changes.\<close>

definition with_client :: "('u, 'c) perchpub_client \<Rightarrow> ('b, 'u, 'c) service \<Rightarrow> ('b, 'u, 'c) service" where
  "with_client cl sr = sr\<lparr>sr_runner := (sr_runner sr)\<lparr>rn_client := cl\<rparr>, sr_poller := (sr_poller sr)\<lparr>pl_client := cl\<rparr>\<rparr>"

lemma with_client_sel [simp]:
  "rn_client (sr_runner (with_client cl sr)) = cl" "pl_client (sr_poller (with_client cl sr)) = cl"
  "rn_cert_not_after (sr_runner (with_client cl sr)) = rn_cert_not_after (sr_runner sr)"
  "with_client cl (with_client cl' sr) = with_client cl sr"
  by (simp_all add: with_client_def)

lemma with_client_same: "pl_client (sr_poller sr) = rn_client (sr_runner sr) \<Longrightarrow> with_client (rn_client (sr_runner sr)) sr = sr"
  by (simp add: with_client_def)

fun rebuilt :: "'c signal list \<Rightarrow> 'c list" where
  "rebuilt (SigHup (Inr c) # sigs) = c # rebuilt sigs"
| "rebuilt (SigHup (Inl _) # sigs) = rebuilt sigs"
| "rebuilt _ = []"

definition reloaded :: "'c list \<Rightarrow> ('u, 'c) perchpub_client \<Rightarrow> ('u, 'c) perchpub_client" where
  "reloaded cs cl = (if cs = [] then cl else cl\<lparr>inner_client := last cs\<rparr>)"

lemma run_await:
  assumes "pl_client (sr_poller sr) = rn_client (sr_runner sr)"
  shows "\<exists>reason w'. await_shutdown sigs sr w fs = (Ok (reason, with_client (reloaded (rebuilt sigs) (rn_client (sr_runner sr))) sr), w', fs) \<and>
    files w' = files w"
  using assms
proof (induction sigs sr arbitrary: w rule: await_shutdown.induct)
  case (4 built sigs sr)
  show ?case
  proof (cases built)
    case (Inl err)
    then show ?thesis
      using 4(1) [of sr "w\<lparr>journal := journal w @ [Warn ''credential reload failed; keeping the previous identity'']\<rparr>"] 4(2)
      by (simp add: run_simps reload_service_def reload_client_def)
  next
    case (Inr c)
    let ?sr = "with_client ((rn_client (sr_runner sr))\<lparr>inner_client := c\<rparr>) sr"
    have "reload_service built sr w fs = (Ok ?sr, w\<lparr>journal := journal w @ [ServiceEv ServiceCredentialsReloaded]\<rparr>, fs)"
      using Inr by (simp add: run_simps reload_service_def reload_client_def with_client_def)
    then show ?thesis
      using 4(1) [of ?sr "w\<lparr>journal := journal w @ [ServiceEv ServiceCredentialsReloaded]\<rparr>"] Inr
      by (simp add: run_simps reloaded_def split: if_splits)
  qed
qed (auto simp: run_simps reloaded_def with_client_same)

text \<open>
  C38: A renewal takes effect for the connection but not for the expiry. After any hangups, the last of them with usable
  credentials, both network workers present the new certificate; but once the certificate of the start has expired, every
  iteration of the delivery loop still sleeps without touching the queue. Only a restart ends that.
\<close>

theorem renewal_needs_restart:
  assumes boot: "serve_boot pt cfg tick0 identity cl w fs = (Ok sr, w1, fs1)"
    and renewed: "rebuilt sigs \<noteq> []" and expired: "cert_is_expired (cert_not_after identity) now"
  shows "\<exists>reason sr' w2 w3. await_shutdown sigs sr w1 fs1 = (Ok (reason, sr'), w2, fs1) \<and>
    inner_client (rn_client (sr_runner sr')) = last (rebuilt sigs) \<and> pl_client (sr_poller sr') = rn_client (sr_runner sr') \<and>
    run_iteration (sr_runner sr') logged now ts False interrupted w2 fs2 = (Ok (loop_next.Sleep cert_expired_tick, True), w3, fs2) \<and>
    files w3 = files w1"
proof -
  have cl: "rn_client (sr_runner sr) = cl" "pl_client (sr_poller sr) = cl"
    using serve_boot_client [OF boot] by simp_all
  have na: "rn_cert_not_after (sr_runner sr) = cert_not_after identity"
    using boot by (auto simp: serve_boot_def bind_io_def match_io_def ret_def throw_def new_runner_def split: prod.splits res.splits)
  let ?sr = "with_client (reloaded (rebuilt sigs) cl) sr"
  obtain reason w2 where await: "await_shutdown sigs sr w1 fs1 = (Ok (reason, ?sr), w2, fs1)" "files w2 = files w1"
    using run_await [of sr sigs w1 fs1] cl by auto
  have "\<exists>w3. run_iteration (sr_runner ?sr) logged now ts False interrupted w2 fs2 = (Ok (loop_next.Sleep cert_expired_tick, True), w3, fs2) \<and>
      files w3 = files w2"
    using expired na by (auto simp: run_iteration_def run_simps)
  moreover have "inner_client (rn_client (sr_runner ?sr)) = last (rebuilt sigs)" using renewed by (simp add: reloaded_def)
  ultimately show ?thesis using await by fastforce
qed

section \<open>Examples\<close>

definition ex_plant :: "(blob, string, unit) plant" where
  "ex_plant = \<lparr> pt_codec = blob_codec, pt_http = ex_env, pt_display = (\<lambda>_. ''error''), pt_fp = fp_exact, pt_jitter = Fin (1 / 5),
     pt_limits = chrono, pt_dt_min = 0, pt_camera = ex_host 9 (Some 0) NoDrop, pt_fmt = (\<lambda>_. ''T''),
     pt_io_text = (\<lambda>_. ''io''), pt_path_text = snd, pt_json_text = ''json'', pt_hw = Inr default_hw_config, pt_gpio = (\<lambda>_ _. ex_gpio) \<rparr>"

lemma ex_plant_codec [simp]: "pt_codec ex_plant = blob_codec"
  by (simp add: ex_plant_def)

definition ex_serve_lib :: "(string, unit, string) serve_lib" where
  "ex_serve_lib = \<lparr> sl_creds = ex_cred_lib, sl_api = ex_api, sl_x509 = (\<lambda>_. None), sl_tls = (\<lambda>_ _. Inr ()) \<rparr>"

definition ex_creds :: "cdir world" where
  "ex_creds = \<lparr> files = [(creds_path, [(identity_name, (384, ''1111'')), (key_name, (384, ''k3y'')), (cert_name, (384, ''cert'')),
     (chain_name, (384, ''ca''))])], seq = 0, journal = [] \<rparr>"

definition ex_station_id :: station_identity where
  "ex_station_id = \<lparr> station_id = 4, enrolled_at = 0, si_perchpub_url = [], cert_not_after = 4000000000 \<rparr>"

lemma ex_upload_base: "upload_base (url_lib.truncate ex_api) ex_config = Inr ''https://p''"
  by (simp add: upload_base_def ex_config_def default_config_def is_set_def derive_upload_url_def url_lib.defs ex_api_def trim_end_slashes_def)

lemma ex_creds_look:
  "look ex_creds creds_path = Some [(''identity.json'', (384, ''1111'')), (''station.key'', (384, ''k3y'')),
     (''station.crt'', (384, ''cert'')), (''ca_chain.pem'', (384, ''ca''))]"
  by (simp add: ex_creds_def cred_names)

lemma ex_cred_lib_sel: "valid_utf8 ex_cred_lib s" "json_dec ex_cred_lib ''1111'' = Some \<lparr> if_station_id = 4, if_enrolled_at = 0, if_perchpub_url = [] \<rparr>"
  by (simp_all add: ex_cred_lib_def get_nat_def)

lemma ex_key_secrets: "key_secrets ''k3y'' = [''k3y'']"
  by (simp add: key_secrets_def str_lines_def trim_spaces_def is_space_def starts_with_def)

lemma ex_build: "new_client ex_api (build_inner (\<lambda>_. None) (\<lambda>_ _. Inr ()) (Inr c) (Inr k) (Inr ca)) ''https://p'' = Inr \<lparr> base_url = ''https://p'', inner_client = () \<rparr>"
  by (simp add: new_client_def build_inner_def Let_def ex_api_def trim_end_slashes_def)

lemma ex_serve_credentials:
  "serve_credentials ex_serve_lib ex_config new_registry ex_creds [] =
     (Ok (ex_station_id, register_secret ''k3y'' new_registry, \<lparr> base_url = ''https://p'', inner_client = () \<rparr>), ex_creds, [])"
  by (simp add: serve_credentials_def ex_config_ready ex_serve_lib_def ex_upload_base run_simps ex_creds_look ex_cred_lib_sel
      load_identity_def read_to_string_def register_station_key_secrets_def build_from_disk_def cred_names ex_key_secrets ex_build ex_station_id_def)

lemma ex_supervisor_built: "\<exists>sv. new_capture (pt_limits ex_plant) (capture_section ex_config) = Some sv"
  by (simp add: ex_plant_def ex_config_def new_capture_def new_tracker_def delta_seconds_def chrono_def i64_max_def default_config_def
      default_capture_config_def)

lemma ex_capture_starts: "capture_starts ex_plant"
  by (simp add: capture_starts_def ex_plant_def validate_hw_def default_hw_config_def new_gpio_sensor_def ex_gpio_def)

theorem serve_resumes_witness:
  "\<exists>sr w' n. serve_start ex_serve_lib ex_plant ex_config 0 new_registry (ex_creds, []) (ex_flying, []) =
       (Ok (register_secret ''k3y'' new_registry, sr), ex_creds, w') \<and>
     phase_of blob_codec ''a'' w' = Waiting (requeued (mark_attempt 30 ex_entry)) (Bytes 5) \<and>
     QueueEv (QueueRecoveredInflight ''a'') \<in> set (journal w') \<and> sr_capture sr \<noteq> None"
proof -
  obtain sv where sv: "new_capture (pt_limits ex_plant) (capture_section ex_config) = Some sv" using ex_supervisor_built by blast
  have "codec_ok (pt_codec ex_plant)" "inflight_filed (pt_codec ex_plant) ex_flying" by simp_all
  from serve_resumes [where ?tick0.0 = 0, OF this(1) ex_wf(2) this(2) ex_serve_credentials sv]
  obtain sr w' where "serve_start ex_serve_lib ex_plant ex_config 0 new_registry (ex_creds, []) (ex_flying, []) =
       (Ok (register_secret ''k3y'' new_registry, sr), ex_creds, w')"
    and "\<forall>cid e m. cid \<noteq> [] \<longrightarrow> phase_of blob_codec cid ex_flying = Flying e m \<longrightarrow>
       (if is_terminal e then phase_of blob_codec cid w' = Done e
        else phase_of blob_codec cid w' = Waiting (requeued e) m \<and> QueueEv (QueueRecoveredInflight cid) \<in> set (journal w'))"
    and "sr_capture sr \<noteq> None \<longleftrightarrow> capture_starts ex_plant"
    unfolding ex_plant_codec by (elim exE conjE) (rule that)
  then show ?thesis using ex_capture_starts by simp
qed

theorem serve_start_gates_witness:
  "\<exists>r w'. serve_start ex_serve_lib ex_plant ex_config 0 new_registry (ex_enrolled, [NoFault]) (ex_flying, []) = (r, ex_enrolled, w') \<and>
     (r = Err CmdConfig \<longrightarrow> w' = ex_flying) \<and> r \<noteq> Err CmdConfig"
proof -
  obtain r cw w' where run: "serve_start ex_serve_lib ex_plant ex_config 0 new_registry (ex_enrolled, [NoFault]) (ex_flying, []) = (r, cw, w')"
    by (cases "serve_start ex_serve_lib ex_plant ex_config 0 new_registry (ex_enrolled, [NoFault]) (ex_flying, [])") auto
  have "sl_api ex_serve_lib = ex_api" by (simp add: ex_serve_lib_def)
  then show ?thesis using serve_start_gates [OF run] run ex_upload_base ex_config_ready by auto
qed

definition ex_id :: station_identity where
  "ex_id = \<lparr> station_id = 4, enrolled_at = 0, si_perchpub_url = ''https://h'', cert_not_after = 1000 \<rparr>"

lemma ex_boot:
  "case serve_boot ex_plant default_config 0 ex_id ex_client (ex_waiting\<lparr>seq := 0\<rparr>) [] of
     (r, w', fs') \<Rightarrow> (case r of Ok sr \<Rightarrow> sr_flight sr = None \<and> sr_runner sr = new_runner ex_plant default_config ex_id ex_client \<and>
       files w' = files ex_waiting | _ \<Rightarrow> False)"
  by (simp add: exec_simps serve_boot_def prepare_queue_def open_store_def count_pending_def purge_capture_staging_or_disable_def purge_def
      spawn_capture_task_def start_capture_def new_gpio_sensor_def ex_gpio_def ex_plant_def ex_id_def ex_waiting_def validate_hw_def default_hw_config_def
      new_capture_def new_tracker_def delta_seconds_def chrono_def i64_max_def default_config_def default_capture_config_def sat_add_def u32_max_def)


theorem renewal_needs_restart_witness:
  "\<exists>sr w1 fs1. serve_boot ex_plant default_config 0 ex_id ex_client (ex_waiting\<lparr>seq := 0\<rparr>) [] = (Ok sr, w1, fs1) \<and>
     (\<exists>reason sr' w2 w3. await_shutdown [SigHup (Inl (TlsConfig ''x'')), SigHup (Inr ()), SigTerm] sr w1 fs1 = (Ok (reason, sr'), w2, fs1) \<and>
        run_iteration (sr_runner sr') False 1000 ex_reads False False w2 [] = (Ok (loop_next.Sleep cert_expired_tick, True), w3, []) \<and>
        files w3 = files w1)"
proof -
  obtain sr w1 fs1 where boot: "serve_boot ex_plant default_config 0 ex_id ex_client (ex_waiting\<lparr>seq := 0\<rparr>) [] = (Ok sr, w1, fs1)"
    using ex_boot by (auto split: prod.splits res.splits)
  have "cert_is_expired (cert_not_after ex_id) 1000" by (simp add: ex_id_def cert_is_expired_def)
  from renewal_needs_restart [OF boot _ this, of "[SigHup (Inl (TlsConfig ''x'')), SigHup (Inr ()), SigTerm]" False ex_reads False "[]"]
  show ?thesis using boot by auto
qed

end
