(* ===== verification/Station.thy ===== *)
theory Station
  imports Serve
begin

text \<open>
  The station as a whole: a transition system over the disk and the running service, and what it never does. A turn of
  a worker is a run of its model from the theories below, under any fault schedule for the delivery loop and the poller and on
  a working host for the capture worker; the process can die at every system call of the delivery loop, the poller and the boot,
  and between any two turns.
\<close>

section \<open>What is known of a clip\<close>

text \<open>The recording is in exactly one place, and the pending sidecar, if there is one, can be read.\<close>

definition in_queue :: "'b codec \<Rightarrow> string \<Rightarrow> 'b \<Rightarrow> 'b world \<Rightarrow> bool" where
  "in_queue cd cid m w \<longleftrightarrow> media_once cid m w \<and>
     (\<forall>b. look w (sidecar_at PendingDir cid) = Some b \<longrightarrow> dec cd b \<noteq> None)"

text \<open>A terminal record of the clip is on disk, promoted or about to be.\<close>

definition filed_as_done :: "'b codec \<Rightarrow> string \<Rightarrow> 'b world \<Rightarrow> bool" where
  "filed_as_done cd cid w \<longleftrightarrow> (\<exists>e. clip_id e = cid \<and> is_terminal e \<and>
     (holds_entry cd w (sidecar_at InflightDir cid) e \<or> holds_entry cd w (sidecar_at DeliveredDir cid) e))"

text \<open>The log says that the clip was evicted, or that its recording was swept as an orphan.\<close>

definition reported_gone :: "string \<Rightarrow> 'b world \<Rightarrow> bool" where
  "reported_gone cid w \<longleftrightarrow>
     (\<exists>reason policy clips bytes. QueueEv (QueueEvicted cid reason policy clips bytes) \<in> set (journal w)) \<or>
     (\<exists>d. QueueEv (QueueOrphanMedia (media_at d cid)) \<in> set (journal w))"

lemma queue_journal [simp]:
  "in_queue cd cid m (w\<lparr>journal := j\<rparr>) = in_queue cd cid m w"
  "filed_as_done cd cid (w\<lparr>journal := j\<rparr>) = filed_as_done cd cid w"
  "in_queue cd cid m (w\<lparr>seq := s\<rparr>) = in_queue cd cid m w"
  by (simp_all add: in_queue_def filed_as_done_def media_once_def holds_entry_def)

lemma foreign_in_queue:
  assumes "footprint P x" "in_queue cd cid m w"
    and "media_at PendingDir cid \<notin> P" "media_at InflightDir cid \<notin> P" "sidecar_at PendingDir cid \<notin> P"
  shows "wlp x (\<lambda>_. in_queue cd cid m) (\<lambda>_. in_queue cd cid m) (in_queue cd cid m) w"
proof -
  have "in_queue cd cid m w'" if "x w fs = (r, w', fs')" for fs r w' fs'
    using footprintD [OF assms(1) that] assms(2-5) by (simp add: in_queue_def media_once_def)
  then show ?thesis unfolding wlp_def by (auto split: prod.splits res.splits)
qed

lemma foreign_clip_in_queue:
  assumes "footprint (clip_paths k) x" "k \<noteq> cid" "in_queue cd cid m w"
  shows "wlp x (\<lambda>_. in_queue cd cid m) (\<lambda>_. in_queue cd cid m) (in_queue cd cid m) w"
  by (rule foreign_in_queue [OF assms(1,3)]) (use assms(2) in auto)

section \<open>The transitions of the store\<close>

lemma claim_in_queue:
  assumes "codec_ok cd" "clip_id e \<noteq> []" "in_queue cd (clip_id e) m w"
  shows "wlp (transition_inflight cd e now) (\<lambda>u w'. in_queue cd (clip_id e) m w' \<and> clip_id u = clip_id e)
     (\<lambda>err w'. in_queue cd (clip_id e) m w' \<and>
        (\<forall>k. err = MissingMedia k \<longrightarrow> k = clip_id e \<and> look w' (media_at PendingDir k) = None))
     (in_queue cd (clip_id e) m) w"
  using assms(2,3) codec_enc [OF assms(1), of "mark_attempt now e"] unfolding in_queue_def media_once_def
  by (auto simp: transition_inflight_def Let_def wlp_simps wlp_match split: option.splits)

lemma back_in_queue:
  assumes "codec_ok cd" "clip_id e \<noteq> []" "in_queue cd (clip_id e) m w"
  shows "wlp (transition_back_to_pending cd e) (\<lambda>_. in_queue cd (clip_id e) m) (\<lambda>_. in_queue cd (clip_id e) m)
     (in_queue cd (clip_id e) m) w"
  using assms(2,3) codec_enc [OF assms(1), of e] unfolding in_queue_def media_once_def
  by (auto simp: transition_back_to_pending_def Let_def wlp_simps split: option.splits)

lemma complete_in_queue:
  assumes "codec_ok cd" "clip_id e \<noteq> []" "is_terminal e" "in_queue cd (clip_id e) m w"
  defines "K \<equiv> \<lambda>w'. in_queue cd (clip_id e) m w' \<or> filed_as_done cd (clip_id e) w'"
  shows "wlp (transition_delivered cd e) (\<lambda>_ w'. holds_entry cd w' (sidecar_at DeliveredDir (clip_id e)) e) (\<lambda>_. K) K w"
  using assms(2,3,4) codec_enc [OF assms(1), of e] unfolding K_def in_queue_def media_once_def filed_as_done_def holds_entry_def
  by (auto simp: transition_delivered_def Let_def wlp_simps split: option.splits)

lemma orphan_in_queue:
  assumes "in_queue cd cid m w" "look w (media_at PendingDir cid) = None"
  shows "wlp (quarantine_orphan cid) (\<lambda>_. in_queue cd cid m) (\<lambda>_. in_queue cd cid m) (in_queue cd cid m) w"
  using assms unfolding in_queue_def media_once_def
  by (auto simp: quarantine_orphan_def wlp_simps split: option.splits)

section \<open>The delivery loop\<close>

lemma pick_loop_in_queue:
  assumes "\<And>n. n \<in> set ns \<Longrightarrow> has_ext ''json'' n" "in_queue cd cid m w"
  shows "wlp (pick_loop cd now ns) (\<lambda>_. in_queue cd cid m) (\<lambda>_. in_queue cd cid m) (in_queue cd cid m) w"
  using assms
proof (induction ns arbitrary: w)
  case Nil
  then show ?case by (simp add: wlp_simps)
next
  case (Cons n ns)
  let ?K = "in_queue cd cid m"
  have IH: "wlp (pick_loop cd now ns) (\<lambda>_. ?K) (\<lambda>_. ?K) ?K w1" if "?K w1" for w1
    using Cons.IH Cons.prems(1) that by simp
  have own: False if "look w (sidecar_at PendingDir cid) = Some b" "dec cd b = None" for b
    using that Cons.prems(2) by (auto simp: in_queue_def)
  have quarantined: "wlp (quarantine_corrupt (PendingDir, n))
      (\<lambda>_ w1. wlp (pick_loop cd now ns) (\<lambda>_. ?K) (\<lambda>_. ?K) ?K w1)
      (\<lambda>_ w1. wlp (pick_loop cd now ns) (\<lambda>_. ?K) (\<lambda>_. ?K) ?K (w1\<lparr>journal := journal w1 @ [Warn msg]\<rparr>)) ?K
      (w\<lparr>journal := j\<rparr>)" if ne: "n \<noteq> sidecar_name cid" for j msg
  proof -
    obtain c where c: "c \<noteq> []" "n = sidecar_name c" using Cons.prems(1) by (auto simp: has_ext_json_iff)
    have fp: "footprint (clip_paths c) (quarantine_corrupt (PendingDir, n) :: ('a, queue_error, unit) io)"
      unfolding c(2) by (rule clip_op.own_files [OF quarantine_corrupt_clip [OF c(1)]])
    show ?thesis
      by (rule wlp_mono [OF foreign_clip_in_queue [OF fp, of cid cd m]]) (use ne c Cons.prems(2) in \<open>auto intro: IH\<close>)
  qed
  show ?case
    unfolding pick_loop.simps
    by (auto simp: wlp_match wlp_simps IH Cons.prems(2) intro!: quarantined dest: own
        split: option.splits queue_error.split)
qed

lemma pick_in_queue:
  assumes "in_queue cd cid m w"
  shows "wlp (pick_oldest_pending cd now) (\<lambda>_. in_queue cd cid m) (\<lambda>_. in_queue cd cid m) (in_queue cd cid m) w"
  by (simp add: pick_oldest_pending_def wlp_simps)
    (rule wlp_mono [OF list_sidecars_wlp], auto intro: pick_loop_in_queue assms simp: assms)

lemma claim_any_in_queue:
  assumes "codec_ok cd" "cid \<noteq> []" "in_queue cd cid m w"
  shows "wlp (transition_inflight cd e now) (\<lambda>_. in_queue cd cid m)
     (\<lambda>err w'. in_queue cd cid m w' \<and> (\<forall>k. err = MissingMedia k \<longrightarrow> k = cid \<longrightarrow> look w' (media_at PendingDir k) = None))
     (in_queue cd cid m) w"
proof (cases "clip_id e = cid")
  case True
  show ?thesis using claim_in_queue [OF assms(1), of e m w now] assms True by (auto elim!: wlp_mono)
next
  case False
  show ?thesis
    by (rule wlp_mono [OF wlp_conj [OF foreign_clip_in_queue [OF inflight_op.own_files False assms(3)] missing_media_own]])
      (use False in auto)
qed

lemma orphan_any_in_queue:
  assumes "in_queue cd cid m w" "k = cid \<Longrightarrow> look w (media_at PendingDir k) = None"
  shows "wlp (quarantine_orphan k) (\<lambda>_. in_queue cd cid m) (\<lambda>_. in_queue cd cid m) (in_queue cd cid m) w"
  using orphan_in_queue [OF assms(1)] foreign_clip_in_queue [OF orphan_op.own_files _ assms(1), of k] assms(2)
  by (cases "k = cid") auto

lemma claim_next_in_queue:
  assumes "codec_ok (rn_codec rn)" "cid \<noteq> []" "in_queue (rn_codec rn) cid m w"
  shows "wlp (claim_next rn ts) (\<lambda>_. in_queue (rn_codec rn) cid m) (\<lambda>_. in_queue (rn_codec rn) cid m) (in_queue (rn_codec rn) cid m) w"
proof -
  let ?K = "in_queue (rn_codec rn) cid m"
  have claimed: "wlp (transition_inflight (rn_codec rn) e0 now)
      (\<lambda>_. ?K)
      (\<lambda>err. wlp (case err of MissingMedia k \<Rightarrow> bind_io (emit (ev k)) (\<lambda>_.
           bind_io (store_op (quarantine_orphan k)) (\<lambda>_. ret (Inl Progress))) | _ \<Rightarrow> throw (RunnerQueue err))
         (\<lambda>_ :: attempt_result + clip_queue_entry. ?K) (\<lambda>_. ?K) ?K) ?K v"
    if "?K v" for v e0 now ev
    by (rule wlp_mono [OF claim_any_in_queue [OF assms(1,2) that]])
      (auto simp: wlp_simps orphan_any_in_queue split: queue_error.split)
  show ?thesis
    by (simp add: claim_next_def wlp_simps, rule wlp_mono [OF pick_in_queue [OF assms(3)]])
      (auto simp: wlp_simps wlp_match claimed split: option.split)
qed

lemma complete_any_kept:
  assumes "codec_ok cd" "cid \<noteq> []" "is_terminal e" "in_queue cd cid m w"
  defines "K \<equiv> \<lambda>w'. in_queue cd cid m w' \<or> filed_as_done cd cid w'"
  shows "wlp (transition_delivered cd e) (\<lambda>_. K) (\<lambda>_. K) K w"
proof (cases "clip_id e = cid")
  case True
  show ?thesis
    using assms(2) by (intro wlp_mono [OF complete_in_queue [OF assms(1) _ assms(3)]])
      (use assms(3,4) True in \<open>auto simp: K_def filed_as_done_def\<close>)
next
  case False
  show ?thesis
    by (rule wlp_mono [OF foreign_clip_in_queue [OF delivered_op.own_files False assms(4)]]) (auto simp: K_def)
qed

lemma back_any_in_queue:
  assumes "codec_ok cd" "cid \<noteq> []" "in_queue cd cid m w"
  shows "wlp (transition_back_to_pending cd e) (\<lambda>_. in_queue cd cid m) (\<lambda>_. in_queue cd cid m) (in_queue cd cid m) w"
  using back_in_queue [OF assms(1), of e m w] foreign_clip_in_queue [OF pending_op.own_files _ assms(3), of e] assms
  by (cases "clip_id e = cid") auto

lemma upload_kept:
  assumes "codec_ok (rn_codec rn)" "cid \<noteq> []" "in_queue (rn_codec rn) cid m w"
  defines "K \<equiv> \<lambda>w'. in_queue (rn_codec rn) cid m w' \<or> filed_as_done (rn_codec rn) cid w'"
  shows "wlp (upload_and_record rn ts c e) (\<lambda>_. K) (\<lambda>_. K) K w"
proof -
  have journal: "K (v\<lparr>journal := j\<rparr>) = K v" for v j by (simp add: K_def)
  have done_ok: "wlp (transition_delivered (rn_codec rn) u) (\<lambda>_. K) (\<lambda>_. K) K v"
    if "is_terminal u" "in_queue (rn_codec rn) cid m v" for u v
    using complete_any_kept [OF assms(1,2) that] by (simp add: K_def)
  have back_ok: "wlp (transition_back_to_pending (rn_codec rn) u) (\<lambda>_. K) (\<lambda>_. K) K w" for u
    by (rule wlp_mono [OF back_any_in_queue [OF assms(1-3)]]) (auto simp: K_def)
  have now_ok: "K w" using assms(3) by (simp add: K_def)
  have handled: "wlp (handle_upload_error rn ts e err) (\<lambda>_. K) (\<lambda>_. K) K w" for err
    by (auto simp: handle_upload_error_def Let_def mark_delivered_undecodable_def mark_attempts_exhausted_def
        mark_terminal_def wlp_simps journal back_ok done_ok assms(3) now_ok cong: if_cong
        split: client_error.split failure_kind.split option.split next_action.split)
  have upload: "wlp (match_io (upload_clip (rn_env rn) (rn_client rn) p (t_http ts))
      (\<lambda>task. bind_io (store_op (transition_delivered (rn_codec rn) (mark_delivered (t_stamp ts) task e))) (\<lambda>_.
         bind_io (emit (DeliveryEv (DeliveryUploadSucceeded (clip_id e) (task_id task) (attempts e)))) (\<lambda>_. ret Progress)))
      (\<lambda>err. bind_io (handle_upload_error rn ts e err) (\<lambda>_. ret Progress))) (\<lambda>_. K) (\<lambda>_. K) K w" for p
    by (simp add: wlp_match) (rule wlp_upload; simp add: wlp_simps journal done_ok handled now_ok assms(3))
  show ?thesis
    by (auto simp: upload_and_record_def Let_def wlp_simps journal done_ok now_ok upload assms(3) split: option.split)
qed

lemma uniform_claim_next [simp]: "uniform (claim_next rn ts)"
  by (auto simp: claim_next_def split: option.split queue_error.split)

lemma wlp_verdict:
  assumes "uniform x" "wlp x (\<lambda>_. K) (\<lambda>_. K) K w" "\<And>v j. K (v\<lparr>journal := j\<rparr>) = K v"
  shows "wlp (iteration_verdict rn logged x) (\<lambda>_. K) (\<lambda>_. K) K w"
  unfolding iteration_verdict_def wlp_match [OF assms(1)]
  by (rule wlp_mono [OF assms(2)]) (auto simp: wlp_simps assms(3) split: runner_error.split queue_error.split)

lemma begin_iteration_kept:
  assumes "codec_ok (rn_codec rn)" "cid \<noteq> []" "in_queue (rn_codec rn) cid m w"
  defines "K \<equiv> in_queue (rn_codec rn) cid m"
  shows "wlp (begin_iteration rn logged now ts shutdown) (\<lambda>_. K) (\<lambda>_. K) K w"
proof -
  have claim: "wlp (claim_next rn ts) (\<lambda>_. K) (\<lambda>_. K) K w"
    using claim_next_in_queue [OF assms(1-3)] by (simp add: K_def)
  show ?thesis
    unfolding begin_iteration_def
    using assms(3)
    by (auto simp: wlp_simps wlp_match K_def [symmetric] iteration_verdict_def intro!: wlp_mono [OF claim]
        split: sum.split runner_error.split queue_error.split)
      (auto simp: K_def)
qed

lemma end_iteration_kept:
  assumes "codec_ok (rn_codec rn)" "cid \<noteq> []" "in_queue (rn_codec rn) cid m w"
  defines "K \<equiv> \<lambda>w'. in_queue (rn_codec rn) cid m w' \<or> filed_as_done (rn_codec rn) cid w'"
  shows "wlp (end_iteration rn logged ts c e) (\<lambda>_. K) (\<lambda>_. K) K w"
  unfolding end_iteration_def using upload_kept [OF assms(1-3)] by (intro wlp_verdict) (auto simp: K_def)

section \<open>The poller\<close>

definition poller_dirs :: "path set" where
  "poller_dirs = {p. fst p \<in> {DeliveredDir, CorruptDir}}"

lemma footprint_update_delivered [simp]: "footprint poller_dirs (update_delivered_sidecar cd e)"
  by (auto simp: update_delivered_sidecar_def write_sidecar_atomic_def Let_def poller_dirs_def split: option.split)

lemma footprint_quarantine_delivered [simp]: "footprint poller_dirs (quarantine_corrupt (DeliveredDir, n))"
  by (auto simp: quarantine_corrupt_def Let_def poller_dirs_def)

lemma footprint_emit_lost [simp]: "footprint P (emit_classify_lost e kind status)"
  by (auto simp: emit_classify_lost_def split: option.split)

lemma footprint_scan_loop [simp]: "footprint poller_dirs (scan_loop pl clk seen ns)"
  by (induction ns arbitrary: seen) (auto split: queue_error.split prod.split)

lemma footprint_poll_one [simp]: "footprint poller_dirs (poll_one pl clk seen e)"
  by (auto simp: poll_one_def Let_def split: option.split sum.split failure_kind.split)

lemma footprint_poll_entries [simp]: "footprint poller_dirs (poll_entries pl clk quota polled seen es)"
  by (induction es arbitrary: quota polled seen) (auto split: prod.split sum.split)

lemma footprint_prune_loop [simp]: "footprint poller_dirs (prune_loop cd before ns)"
  by (induction ns) (auto simp: Let_def poller_dirs_def split: option.split)

lemma footprint_poller [simp]: "footprint poller_dirs (poller_iteration pl i st)"
  by (auto simp: poller_iteration_def poll_round_def scan_non_terminal_def prune_round_def prune_delivered_def
      split: prod.split sum.split option.split round_result.split)

lemma poller_in_queue:
  "in_queue cd cid m w \<Longrightarrow> wlp (poller_iteration pl i st) (\<lambda>_. in_queue cd cid m) (\<lambda>_. in_queue cd cid m) (in_queue cd cid m) w"
  by (rule foreign_in_queue [OF footprint_poller]) (auto simp: poller_dirs_def)

section \<open>The log only grows\<close>

lemma preserves_wlp: "preserves I x \<Longrightarrow> I w \<Longrightarrow> wlp x (\<lambda>_. I) (\<lambda>_. I) I w"
  unfolding wlp_def preserves_def by (fastforce split: prod.splits res.splits)

lemma reported_emit [simp]: "preserves (reported_gone cid) (emit ev)"
  by (auto simp: preserves_def emit_def reported_gone_def)

lemma reported_prim:
  assumes "\<And>w x w'. act w = (x, w') \<Longrightarrow> journal w' = journal w" "\<And>p w. journal (part p w) = journal w"
  shows "preserves (reported_gone cid) (prim act part)"
  using assms by (auto simp: preserves_def prim_def reported_gone_def split: prod.splits list.splits fault.splits sum.splits)

lemma reported_calls [simp]:
  "preserves (reported_gone cid) (fs_read p)" "preserves (reported_gone cid) (fs_metadata_len cd p)"
  "preserves (reported_gone cid) (fs_rename p q)" "preserves (reported_gone cid) (fs_remove_file p)"
  "preserves (reported_gone cid) (fs_write q b)" "preserves (reported_gone cid) (fs_copy p q)"
  "preserves (reported_gone cid) (fs_read_dir d)" "preserves (reported_gone cid) fs_next_entry"
  "preserves (reported_gone cid) fs_create_dir_all"
  unfolding fs_read_def fs_metadata_len_def fs_rename_def fs_remove_file_def fs_write_def
    fs_copy_def fs_read_dir_def fs_next_entry_def fs_create_dir_all_def
  by (auto intro!: reported_prim simp: write_part_def split: option.splits)

lemma reported_store [simp]:
  "preserves (reported_gone cid) (fs_exists p)" "preserves (reported_gone cid) (remove_if_exists p)"
  "preserves (reported_gone cid) (read_sidecar cd p)" "preserves (reported_gone cid) (write_sidecar_atomic cd p e)"
  by (auto simp: fs_exists_def remove_if_exists_def read_sidecar_def write_sidecar_atomic_def Let_def split: option.split)

lemma reported_transitions [simp]:
  "preserves (reported_gone cid) (transition_back_to_pending cd e)" "preserves (reported_gone cid) (transition_delivered cd e)"
  by (auto simp: transition_back_to_pending_def transition_delivered_def Let_def)

lemma reported_sweep [simp]: "preserves (reported_gone cid) (sweep_loop d ns)"
  by (induction ns) auto

lemma reported_reconcile [simp]: "preserves (reported_gone cid) (reconcile_loop cd ns)"
  by (induction ns) (auto simp: Let_def)

lemma reported_scan_names [simp]: "preserves (reported_gone cid) (scan_names d P ns)"
  by (induction ns) auto

lemma reported_list [simp]: "preserves (reported_gone cid) (list_sidecars d)"
  by (simp add: list_sidecars_def)

section \<open>The boot\<close>

abbreviation traced :: "'b codec \<Rightarrow> string \<Rightarrow> 'b \<Rightarrow> 'b world \<Rightarrow> bool" where
  "traced cd cid m w \<equiv> in_queue cd cid m w \<or> filed_as_done cd cid w \<or> reported_gone cid w"

lemma sweep_loop_traced:
  assumes "in_queue cd cid m w"
  defines "K \<equiv> \<lambda>w'. in_queue cd cid m w' \<or> reported_gone cid w'"
  shows "wlp (sweep_loop d ns) (\<lambda>_. K) (\<lambda>_. K) K w"
  using assms(1)
proof (induction ns arbitrary: w)
  case Nil
  then show ?case by (simp add: wlp_simps K_def)
next
  case (Cons n ns)
  have IH: "wlp (sweep_loop d ns) (\<lambda>_. K) (\<lambda>_. K) K v" if "K v" for v
    using that Cons.IH preserves_wlp [OF reported_sweep, of cid v d ns] unfolding K_def
    by (auto intro: wlp_mono)
  have K: "in_queue cd cid m v \<Longrightarrow> K v" "reported_gone cid v \<Longrightarrow> K v" for v by (simp_all add: K_def)
  have swept: "wlp (remove_if_exists (d, n)) (\<lambda>_. wlp (sweep_loop d ns) (\<lambda>_. K) (\<lambda>_. K) K) (\<lambda>_. K) K
      (w\<lparr>journal := journal w @ [QueueEv (QueueOrphanMedia (d, n))]\<rparr>)" if mp4: "has_ext ''mp4'' n"
  proof (cases "n = media_name cid")
    case True
    then have "reported_gone cid (w\<lparr>journal := journal w @ [QueueEv (QueueOrphanMedia (d, n))]\<rparr>)"
      by (auto simp: reported_gone_def)
    from preserves_wlp [OF reported_store(2) this] show ?thesis
      by (rule wlp_mono) (auto intro!: IH intro: K)
  next
    case False
    obtain c where c: "n = media_name c" using mp4 by (auto simp: has_ext_mp4_iff)
    have fp: "footprint {(d, n)} (remove_if_exists (d, n) :: ('a, queue_error, unit) io)" by simp
    show ?thesis
      by (rule wlp_mono [OF foreign_in_queue [OF fp, of cd cid m]]) (use Cons.prems False c in \<open>auto intro!: IH intro: K\<close>)
  qed
  show ?case using K(1) [OF Cons.prems] IH swept by (auto simp: wlp_simps)
qed

text \<open>A terminal record that reached \<open>delivered/\<close> stays there while \<open>inflight/\<close> is reconciled.\<close>

lemma done_reconciled:
  assumes "codec_ok cd" "cid \<noteq> []" "holds_entry cd w (sidecar_at DeliveredDir cid) e0" "clip_id e0 = cid" "is_terminal e0"
  defines "D \<equiv> \<lambda>w'. \<exists>e. holds_entry cd w' (sidecar_at DeliveredDir cid) e \<and> clip_id e = cid \<and> is_terminal e"
  shows "wlp (transition_back_to_pending cd e) (\<lambda>_. D) (\<lambda>_. D) D w"
    and "is_terminal e \<Longrightarrow> wlp (transition_delivered cd e) (\<lambda>_. D) (\<lambda>_. D) D w"
proof -
  have D: "D w" using assms(3-5) by (auto simp: D_def)
  have other: "wlp x (\<lambda>_. D) (\<lambda>_. D) D w" if "footprint (clip_paths k) x" "k \<noteq> cid" for k and x :: "('a, queue_error, unit) io"
    using footprintD [OF that(1)] that(2) D unfolding wlp_def D_def holds_entry_def
    by (fastforce split: prod.splits res.splits)
  show "wlp (transition_back_to_pending cd e) (\<lambda>_. D) (\<lambda>_. D) D w"
  proof (cases "clip_id e = cid")
    case True
    then show ?thesis using D assms(2) codec_enc [OF assms(1), of e] unfolding D_def holds_entry_def
      by (auto simp: transition_back_to_pending_def Let_def wlp_simps split: option.splits)
  qed (rule other [OF pending_op.own_files])
  show "wlp (transition_delivered cd e) (\<lambda>_. D) (\<lambda>_. D) D w" if t: "is_terminal e"
  proof (cases "clip_id e = cid")
    case True
    then show ?thesis using D t assms(2) codec_enc [OF assms(1), of e] unfolding D_def holds_entry_def
      by (auto simp: transition_delivered_def Let_def wlp_simps split: option.splits)
  qed (rule other [OF delivered_op.own_files])
qed

lemma reconcile_loop_traced:
  assumes "codec_ok cd" "cid \<noteq> []"
  defines "D \<equiv> \<lambda>w'. \<exists>e. holds_entry cd w' (sidecar_at DeliveredDir cid) e \<and> clip_id e = cid \<and> is_terminal e"
  assumes "in_queue cd cid m w \<or> D w \<or> reported_gone cid w"
  shows "wlp (reconcile_loop cd ns) (\<lambda>_. traced cd cid m) (\<lambda>_. traced cd cid m) (traced cd cid m) w"
  using assms(4)
proof (induction ns arbitrary: w)
  case Nil
  then show ?case by (auto simp: wlp_simps D_def filed_as_done_def)
next
  case (Cons n ns)
  let ?J = "\<lambda>v. in_queue cd cid m v \<or> D v \<or> reported_gone cid v" and ?T = "traced cd cid m"
  have weak: "?T v" if "?J v" for v using that by (auto simp: D_def filed_as_done_def)
  have handed: "wlp (transition_back_to_pending cd e) (\<lambda>_. ?J) (\<lambda>_. ?T) ?T w" for e
    using Cons.prems
  proof (elim disjE)
    assume "D w"
    then obtain e0 where e0: "holds_entry cd w (sidecar_at DeliveredDir cid) e0" "clip_id e0 = cid" "is_terminal e0"
      by (auto simp: D_def)
    show ?thesis by (rule wlp_mono [OF done_reconciled(1) [OF assms(1,2) e0]]) (auto simp: D_def filed_as_done_def)
  next
    assume q: "in_queue cd cid m w"
    show ?thesis by (rule wlp_mono [OF back_any_in_queue [OF assms(1,2) q]]) auto
  next
    assume q: "reported_gone cid w"
    show ?thesis by (rule wlp_mono [OF preserves_wlp [OF reported_transitions(1) q]]) auto
  qed
  have complete: "wlp (transition_delivered cd e) (\<lambda>_. ?J) (\<lambda>_. ?T) ?T w" if t: "is_terminal e" for e
    using Cons.prems
  proof (elim disjE)
    assume "D w"
    then obtain e0 where e0: "holds_entry cd w (sidecar_at DeliveredDir cid) e0" "clip_id e0 = cid" "is_terminal e0"
      by (auto simp: D_def)
    show ?thesis by (rule wlp_mono [OF done_reconciled(2) [OF assms(1,2) e0 t]]) (auto simp: D_def filed_as_done_def)
  next
    assume q: "in_queue cd cid m w"
    show ?thesis
    proof (cases "clip_id e = cid")
      case True
      show ?thesis
        by (rule wlp_mono [OF complete_in_queue [OF assms(1) _ t]]) (use True q t assms(2) in \<open>auto simp: D_def\<close>)
    next
      case False
      show ?thesis by (rule wlp_mono [OF foreign_clip_in_queue [OF delivered_op.own_files False q]]) auto
    qed
  qed (auto intro!: wlp_mono [OF preserves_wlp [OF reported_transitions(2)]])
  have rest: "wlp (reconcile_loop cd ns) (\<lambda>_. ?T) (\<lambda>_. ?T) ?T v" if "?J v" for v
    using Cons.IH that by blast
  show ?case
    using weak [OF Cons.prems]
    by (auto simp: wlp_simps Let_def intro!: wlp_mono [OF handed] wlp_mono [OF complete] rest split: option.splits)
qed

lemma sweep_traced:
  assumes "in_queue cd cid m w \<or> reported_gone cid w"
  defines "K \<equiv> \<lambda>w'. in_queue cd cid m w' \<or> reported_gone cid w'"
  shows "wlp (sweep_orphan_media d) (\<lambda>_. K) (\<lambda>_. K) K w"
proof -
  have "wlp (sweep_loop d ns) (\<lambda>_. K) (\<lambda>_. K) K w" for ns
    using assms(1) sweep_loop_traced [of cd cid m w d ns] preserves_wlp [OF reported_sweep, of cid w d ns] unfolding K_def
    by (auto intro: wlp_mono)
  then show ?thesis using assms(1) by (auto simp: sweep_orphan_media_def wlp_simps K_def)
qed

lemma reconcile_traced:
  assumes "codec_ok cd" "cid \<noteq> []" "in_queue cd cid m w"
  shows "wlp (reconcile_inflight cd) (\<lambda>_. traced cd cid m) (\<lambda>_. traced cd cid m) (traced cd cid m) w"
proof -
  define K where "K = (\<lambda>w'. in_queue cd cid m w' \<or> reported_gone cid w')"
  define T where "T = traced cd cid m"
  have K: "K v \<Longrightarrow> T v" for v by (auto simp: K_def T_def)
  have loop: "wlp (reconcile_loop cd ns) (\<lambda>_. T) (\<lambda>_. T) T v" if "K v" for ns v
    using reconcile_loop_traced [OF assms(1,2), of m v ns] that by (auto simp: K_def T_def)
  have listed: "wlp (list_sidecars InflightDir) (\<lambda>ns. wlp (reconcile_loop cd (sort ns)) (\<lambda>_. T) (\<lambda>_. T) T) (\<lambda>_. T) T v"
    if "K v" for v
    by (rule wlp_mono [OF list_sidecars_wlp]) (use that in \<open>auto intro: loop K\<close>)
  have sweep: "wlp (sweep_orphan_media d) (\<lambda>_. K) (\<lambda>_. K) K v" if "K v" for d v
    using sweep_traced [of cd cid m v d] that by (simp add: K_def)
  have second: "wlp (sweep_orphan_media InflightDir)
      (\<lambda>_. wlp (list_sidecars InflightDir) (\<lambda>ns. wlp (reconcile_loop cd (sort ns)) (\<lambda>_. T) (\<lambda>_. T) T) (\<lambda>_. T) T) (\<lambda>_. T) T v"
    if "K v" for v
    by (rule wlp_mono [OF sweep [OF that]]) (auto intro: listed K)
  have "K w" using assms(3) by (simp add: K_def)
  then show ?thesis
    unfolding T_def [symmetric]
    by (simp add: reconcile_inflight_def wlp_simps) (rule wlp_mono [OF sweep], auto intro: second K)
qed

lemma uniform_serve [simp]:
  "uniform (create_dirs ds)" "uniform (count_pending_loop ns k)" "uniform (emit_recovered_entries es)" "uniform (purge cd)"
proof -
  show "uniform (create_dirs ds)" by (induction ds) auto
  show "uniform (count_pending_loop ns k)" by (induction ns arbitrary: k) auto
  show "uniform (emit_recovered_entries es)" by (induction es) auto
  show "uniform (purge cd)" by (simp add: purge_def)
qed

lemma uniform_serve_parts [simp]:
  "uniform open_store" "uniform count_pending" "uniform (purge_capture_staging_or_disable cd)"
  by (simp_all add: open_store_def count_pending_def purge_capture_staging_or_disable_def)

lemma uniform_prepare [simp]: "uniform (prepare_queue cd sid)"
  by (simp add: prepare_queue_def)

lemma reported_loops [simp]:
  "preserves (reported_gone cid) (count_pending_loop ns k)" "preserves (reported_gone cid) (emit_recovered_entries es)"
  "preserves (reported_gone cid) (purge_loop cd ns rep)"
proof -
  show "preserves (reported_gone cid) (count_pending_loop ns k)" by (induction ns arbitrary: k) auto
  show "preserves (reported_gone cid) (emit_recovered_entries es)" by (induction es) auto
  show "preserves (reported_gone cid) (purge_loop cd ns rep)" by (induction ns arbitrary: rep) auto
qed

lemma keeps_traced:
  assumes "footprint {p. fst p = StagingDir} x" "preserves (reported_gone cid) x"
  shows "preserves (traced cd cid m) x"
  unfolding preserves_def
proof (intro allI impI)
  fix w fs r w' fs' assume run: "x w fs = (r, w', fs')" and t: "traced cd cid m w"
  have "look w' p = look w p" if "fst p \<noteq> StagingDir" for p
    using footprintD [OF assms(1) run, of p] that by simp
  then show "traced cd cid m w'"
    using t preservesD [OF assms(2) run] by (auto simp: in_queue_def media_once_def filed_as_done_def holds_entry_def)
qed

lemma footprint_loops [simp]:
  "footprint P (count_pending_loop ns k)" "footprint P (emit_recovered_entries es)"
proof -
  show "footprint P (count_pending_loop ns k)" by (induction ns arbitrary: k) auto
  show "footprint P (emit_recovered_entries es)" by (induction es) auto
qed

lemma traced_staging [simp]:
  "preserves (traced cd' cid m) (purge_capture_staging_or_disable cd)"
  "preserves (traced cd' cid m) count_pending"
  "preserves (traced cd' cid m) (emit_recovered_entries es)"
  "preserves (traced cd' cid m) (emit ev)"
  "preserves (traced cd' cid m) (spawn_capture_task pt cfg purged)"
proof -
  show "preserves (traced cd' cid m) (purge_capture_staging_or_disable cd)"
    by (rule keeps_traced) (auto simp: purge_capture_staging_or_disable_def purge_def footprint_purge_loop)
  show "preserves (traced cd' cid m) count_pending"
    by (rule keeps_traced) (auto simp: count_pending_def)
  show "preserves (traced cd' cid m) (emit_recovered_entries es)"
    by (rule keeps_traced) auto
  show "preserves (traced cd' cid m) (emit ev)" by (intro keeps_traced) auto
  show "preserves (traced cd' cid m) (spawn_capture_task pt cfg purged)"
    by (rule keeps_traced)
      (auto simp: spawn_capture_task_def start_capture_def Let_def split: option.split sum.split)
qed

lemma uniform_spawn_capture [simp]: "uniform (spawn_capture_task pt cfg purged)"
  by (auto simp: spawn_capture_task_def start_capture_def Let_def split: option.split sum.split)

lemma serve_boot_traced:
  assumes "codec_ok (pt_codec pt)" "cid \<noteq> []" "in_queue (pt_codec pt) cid m w"
  defines "T \<equiv> traced (pt_codec pt) cid m"
  shows "wlp (serve_boot pt cfg tick0 identity cl) (\<lambda>_. T) (\<lambda>_. T) T w"
proof -
  define after where "after recovered =
      bind_io (emit_recovered_entries recovered) (\<lambda>_.
      bind_io (map_err (\<lambda>_. CmdIo) count_pending) (\<lambda>pending_at_start.
      bind_io (purge_capture_staging_or_disable (pt_codec pt)) (\<lambda>rep.
      bind_io (emit (ServiceEv (ServiceReady (station_id identity) pending_at_start))) (\<lambda>_.
      ret (pending_at_start, rep)))))" for recovered
  have tail: "preserves T (after recovered)" "preserves T (spawn_capture_task pt cfg purged)" for recovered purged
    unfolding after_def T_def by auto
  have uafter: "uniform (after recovered)" for recovered by (simp add: after_def)
  have queue: "wlp (prepare_queue (pt_codec pt) (station_id identity)) (\<lambda>_. T) (\<lambda>_. T) T w"
  proof -
    have "T w" using assms(3) by (simp add: T_def)
    moreover have "wlp (reconcile_inflight (pt_codec pt)) (\<lambda>x. wlp (after x) (\<lambda>_. T) (\<lambda>_. T) T) (\<lambda>_. T) T w"
      unfolding T_def by (rule wlp_mono [OF reconcile_traced [OF assms(1-3)]])
        (auto intro!: preserves_wlp [OF tail(1), unfolded T_def])
    ultimately show ?thesis
      unfolding prepare_queue_def after_def [symmetric]
      by (simp add: wlp_simps open_store_def uafter)
  qed
  show ?thesis
    unfolding serve_boot_def
    by (simp add: wlp_simps case_prod_beta, rule wlp_mono [OF queue])
      (auto simp: wlp_simps intro!: wlp_mono [OF preserves_wlp [OF tail(2)]])
qed

section \<open>The capture worker on a working host\<close>

text \<open>Without faults a program keeps \<open>I\<close>; the empty schedule stays empty.\<close>

definition calmly :: "('b world \<Rightarrow> bool) \<Rightarrow> ('b, 'e, 'a) io \<Rightarrow> bool" where
  "calmly I x \<longleftrightarrow> (\<forall>w r w' fs'. x w [] = (r, w', fs') \<longrightarrow> I w \<longrightarrow> I w' \<and> fs' = [])"

definition nil_ok :: "('b, 'e, 'a) io \<Rightarrow> bool" where
  "nil_ok x \<longleftrightarrow> (\<forall>w r w' fs'. x w [] = (r, w', fs') \<longrightarrow> fs' = [])"

lemma calmly_match:
  assumes "calmly I x" "\<And>w v w' fs'. x w [] = (Ok v, w', fs') \<Longrightarrow> calmly I (f v)" "\<And>e. calmly I (g e)"
  shows "calmly I (match_io x f g)"
  unfolding calmly_def
proof (intro allI impI)
  fix w r w' fs' assume run: "match_io x f g w [] = (r, w', fs')" and i: "I w"
  obtain r1 w1 fs1 where x: "x w [] = (r1, w1, fs1)" by (cases "x w []") auto
  then have "I w1" "fs1 = []" using assms(1) i by (auto simp: calmly_def)
  then show "I w' \<and> fs' = []"
    using run x assms(2) [of w] assms(3) by (cases r1) (auto simp: match_io_def calmly_def)
qed

lemma calmly_bind:
  "calmly I x \<Longrightarrow> (\<And>w v w' fs'. x w [] = (Ok v, w', fs') \<Longrightarrow> calmly I (f v)) \<Longrightarrow> calmly I (bind_io x f)"
  unfolding bind_io_def by (rule calmly_match) (auto simp: calmly_def throw_def)

lemma calmly_keeps: "preserves I x \<Longrightarrow> nil_ok x \<Longrightarrow> calmly I x"
  unfolding calmly_def nil_ok_def by (meson preservesD)

lemma nil_ok_leaves [simp]:
  "nil_ok (ret x)" "nil_ok (throw e)" "nil_ok (emit ev)" "nil_ok crash_now" "nil_ok (prim act part)"
  by (auto simp: nil_ok_def ret_def throw_def emit_def crash_now_def prim_def split: prod.splits sum.splits)

lemma nil_ok_match [simp]:
  assumes "nil_ok x" "\<And>v. nil_ok (f v)" "\<And>e. nil_ok (g e)"
  shows "nil_ok (match_io x f g)"
  unfolding nil_ok_def
proof (intro allI impI)
  fix w r w' fs' assume run: "match_io x f g w [] = (r, w', fs')"
  obtain r1 w1 fs1 where x: "x w [] = (r1, w1, fs1)" by (cases "x w []") auto
  then have "fs1 = []" using assms(1) by (auto simp: nil_ok_def)
  then show "fs' = []" using run x assms(2,3) by (cases r1) (auto simp: match_io_def nil_ok_def)
qed

lemma nil_ok_combinators [simp]:
  "nil_ok x \<Longrightarrow> (\<And>v. nil_ok (f v)) \<Longrightarrow> nil_ok (bind_io x f)" "nil_ok x \<Longrightarrow> nil_ok (attempt x)"
  "nil_ok x \<Longrightarrow> nil_ok (map_err h x)"
  by (simp_all add: bind_io_def attempt_def map_err_def)

lemma nil_ok_calls [simp]:
  "nil_ok (fs_read p)" "nil_ok (fs_metadata_len cd p)" "nil_ok (fs_rename p q)" "nil_ok (fs_remove_file p)"
  "nil_ok (fs_write q b)" "nil_ok (fs_copy p q)" "nil_ok (fs_read_dir d)" "nil_ok fs_next_entry" "nil_ok fs_create_dir_all"
  by (simp_all add: fs_read_def fs_metadata_len_def fs_rename_def fs_remove_file_def fs_write_def fs_copy_def
      fs_read_dir_def fs_next_entry_def fs_create_dir_all_def)

lemma nil_ok_store [simp]:
  "nil_ok (write_sidecar_atomic cd p e)" "nil_ok (remove_if_exists p)" "nil_ok (read_sidecar cd p)" "nil_ok (next_clip_id fmt cap)"
  "nil_ok (enqueue_with_id cd cid src cap now)" "nil_ok (evict c)" "nil_ok (emit_evictions pol rs)" "nil_ok (read_sidecars_loop cd d ns)"
proof -
  show w: "nil_ok (write_sidecar_atomic cd p e)" for p e
    by (auto simp: write_sidecar_atomic_def Let_def split: option.split)
  show r: "nil_ok (remove_if_exists p)" for p by (auto simp: remove_if_exists_def)
  show rs: "nil_ok (read_sidecar cd p)" for p by (auto simp: read_sidecar_def split: option.split)
  show "nil_ok (next_clip_id fmt cap)" by (auto simp: nil_ok_def next_clip_id_def)
  show "nil_ok (enqueue_with_id cd cid src cap now)" by (auto simp: enqueue_with_id_def Let_def w)
  show "nil_ok (evict c)" by (simp add: evict_def Let_def r)
  show "nil_ok (emit_evictions pol rs)" by (induction rs) auto
  show "nil_ok (read_sidecars_loop cd d ns)" by (induction ns) (auto simp: rs split: queue_error.split)
qed

lemma nil_ok_policy [simp]:
  "nil_ok (enqueue cd fmt src cap now)" "nil_ok (take_census cd)" "nil_ok (evict_loop pol inc full cs clips bytes recs)"
proof -
  show "nil_ok (enqueue cd fmt src cap now)" by (simp add: enqueue_def)
  show "nil_ok (take_census cd)" by (simp add: take_census_def read_sidecars_def Let_def split: prod.split)
  show "nil_ok (evict_loop pol inc full cs clips bytes recs)"
    by (induction cs arbitrary: clips bytes recs) (auto simp: Let_def)
qed

lemma run_evict_loop_frame:
  "\<exists>out w'. evict_loop pol inc full cs clips bytes recs w [] = (Ok out, w', []) \<and>
     set recs \<subseteq> set (evictions out) \<and>
     (cid \<notin> evicted_id ` set (evictions out) \<longrightarrow> in_queue cd cid m w \<longrightarrow> in_queue cd cid m w')"
proof (induction cs arbitrary: clips bytes recs w)
  case Nil
  then show ?case by (simp add: run_simps)
next
  case (Cons c cs)
  obtain w1 where e: "evict c w [] = (Ok (), w1, [])" by (auto simp: evict_def Let_def run_simps)
  have fp: "footprint (clip_paths (clip_id (ev_entry c))) (evict c :: ('b, queue_error, unit) io)"
    by (auto simp: evict_def Let_def)
  have keep: "in_queue cd cid m w1" if "cid \<noteq> clip_id (ev_entry c)" "in_queue cd cid m w"
    using wlp_run [OF foreign_clip_in_queue [OF fp, of cid cd m w] e] that by auto
  define recs' where "recs' = recs @ [\<lparr> evicted_id = clip_id (ev_entry c),
      ev_reason = eviction_reason_for pol inc clips bytes, remaining_clips = sat_sub clips 1,
      remaining_bytes = sat_sub bytes (on_disk_bytes c) \<rparr>]"
  obtain out w' where rest: "evict_loop pol inc full cs (sat_sub clips 1) (sat_sub bytes (on_disk_bytes c)) recs' w1 [] = (Ok out, w', [])"
    "set recs' \<subseteq> set (evictions out)"
    "cid \<notin> evicted_id ` set (evictions out) \<longrightarrow> in_queue cd cid m w1 \<longrightarrow> in_queue cd cid m w'"
    using Cons.IH by blast
  show ?case
  proof (cases "breaches pol inc clips bytes")
    case True
    have run: "evict_loop pol inc full (c # cs) clips bytes recs w [] = (Ok out, w', [])"
      using True e rest(1) by (simp add: run_simps Let_def recs'_def)
    have sub: "set recs \<subseteq> set (evictions out)" "clip_id (ev_entry c) \<in> evicted_id ` set (evictions out)"
      using rest(2) by (auto simp: recs'_def intro: rev_image_eqI)
    have "cid \<notin> evicted_id ` set (evictions out) \<longrightarrow> in_queue cd cid m w \<longrightarrow> in_queue cd cid m w'"
      using sub(2) rest(3) keep by blast
    with run sub(1) show ?thesis by blast
  next
    case False
    then show ?thesis by (simp add: run_simps)
  qed
qed

abbreviation still_known :: "'b codec \<Rightarrow> string \<Rightarrow> 'b \<Rightarrow> 'b world \<Rightarrow> bool" where
  "still_known cd cid m w \<equiv> in_queue cd cid m w \<or> reported_gone cid w"

lemma run_emit_evictions:
  "emit_evictions pol rs w fs = (Ok (), w\<lparr>journal := journal w @ map (\<lambda>r. QueueEv (QueueEvicted (evicted_id r)
      (reason_as_str (ev_reason r)) (policy_as_str (eviction pol)) (remaining_clips r) (remaining_bytes r))) rs\<rparr>, fs)"
  by (induction rs arbitrary: w) (auto simp: ret_def emit_def bind_io_def match_io_def)

lemma reported_policy [simp]:
  "preserves (reported_gone cid) (next_clip_id fmt cap)" "preserves (reported_gone cid) (enqueue_with_id cd k src cap now)"
  "preserves (reported_gone cid) (evict_loop pol inc full cs clips bytes recs)"
  "preserves (reported_gone cid) (emit_evictions pol rs)" "preserves (reported_gone cid) (read_sidecars_loop cd d ns)"
proof -
  show "preserves (reported_gone cid) (next_clip_id fmt cap)"
    by (auto simp: preserves_def next_clip_id_def reported_gone_def)
  show "preserves (reported_gone cid) (enqueue_with_id cd k src cap now)" by (auto simp: enqueue_with_id_def Let_def)
  show "preserves (reported_gone cid) (evict_loop pol inc full cs clips bytes recs)"
    by (induction cs arbitrary: clips bytes recs) (auto simp: Let_def evict_def)
  show "preserves (reported_gone cid) (emit_evictions pol rs)" by (induction rs) auto
  show "preserves (reported_gone cid) (read_sidecars_loop cd d ns)" by (induction ns) (auto split: queue_error.split)
qed

lemma reported_apply_policy [simp]: "preserves (reported_gone cid) (apply_policy cd pol inc)"
  by (auto simp: apply_policy_def take_census_def read_sidecars_def Let_def split: prod.split eviction_policy.split)

lemma nil_ok_apply_policy [simp]: "nil_ok (apply_policy cd pol inc)"
  by (auto simp: apply_policy_def Let_def split: prod.split eviction_policy.split)

lemma run_apply_policy_frame:
  assumes run: "apply_policy cd pol inc w [] = (r, w', fs')" and q: "in_queue cd' cid m w"
  shows "(\<forall>out. r = Ok out \<longrightarrow> cid \<notin> evicted_id ` set (evictions out) \<longrightarrow> in_queue cd' cid m w') \<and>
    ((\<forall>out. r \<noteq> Ok out) \<longrightarrow> in_queue cd' cid m w')"
proof -
  obtain rc w1 fs1 where c: "take_census cd w [] = (rc, w1, fs1)" by (cases "take_census cd w []") auto
  have w1: "w1 = w" "fs1 = []"
    using wlp_run [OF take_census_wlp c] nil_ok_policy(2) [of cd] c by (auto simp: nil_ok_def split: res.splits)
  show ?thesis
    using run c w1 q run_evict_loop_frame [of pol inc _ _ _ _ "[]" w cid cd' m]
    by (cases rc) (auto simp: apply_policy_def match_io_def ret_def Let_def split: prod.splits if_splits eviction_policy.splits;
        metis Pair_inject res.inject(1))+
qed

lemma enqueue_in_queue:
  assumes "\<forall>k. fmt cap @ ''-'' @ pad3 k \<noteq> cid" "fst src = StagingDir"
  shows "preserves (in_queue cd' cid m) (enqueue cd fmt src cap now)"
  unfolding preserves_def
proof (intro allI impI)
  fix w fs r w' fs' assume run: "enqueue cd fmt src cap now w fs = (r, w', fs')" and q: "in_queue cd' cid m w"
  define k where "k = fmt cap @ ''-'' @ pad3 (seq w)"
  have named: "enqueue_with_id cd k src cap now (w\<lparr>seq := wrap_u32 (seq w + 1)\<rparr>) fs = (r, w', fs')"
    using run by (simp add: enqueue_def next_clip_id_def bind_io_def match_io_def k_def)
  have "k \<noteq> cid" using assms(1) by (simp add: k_def)
  moreover have "src \<noteq> media_at PendingDir cid" "src \<noteq> media_at InflightDir cid" "src \<noteq> sidecar_at PendingDir cid"
    using assms(2) by auto
  ultimately show "in_queue cd' cid m w'"
    using wlp_run [OF foreign_in_queue [OF enqueue_with_id_footprint, of cd' cid m] named] q by (auto split: res.splits)
qed

lemma keeps_known:
  assumes "footprint {p. fst p = StagingDir} x" "preserves (reported_gone cid) x"
  shows "preserves (still_known cd cid m) x"
  unfolding preserves_def
proof (intro allI impI)
  fix w fs r w' fs' assume run: "x w fs = (r, w', fs')" and t: "still_known cd cid m w"
  have "look w' p = look w p" if "fst p \<noteq> StagingDir" for p
    using footprintD [OF assms(1) run, of p] that by simp
  then show "still_known cd cid m w'"
    using t preservesD [OF assms(2) run] by (auto simp: in_queue_def media_once_def)
qed

lemma known_calls:
  "preserves (still_known cd' cid m) (fs_metadata_len cd p)" "preserves (still_known cd' cid m) (emit ev)"
  by (rule keeps_known; simp)+

text \<open>The log entries of an eviction; after them the clip is still known.\<close>

definition evictions_logged :: "queue_policy \<Rightarrow> eviction_record list \<Rightarrow> 'b world \<Rightarrow> 'b world" where
  "evictions_logged pol recs w = w\<lparr>journal := journal w @ map (\<lambda>r. QueueEv (QueueEvicted (evicted_id r)
     (reason_as_str (ev_reason r)) (policy_as_str (eviction pol)) (remaining_clips r) (remaining_bytes r))) recs\<rparr>"

lemma evictions_logged_known:
  assumes a: "apply_policy cd pol inc w [] = (Ok out, w1, fs1)" and g: "still_known cd' cid m w"
  shows "still_known cd' cid m (evictions_logged pol (evictions out) w1)"
proof (cases "cid \<in> evicted_id ` set (evictions out) \<or> reported_gone cid w")
  case True
  then have "reported_gone cid (evictions_logged pol (evictions out) w1)"
  proof
    assume "cid \<in> evicted_id ` set (evictions out)"
    then obtain x where "x \<in> set (evictions out)" "cid = evicted_id x" by auto
    then have "QueueEv (QueueEvicted cid (reason_as_str (ev_reason x)) (policy_as_str (eviction pol))
        (remaining_clips x) (remaining_bytes x)) \<in> set (journal (evictions_logged pol (evictions out) w1))"
      by (simp add: evictions_logged_def)
    then show ?thesis unfolding reported_gone_def by blast
  next
    assume "reported_gone cid w"
    then have "reported_gone cid w1" using preservesD [OF reported_apply_policy a] by blast
    then show ?thesis by (auto simp: evictions_logged_def reported_gone_def)
  qed
  then show ?thesis ..
next
  case False
  then show ?thesis using run_apply_policy_frame [OF a] g by (auto simp: evictions_logged_def)
qed

lemma policy_calm:
  assumes k: "\<And>out. calmly (still_known cd' cid m) (k out)"
  shows "calmly (still_known cd' cid m) (bind_io (apply_policy cd pol inc) (\<lambda>out. bind_io (emit_evictions pol (evictions out)) (\<lambda>_. k out)))"
  unfolding calmly_def
proof (intro allI impI)
  fix w r w' fs' assume run: "bind_io (apply_policy cd pol inc) (\<lambda>out. bind_io (emit_evictions pol (evictions out)) (\<lambda>_. k out)) w [] = (r, w', fs')"
    and g: "still_known cd' cid m w"
  obtain r1 w1 fs1 where a: "apply_policy cd pol inc w [] = (r1, w1, fs1)" by (cases "apply_policy cd pol inc w []") auto
  have fs1: "fs1 = []" using a nil_ok_apply_policy [of cd pol inc] by (auto simp: nil_ok_def)
  show "still_known cd' cid m w' \<and> fs' = []"
  proof (cases r1)
    case (Ok out)
    have "k out (evictions_logged pol (evictions out) w1) [] = (r, w', fs')"
      using run a Ok fs1 by (simp add: bind_io_def match_io_def run_emit_evictions evictions_logged_def)
    then show ?thesis using k [of out] evictions_logged_known [OF a [unfolded Ok] g] by (auto simp: calmly_def)
  qed (use run a fs1 g run_apply_policy_frame [OF a] preservesD [OF reported_apply_policy a] in
      \<open>auto simp: bind_io_def match_io_def throw_def\<close>)
qed

lemma submit_calm:
  assumes "\<forall>k. fmt cap @ ''-'' @ pad3 k \<noteq> cid" "fst src = StagingDir"
  shows "calmly (still_known cd' cid m) (policy_submit cd pol (store_submit cd fmt) src cap now)"
proof -
  have inner: "preserves (still_known cd' cid m) (store_submit cd fmt src cap now)"
  proof -
    have "preserves (reported_gone cid) (store_submit cd fmt src cap now)" by (simp add: store_submit_def enqueue_def)
    moreover have "preserves (in_queue cd' cid m) (store_submit cd fmt src cap now)"
      unfolding store_submit_def by (rule preserves_combinators(3), rule enqueue_in_queue [where fmt = fmt and cap = cap, OF assms])
    ultimately show ?thesis unfolding preserves_def by blast
  qed
  have len: "calmly (still_known cd' cid m) (match_io (fs_metadata_len cd src) ret (\<lambda>_. ret 0))"
    by (rule calmly_keeps) (auto simp: known_calls)
  have nil: "nil_ok (store_submit cd fmt src cap now)" by (simp add: store_submit_def)
  have verdict: "calmly (still_known cd' cid m) (case verdict out of Inl err \<Rightarrow> throw err | Inr _ \<Rightarrow> store_submit cd fmt src cap now)" for out
    by (rule calmly_keeps) (auto simp: inner nil split: sum.split)
  show ?thesis
    unfolding policy_submit_def by (rule calmly_bind [OF len]) (rule policy_calm [OF verdict])
qed

lemma reported_camera [simp]:
  "preserves (reported_gone cid) spawn_child" "preserves (reported_gone cid) (child_wait h args out)"
  "preserves (reported_gone cid) (drop_guard out)" "preserves (reported_gone cid) (sweep_staging_loop ns)"
  "preserves (reported_gone cid) (sum_dir_loop (\<lambda>n. match_io (fs_metadata_len cd (StagingDir, n)) ret
      (\<lambda>err. if err = NotFound then ret 0 else throw err)) ns tot)"
proof -
  show "preserves (reported_gone cid) spawn_child" "preserves (reported_gone cid) (child_wait h args out)"
    unfolding spawn_child_def child_wait_def by (auto intro!: reported_prim simp: write_part_def split: option.splits)
  show "preserves (reported_gone cid) (drop_guard out)" by (simp add: drop_guard_def)
  show "preserves (reported_gone cid) (sweep_staging_loop ns)" by (induction ns) auto
  show "preserves (reported_gone cid) (sum_dir_loop (\<lambda>n. match_io (fs_metadata_len cd (StagingDir, n)) ret
      (\<lambda>err. if err = NotFound then ret 0 else throw err)) ns tot)" by (induction ns arbitrary: tot) auto
qed

lemma nil_ok_camera [simp]:
  "nil_ok spawn_child" "nil_ok (child_wait h args out)" "nil_ok (drop_guard out)" "nil_ok (sweep_staging_loop ns)"
  "nil_ok (sum_dir_loop (\<lambda>n. match_io (fs_metadata_len cd (StagingDir, n)) ret
      (\<lambda>err. if err = NotFound then ret 0 else throw err)) ns tot)"
proof -
  show "nil_ok spawn_child" "nil_ok (child_wait h args out)" by (simp_all add: spawn_child_def child_wait_def)
  show "nil_ok (drop_guard out)" by (simp add: drop_guard_def)
  show "nil_ok (sweep_staging_loop ns)" by (induction ns) auto
  show "nil_ok (sum_dir_loop (\<lambda>n. match_io (fs_metadata_len cd (StagingDir, n)) ret
      (\<lambda>err. if err = NotFound then ret 0 else throw err)) ns tot)" by (induction ns arbitrary: tot) auto
qed

lemma camera_calm [simp]:
  "preserves (reported_gone cid) (record_clip cd h cam rid dur outer)" "nil_ok (record_clip cd h cam rid dur outer)"
  by (auto simp: record_clip_def Let_def)

lemma recording_calm [simp]:
  "calmly (still_known cd' cid m) (record_into_staging (record_clip cd h cam) rid dur margin)"
  by (rule calmly_keeps, rule keeps_known, rule libcamera.record_footprint)
    (auto simp: record_into_staging_def sweep_staging_def remove_clip_if_exists_def split: option.split)

lemma probe_calm [simp]: "calmly (still_known cd' cid m) (staging_bytes cd)"
  by (rule calmly_keeps, rule keeps_known) (auto simp: staging_bytes_def sum_dir_def)

lemma calmly_emits [simp]:
  "calmly (still_known cd cid m) (emit ev)" "calmly (still_known cd cid m) (ret x)" "calmly (still_known cd cid m) (throw e)"
  "calmly (still_known cd cid m) crash_now"
  by (simp_all add: calmly_keeps known_calls)

lemma cooldown_calm [simp]: "calmly (still_known cd cid m) (start_cooldown env clk sv)"
  by (simp add: start_cooldown_def split: option.split)

lemma transition_calm [simp]: "calmly (still_known cd cid m) (apply_transition tr sv)"
  by (cases tr) (auto simp: emit_degraded_def emit_recovered_def Let_def intro!: calmly_bind)

lemma submit_clip_calm:
  assumes "\<forall>k. fmt t @ ''-'' @ pad3 k \<noteq> cid" "fst (clip_path clip) = StagingDir"
  shows "calmly (still_known cd' cid m) (submit_clip (station_env cd h cam pol fmt cfg lims it pt jt) clk rid t clip sv)"
proof -
  have rm: "calmly (still_known cd' cid m) (attempt (fs_remove_file (clip_path clip)))"
    using assms(2) by (intro calmly_keeps keeps_known) auto
  show ?thesis
    unfolding submit_clip_def
    by (rule calmly_match)
      (auto simp: station_env_def submit_calm [where fmt = fmt and cap = t, OF assms] rm intro!: calmly_bind split: inbox_error.split)
qed

lemma record_and_handle_calm:
  assumes "\<forall>k. fmt t @ ''-'' @ pad3 k \<noteq> cid"
  shows "calmly (still_known cd' cid m) (record_and_handle (station_env cd h cam pol fmt cfg lims it pt jt) clk t sv)"
proof -
  let ?env = "station_env cd h cam pol fmt cfg lims it pt jt"
  have env: "ce_camera ?env = record_clip cd h cam" by (simp add: station_env_def)
  have staged: "fst (clip_path clip) = StagingDir"
    if "record_into_staging (record_clip cd h cam) rid dur margin w fs = (Ok clip, w', fs')" for rid dur margin clip w fs w' fs'
    using wlp_run [OF libcamera.record_wlp that] by auto
  have failed: "calmly (still_known cd' cid m) (case err of RecordFailed x \<Rightarrow> handle_recording_failed ?env clk rid x sv
      | EmptyClip p \<Rightarrow> handle_recording_empty ?env clk rid sv | RecordTimeout \<Rightarrow> handle_recording_hung ?env clk rid dur sv
      | DurationOverflow \<Rightarrow> handle_recording_overflow ?env clk rid sv)" for err rid dur
    by (auto simp: recording_handlers Let_def intro!: calmly_bind split: capture_record_error.split)
  show ?thesis
    unfolding record_and_handle_def Let_def env
    by (intro calmly_bind calmly_match calmly_emits(1) recording_calm submit_clip_calm [where fmt = fmt and t = t, OF assms] failed) (rule staged)
qed

lemma handle_trigger_calm:
  assumes "\<And>t. trig = Inr t \<Longrightarrow> \<forall>k. fmt t @ ''-'' @ pad3 k \<noteq> cid"
  shows "calmly (still_known cd' cid m) (handle_trigger (station_env cd h cam pol fmt cfg lims it pt jt) clk trig sv)"
proof -
  have recorded: "calmly (still_known cd' cid m) (record_and_handle (station_env cd h cam pol fmt cfg lims it pt jt) clk t sv)"
    if "trig = Inr t" for t
    by (rule record_and_handle_calm [where fmt = fmt and t = t, OF assms [OF that]])
  show ?thesis
    by (auto simp: handle_trigger_def Let_def intro!: calmly_bind calmly_match recorded split: sum.split prod.split)
qed

fun trigger_time :: "capture_input \<Rightarrow> instant option" where
  "trigger_time (Trigger (Inr t) clk) = Some t"
| "trigger_time x = None"

lemma capture_turn_calm:
  assumes "\<And>t. trigger_time x = Some t \<Longrightarrow> \<forall>k. fmt t @ ''-'' @ pad3 k \<noteq> cid"
  shows "calmly (still_known cd' cid m) (run_loop (station_env cd h cam pol fmt cfg lims it pt jt) [x] sv)"
proof (cases x)
  case (Trigger trig clk)
  have "\<forall>k. fmt t @ ''-'' @ pad3 k \<noteq> cid" if "trig = Inr t" for t using assms Trigger that by simp
  then show ?thesis
    unfolding Trigger run_loop.simps by (intro calmly_bind handle_trigger_calm) auto
next
  case (Tick now level)
  show ?thesis
    unfolding Tick by (auto simp: update_liveness_def intro!: calmly_bind split: prod.split)
qed (auto intro!: calmly_bind)

section \<open>The transition system\<close>

text \<open>
  The station is down, or up with a service. A boot starts from the disk the last run left; the sequence number of
  clip identifiers starts over.
\<close>

datatype ('b, 'u, 'c) station = Down (disk: "'b world") | Up (disk: "'b world") "('b, 'u, 'c) service"

text \<open>
  The turns. The delivery loop, the poller and the boot meet any fault schedule and may die in it; a turn of the capture
  worker runs on a working host (a crash inside an eviction leaves no trace in the log), where it may still die of a panic of
  its clock arithmetic. \<open>T\<close> holds the times of the triggers. What a clip is known by is its id, which is made from the time of the trigger: the
  property below asks that no trigger of the run has the time of the clip it follows.
\<close>

inductive turn ::
  "('b, 'u, 'c) plant \<Rightarrow> config \<Rightarrow> instant set \<Rightarrow> ('b, 'u, 'c) station \<Rightarrow> ('b, 'u, 'c) station \<Rightarrow> bool" for pt cfg T where
  boots: "serve_boot pt cfg tick0 identity cl (w\<lparr>seq := 0\<rparr>) fs = (Ok sr, w', fs') \<Longrightarrow> turn pt cfg T (Down w) (Up w' sr)"
| fails: "serve_boot pt cfg tick0 identity cl (w\<lparr>seq := 0\<rparr>) fs = (r, w', fs') \<Longrightarrow> (\<And>sr. r \<noteq> Ok sr) \<Longrightarrow>
    turn pt cfg T (Down w) (Down w')"
| rests: "sr_flight sr = None \<Longrightarrow>
    begin_iteration (sr_runner sr) (sr_logged sr) now ts False w fs = (Ok (Inl (next, logged)), w', fs') \<Longrightarrow>
    turn pt cfg T (Up w sr) (Up w' (sr\<lparr>sr_logged := logged\<rparr>))"
| claims: "sr_flight sr = None \<Longrightarrow>
    begin_iteration (sr_runner sr) (sr_logged sr) now ts False w fs = (Ok (Inr e), w', fs') \<Longrightarrow>
    turn pt cfg T (Up w sr) (Up w' (sr\<lparr>sr_flight := Some e\<rparr>))"
| claim_dies: "sr_flight sr = None \<Longrightarrow>
    begin_iteration (sr_runner sr) (sr_logged sr) now ts False w fs = (Crashed, w', fs') \<Longrightarrow>
    turn pt cfg T (Up w sr) (Down w')"
| settles: "sr_flight sr = Some e \<Longrightarrow>
    end_iteration (sr_runner sr) (sr_logged sr) ts False e w fs = (Ok (next, logged), w', fs') \<Longrightarrow>
    turn pt cfg T (Up w sr) (Up w' (sr\<lparr>sr_flight := None, sr_logged := logged\<rparr>))"
| settle_dies: "sr_flight sr = Some e \<Longrightarrow>
    end_iteration (sr_runner sr) (sr_logged sr) ts False e w fs = (Crashed, w', fs') \<Longrightarrow>
    turn pt cfg T (Up w sr) (Down w')"
| polls: "poller_iteration (sr_poller sr) i (sr_polled sr) w fs = (Ok (st, next), w', fs') \<Longrightarrow>
    turn pt cfg T (Up w sr) (Up w' (sr\<lparr>sr_polled := st\<rparr>))"
| poll_dies: "poller_iteration (sr_poller sr) i (sr_polled sr) w fs = (Crashed, w', fs') \<Longrightarrow>
    turn pt cfg T (Up w sr) (Down w')"
| captures: "sr_capture sr = Some (env, sv) \<Longrightarrow> run_loop env [x] sv w [] = (Ok sv', w', fs') \<Longrightarrow>
    set_option (trigger_time x) \<subseteq> T \<Longrightarrow> x \<noteq> Cancelled \<Longrightarrow>
    turn pt cfg T (Up w sr) (Up w' (sr\<lparr>sr_capture := Some (env, sv')\<rparr>))"
| capture_dies: "sr_capture sr = Some (env, sv) \<Longrightarrow> run_loop env [x] sv w [] = (Crashed, w', fs') \<Longrightarrow>
    set_option (trigger_time x) \<subseteq> T \<Longrightarrow> x \<noteq> Cancelled \<Longrightarrow>
    turn pt cfg T (Up w sr) (Down w')"
| reloads: "reload_service built sr w fs = (Ok sr', w', fs') \<Longrightarrow> turn pt cfg T (Up w sr) (Up w' sr')"
| stops: "turn pt cfg T (Up w sr) (Down (w\<lparr>journal := journal w @ [ServiceEv (ServiceShutdown reason)]\<rparr>))"
| killed: "turn pt cfg T (Up w sr) (Down w)"

inductive_cases boot_turnE: "turn pt cfg T (Down w) s"
inductive_cases up_turnE: "turn pt cfg T (Up w sr) s"

text \<open>What the boot wires up stays wired: one codec for all workers, the inbox and camera of the station.\<close>

fun wired :: "('b, 'u, 'c) plant \<Rightarrow> config \<Rightarrow> ('b, 'u, 'c) station \<Rightarrow> bool" where
  "wired pt cfg (Down w) \<longleftrightarrow> True"
| "wired pt cfg (Up w sr) \<longleftrightarrow> rn_codec (sr_runner sr) = pt_codec pt \<and>
     (\<forall>env sv. sr_capture sr = Some (env, sv) \<longrightarrow> (\<exists>hw. env = capture_env_of pt cfg hw))"

lemma spawned_wired:
  "wlp (spawn_capture_task pt cfg purged) (\<lambda>c _. \<forall>env sv. c = Some (env, sv) \<longrightarrow> (\<exists>hw. env = capture_env_of pt cfg hw))
     (\<lambda>_ _. True) (\<lambda>_. True) w"
  by (auto simp: spawn_capture_task_def start_capture_def Let_def wlp_simps wlp_match split: option.split sum.split)

lemma boot_wired:
  assumes "serve_boot pt cfg tick0 identity cl w fs = (Ok sr, w', fs')"
  shows "wired pt cfg (Up w' sr)"
proof -
  have "wlp (serve_boot pt cfg tick0 identity cl) (\<lambda>sr w'. wired pt cfg (Up w' sr)) (\<lambda>_ _. True) (\<lambda>_. True) w"
    unfolding serve_boot_def
    apply (simp add: wlp_simps case_prod_beta)
    apply (rule wlp_mono [OF preserves_wlp [of "\<lambda>_. True"]])
    apply (auto simp: preserves_def wlp_simps new_runner_def)
    apply (rule wlp_mono [OF spawned_wired])
    apply auto
    done
  from wlp_run [OF this assms] show ?thesis by simp
qed

lemma turn_wired: "turn pt cfg T s s' \<Longrightarrow> wired pt cfg s \<Longrightarrow> wired pt cfg s'"
  by (induction rule: turn.induct)
    (auto simp: boot_wired simp del: wired.simps, auto simp: reload_service_def bind_io_def match_io_def emit_def ret_def reload_client_def split: sum.splits prod.splits)

lemma turn_traced:
  assumes "turn pt cfg T s s'" "wired pt cfg s" "codec_ok (pt_codec pt)" "cid \<noteq> []"
    and "\<And>t k. t \<in> T \<Longrightarrow> pt_fmt pt t @ ''-'' @ pad3 k \<noteq> cid"
    and "in_queue (pt_codec pt) cid m (disk s)"
  shows "traced (pt_codec pt) cid m (disk s')"
  using assms
proof (induction rule: turn.induct)
  case (boots tick0 identity cl w fs sr w' fs')
  then show ?case using wlp_run [OF serve_boot_traced [of pt cid m "w\<lparr>seq := 0\<rparr>"] boots(1)] by simp
next
  case (fails tick0 identity cl w fs r w' fs')
  then show ?case using wlp_run [OF serve_boot_traced [of pt cid m "w\<lparr>seq := 0\<rparr>"] fails(1)] by (auto split: res.splits)
next
  case (rests sr now ts w fs nx logged w' fs')
  then show ?case using wlp_run [OF begin_iteration_kept [of "sr_runner sr" cid m w] rests(2)] by simp
next
  case (claims sr now ts w fs e w' fs')
  then show ?case using wlp_run [OF begin_iteration_kept [of "sr_runner sr" cid m w] claims(2)] by simp
next
  case (claim_dies sr now ts w fs w' fs')
  then show ?case using wlp_run [OF begin_iteration_kept [of "sr_runner sr" cid m w] claim_dies(2)] by simp
next
  case (settles sr e ts w fs nx logged w' fs')
  then show ?case using wlp_run [OF end_iteration_kept [of "sr_runner sr" cid m w] settles(2)] by auto
next
  case (settle_dies sr e ts w fs w' fs')
  then show ?case using wlp_run [OF end_iteration_kept [of "sr_runner sr" cid m w] settle_dies(2)] by auto
next
  case (polls sr i w fs st nx w' fs')
  then show ?case using wlp_run [OF poller_in_queue polls(1)] by simp
next
  case (poll_dies sr i w fs w' fs')
  then show ?case using wlp_run [OF poller_in_queue poll_dies(1)] by simp
next
  case (captures sr env sv x w sv' w' fs')
  obtain hw where env: "env = capture_env_of pt cfg hw" using captures by auto
  have "calmly (still_known (pt_codec pt) cid m) (run_loop env [x] sv)"
    unfolding env capture_env_of_def by (rule capture_turn_calm) (use captures in auto)
  then show ?case using captures(2) captures.prems by (auto simp: calmly_def)
next
  case (capture_dies sr env sv x w w' fs')
  obtain hw where env: "env = capture_env_of pt cfg hw" using capture_dies by auto
  have "calmly (still_known (pt_codec pt) cid m) (run_loop env [x] sv)"
    unfolding env capture_env_of_def by (rule capture_turn_calm) (use capture_dies in auto)
  then show ?case using capture_dies(2) capture_dies.prems by (auto simp: calmly_def)
next
  case (reloads built sr w fs sr' w' fs')
  then show ?case
    by (auto simp: reload_service_def bind_io_def match_io_def emit_def ret_def split: sum.splits prod.splits)
qed auto

lemma run_wired: "(turn pt cfg T)\<^sup>*\<^sup>* s s' \<Longrightarrow> wired pt cfg s \<Longrightarrow> wired pt cfg s'"
  by (induction rule: rtranclp_induct) (auto intro: turn_wired)

lemma waiting_in_queue: "phase_of cd cid w = Waiting e m \<Longrightarrow> in_queue cd cid m w"
  by (auto simp: phase_of_Waiting in_queue_def media_once_def)

section \<open>Properties\<close>

text \<open>
  C1: Nothing is lost in silence. Take any station that ever booted and any clip that waits in its queue. Let the
  delivery loop, the poller and the capture worker take any number of turns in any order, with every answer of
  the server; let the host inject any faults into boots, deliveries and polls, let the process die in the middle of one of
  their system calls, die of a panic of the capture worker, be killed between two turns, and boot again, as often as it may. Then the recording is still in exactly one
  place, or at some point on the way a terminal record of the clip was on disk, or the log had said that the clip was evicted or its
  recording swept. The conditions are that the turns of the capture worker, which evicts, meet a working host, and that no
  new trigger carries the time stamp of the clip.
\<close>

theorem no_silent_loss:
  assumes "codec_ok (pt_codec pt)" "cid \<noteq> []" and booted: "(turn pt cfg UNIV)\<^sup>*\<^sup>* (Down w) s0"
    and waiting: "phase_of (pt_codec pt) cid (disk s0) = Waiting e m"
    and run: "(turn pt cfg T)\<^sup>*\<^sup>* s0 s"
    and fresh: "\<And>t k. t \<in> T \<Longrightarrow> pt_fmt pt t @ ''-'' @ pad3 k \<noteq> cid"
  shows "media_once cid m (disk s) \<or>
    (\<exists>s1. (turn pt cfg T)\<^sup>*\<^sup>* s0 s1 \<and> (turn pt cfg T)\<^sup>*\<^sup>* s1 s \<and>
       (filed_as_done (pt_codec pt) cid (disk s1) \<or> reported_gone cid (disk s1)))"
proof -
  have wired: "wired pt cfg s0" using run_wired [OF booted] by simp
  from run have "in_queue (pt_codec pt) cid m (disk s) \<or>
    (\<exists>s1. (turn pt cfg T)\<^sup>*\<^sup>* s0 s1 \<and> (turn pt cfg T)\<^sup>*\<^sup>* s1 s \<and>
       (filed_as_done (pt_codec pt) cid (disk s1) \<or> reported_gone cid (disk s1)))"
  proof (induction rule: rtranclp_induct)
    case base
    then show ?case using waiting_in_queue [OF waiting] by blast
  next
    case (step y z)
    have "wired pt cfg y" using run_wired [OF step(1) wired] .
    from turn_traced [OF step(2) this assms(1,2) fresh] have
      "in_queue (pt_codec pt) cid m (disk y) \<Longrightarrow> traced (pt_codec pt) cid m (disk z)" .
    with step show ?case by (meson rtranclp.rtrancl_into_rtrancl rtranclp.rtrancl_refl)
  qed
  then show ?thesis by (auto simp: in_queue_def)
qed

lemma ex_claim:
  assumes "files w = files ex_waiting"
  shows "case begin_iteration (new_runner ex_plant default_config ex_id ex_client) l 10 ex_reads False w [] of
     (r, w', fs') \<Rightarrow> r = Ok (Inr (mark_attempt 30 ex_entry)) \<and> look w' (media_at PendingDir ''a'') = None"
  using assms
  by (simp add: exec_simps begin_iteration_def claim_next_def new_runner_def ex_plant_def ex_id_def cert_is_expired_def ex_waiting_def
      store_op_def ex_entry_def new_entry_def ex_reads_def)

theorem no_silent_loss_witness:
  "\<exists>w'. (turn ex_plant default_config {})\<^sup>*\<^sup>* (Down ex_waiting) (Down w') \<and> look w' (media_at PendingDir ''a'') = None \<and>
     (media_once ''a'' (Bytes 5) w' \<or>
      (\<exists>s1. (turn ex_plant default_config {})\<^sup>*\<^sup>* (Down ex_waiting) s1 \<and> (turn ex_plant default_config {})\<^sup>*\<^sup>* s1 (Down w') \<and>
         (filed_as_done blob_codec ''a'' (disk s1) \<or> reported_gone ''a'' (disk s1))))"
proof -
  let ?turn = "turn ex_plant default_config {}"
  obtain sr w1 fs1 where boot: "serve_boot ex_plant default_config 0 ex_id ex_client (ex_waiting\<lparr>seq := 0\<rparr>) [] = (Ok sr, w1, fs1)"
    and sr: "sr_flight sr = None" "sr_runner sr = new_runner ex_plant default_config ex_id ex_client" "files w1 = files ex_waiting"
    using ex_boot by (auto split: prod.splits res.splits)
  obtain w2 fs2 where claim: "begin_iteration (sr_runner sr) (sr_logged sr) 10 ex_reads False w1 [] = (Ok (Inr (mark_attempt 30 ex_entry)), w2, fs2)"
    and moved: "look w2 (media_at PendingDir ''a'') = None"
    using ex_claim [OF sr(3), of "sr_logged sr"] unfolding sr(2) by (auto split: prod.splits)
  have run: "?turn\<^sup>*\<^sup>* (Down ex_waiting) (Down w2)"
  proof -
    have "?turn (Down ex_waiting) (Up w1 sr)" using boot by (rule turn.boots)
    moreover have "?turn (Up w1 sr) (Up w2 (sr\<lparr>sr_flight := Some (mark_attempt 30 ex_entry)\<rparr>))"
      using sr(1) claim by (rule turn.claims)
    moreover have "?turn (Up w2 (sr\<lparr>sr_flight := Some (mark_attempt 30 ex_entry)\<rparr>)) (Down w2)" by (rule turn.killed)
    ultimately show ?thesis by (meson converse_rtranclp_into_rtranclp r_into_rtranclp)
  qed
  have "phase_of (pt_codec ex_plant) ''a'' (disk (Down ex_waiting)) = Waiting ex_entry (Bytes 5)" by simp
  from no_silent_loss [OF _ _ rtranclp.rtrancl_refl this run] have
    "media_once ''a'' (Bytes 5) w2 \<or> (\<exists>s1. ?turn\<^sup>*\<^sup>* (Down ex_waiting) s1 \<and> ?turn\<^sup>*\<^sup>* s1 (Down w2) \<and>
       (filed_as_done blob_codec ''a'' (disk s1) \<or> reported_gone ''a'' (disk s1)))" by simp
  with run moved show ?thesis by blast
qed

end
