(* ===== verification/Qr_Camera.thy ===== *)
theory Qr_Camera
  imports Serve
begin

text \<open>
  The still camera behind \<^verbatim>\<open>enroll --qr-source camera\<close>: \<^verbatim>\<open>crates/perchstation-hw/src/camera_qr.rs\<close> and its construction in
  \<^verbatim>\<open>crates/perchstation/src/commands/enroll.rs\<close>. What the external command does is a parameter; the temporary
  directory is gone when the frame has been read and is not part of the model's disk.
\<close>

record camera_qr_source =
  qr_binary :: string
  qr_width :: u32
  qr_height :: u32
  qr_timeout_ms :: u32

definition default_qr_source :: camera_qr_source where
  "default_qr_source = \<lparr> qr_binary = ''rpicam-still'', qr_width = 800, qr_height = 600, qr_timeout_ms = 2000 \<rparr>"

definition with_qr_binary :: "string \<Rightarrow> camera_qr_source \<Rightarrow> camera_qr_source" where
  "with_qr_binary b src = src\<lparr>qr_binary := b\<rparr>"

datatype still_error =
    Tempdir io_error
  | NonZero string "int option" string
  | NoOutput string string
  | StillDecode string

text \<open>
  The host: the temporary directory and its path, the command (\<open>Inl\<close>: it cannot be spawned; otherwise its exit code,
  \<open>None\<close> when a signal killed it, its error output, and the bytes of the output file, if it wrote one), and the decoder of
  images.
\<close>

record 'p still_host =
  sh_tempdir :: "io_error + string"
  sh_command :: "string list \<Rightarrow> string + (int option \<times> string \<times> (io_error + string) option)"
  sh_decode :: "string \<Rightarrow> string + 'p gray_image"
  sh_io_text :: "io_error \<Rightarrow> string"

definition still_command :: "camera_qr_source \<Rightarrow> string \<Rightarrow> string list" where
  "still_command src out =
     [qr_binary src, ''--immediate'', ''--nopreview'', ''--width'', show_nat (qr_width src), ''--height'', show_nat (qr_height src),
      ''--timeout'', show_nat (qr_timeout_ms src), ''--output'', out]"

definition capture_still :: "'p still_host \<Rightarrow> camera_qr_source \<Rightarrow> still_error + 'p gray_image" where
  "capture_still h src =
     (case sh_tempdir h of
        Inl err \<Rightarrow> Inl (Tempdir err)
      | Inr dir \<Rightarrow>
          (let out = dir @ ''/qr.jpg'' in
           case sh_command h (still_command src out) of
             Inl err \<Rightarrow> Inl (NonZero (qr_binary src) None (''spawn error: '' @ err))
           | Inr (status, stderr, output) \<Rightarrow>
               if status \<noteq> Some 0 then Inl (NonZero (qr_binary src) status stderr)
               else
                 (case output of
                    None \<Rightarrow> Inl (NoOutput (qr_binary src) out)
                  | Some (Inl err) \<Rightarrow> Inl (Tempdir err)
                  | Some (Inr bytes) \<Rightarrow> (case sh_decode h bytes of Inl msg \<Rightarrow> Inl (StillDecode msg) | Inr img \<Rightarrow> Inr img))))"

fun option_debug :: "int option \<Rightarrow> string" where
  "option_debug None = ''None''"
| "option_debug (Some i) = ''Some('' @ show_int i @ '')''"

fun still_error_text :: "(io_error \<Rightarrow> string) \<Rightarrow> still_error \<Rightarrow> string" where
  "still_error_text io_text (Tempdir err) = ''failed to create capture tempdir: '' @ io_text err"
| "still_error_text io_text (NonZero b status stderr) = ''`'' @ b @ ''` exited '' @ option_debug status @ '': '' @ stderr"
| "still_error_text io_text (NoOutput b p) = ''`'' @ b @ ''` produced no output file at '' @ p"
| "still_error_text io_text (StillDecode msg) = ''could not decode captured JPEG: '' @ msg"

definition next_camera_frame :: "'p still_host \<Rightarrow> camera_qr_source \<Rightarrow> qr_frame_error + 'p gray_image" where
  "next_camera_frame h src =
     (case capture_still h src of
        Inr img \<Rightarrow> Inr img
      | Inl (Tempdir err) \<Rightarrow> Inl (FrameIo err)
      | Inl (StillDecode msg) \<Rightarrow> Inl (FrameDecode msg)
      | Inl err \<Rightarrow> Inl (qr_frame_error.Unavailable (still_error_text (sh_io_text h) err)))"

text \<open>\<^verbatim>\<open>build_camera_source\<close>: the hardware section is decoded but not validated.\<close>

definition build_camera_source :: "string + capture_hw_config \<Rightarrow> command_error + camera_qr_source" where
  "build_camera_source hw =
     (case hw of Inl _ \<Rightarrow> Inl CmdConfig | Inr c \<Rightarrow> Inr (with_qr_binary (camera_still_command c) default_qr_source))"

text \<open>The environment of an enrollment with this camera.\<close>

definition with_still_camera :: "string + capture_hw_config \<Rightarrow> 'p still_host \<Rightarrow> ('k, 'p) enroll_env \<Rightarrow> ('k, 'p) enroll_env" where
  "with_still_camera hw h env =
     (case build_camera_source hw of
        Inl _ \<Rightarrow> env\<lparr>hw_config_ok := False\<rparr>
      | Inr src \<Rightarrow> env\<lparr>hw_config_ok := True, camera_frame := next_camera_frame h src\<rparr>)"

text \<open>A frame is the decoded output of a command that ended well.\<close>

lemma camera_frame_genuine:
  assumes "next_camera_frame h src = Inr img"
  shows "\<exists>dir stderr bytes. sh_tempdir h = Inr dir \<and> sh_command h (still_command src (dir @ ''/qr.jpg'')) = Inr (Some 0, stderr, Some (Inr bytes)) \<and>
    sh_decode h bytes = Inr img"
  using assms
  by (auto simp: next_camera_frame_def capture_still_def Let_def split: sum.splits still_error.splits prod.splits option.splits if_splits)

text \<open>
  An empty name of the still command passes the construction, so the enrollment fails when it spawns the command and not with
  the configuration error that \<^verbatim>\<open>validate\<close> is there for; \<^verbatim>\<open>serve\<close>, which never uses this command, gives up
  capturing because of it.
\<close>

lemma empty_still_command:
  assumes "camera_still_command hw = []" "qr_source args = CameraSource"
    and "\<And>out. \<exists>err. sh_command h ([] # out) = Inl err"
  shows "validate_hw hw \<noteq> Inr ()" "\<exists>err. acquire_frame lib (with_still_camera (Inr hw) h env) args = Inl (Some err)"
proof -
  show "validate_hw hw \<noteq> Inr ()" using assms(1) by (simp add: validate_hw_def)
  have "\<exists>err. next_camera_frame h (with_qr_binary [] default_qr_source) = Inl err"
  proof (cases "next_camera_frame h (with_qr_binary [] default_qr_source)")
    case (Inr img)
    then obtain out r where "sh_command h ([] # out) = Inr r"
      by (auto dest!: camera_frame_genuine simp: still_command_def with_qr_binary_def)
    then show ?thesis using assms(3) [of out] by simp
  qed simp
  then show "\<exists>err. acquire_frame lib (with_still_camera (Inr hw) h env) args = Inl (Some err)"
    using assms(1,2) by (auto simp: acquire_frame_def with_still_camera_def build_camera_source_def)
qed

end
