(* ===== verification/Status.thy ===== *)
theory Status
  imports Identity Delivery_Runner Capture_Staging
begin

text \<open>
  The status snapshot, \<^verbatim>\<open>crates/perchstation-core/src/observability/status.rs\<close>, and the command that
  asks for it, \<^verbatim>\<open>crates/perchstation/src/commands/status.rs\<close>. The snapshot reads two kinds of entries of the
  data directory, which are two worlds here: the credentials (theory \<open>Identity\<close>) and the queue (theory \<open>Fs\<close>),
  each with its own fault schedule. The rendering of a snapshot as text or JSON is left out.
\<close>

section \<open>Data\<close>

datatype status_error = StatusIo path io_error | StatusParse path | StatusIdentity identity_error

datatype enrollment_state = EnrollmentOk | EnrollmentMissing | EnrollmentExpired

record enrollment_snapshot =
  es_state :: enrollment_state
  es_station_id :: "uuid option"
  es_cert_not_after :: "instant option"
  es_perchpub_url :: "string option"

record queue_snapshot =
  qs_pending :: u32
  qs_inflight :: u32
  qs_bytes_on_disk :: u64

record success_snapshot =
  ss_at :: instant
  ss_clip_id :: string
  ss_task_id :: "uuid option"
  ss_classify_status :: "classify_task_status option"

record delivery_failure_snapshot =
  df_at :: instant
  df_clip_id :: string
  df_kind :: string
  df_status :: "u16 option"
  df_message :: string

record recent_entry =
  re_clip_id :: string
  re_classify_status :: "classify_task_status option"
  re_delivered_at :: instant

record status_snapshot =
  st_enrollment :: enrollment_snapshot
  st_queue :: queue_snapshot
  st_last_success :: "success_snapshot option"
  st_last_failure :: "delivery_failure_snapshot option"
  st_recent :: "recent_entry list"
  st_capture :: capture_state

section \<open>Reading the credentials\<close>

definition take_enrollment_snapshot :: "'k cred_lib \<Rightarrow> instant \<Rightarrow> (status_error, enrollment_snapshot) cred_io" where
  "take_enrollment_snapshot cl now =
     bind_io (attempt (dir_read creds_path identity_name)) (\<lambda>found.
     case found of
       Inl _ \<Rightarrow> ret \<lparr> es_state = EnrollmentMissing, es_station_id = None, es_cert_not_after = None, es_perchpub_url = None \<rparr>
     | Inr _ \<Rightarrow>
         bind_io (map_err StatusIdentity (load_identity cl)) (\<lambda>identity.
         ret \<lparr> es_state = (if cert_is_expired (cert_not_after identity) now then EnrollmentExpired else EnrollmentOk),
               es_station_id = Some (station_id identity), es_cert_not_after = Some (cert_not_after identity),
               es_perchpub_url = Some (si_perchpub_url identity) \<rparr>))"

section \<open>Reading the queue\<close>

definition count_sidecars :: "dir \<Rightarrow> ('b, status_error, u32) io" where
  "count_sidecars d =
     bind_io (map_err (StatusIo (dir_path d)) (sum_dir d (\<lambda>n. ret (if has_ext ''json'' n then 1 else 0)))) (\<lambda>count.
     ret (if count \<le> u32_max then count else u32_max))"

definition sum_mp4_bytes :: "'b codec \<Rightarrow> dir \<Rightarrow> ('b, status_error, u64) io" where
  "sum_mp4_bytes cd d =
     map_err (StatusIo (dir_path d)) (sum_dir d (\<lambda>n. if has_ext ''mp4'' n then fs_metadata_len cd (d, n) else ret 0))"

definition take_queue_snapshot :: "'b codec \<Rightarrow> ('b, status_error, queue_snapshot) io" where
  "take_queue_snapshot cd =
     bind_io (count_sidecars PendingDir) (\<lambda>pending.
     bind_io (count_sidecars InflightDir) (\<lambda>inflight.
     bind_io (sum_mp4_bytes cd PendingDir) (\<lambda>a.
     bind_io (sum_mp4_bytes cd InflightDir) (\<lambda>b.
     ret \<lparr> qs_pending = pending, qs_inflight = inflight, qs_bytes_on_disk = wrap_u64 (a + b) \<rparr>))))"

fun sidecar_status_error :: "path \<Rightarrow> queue_error \<Rightarrow> status_error" where
  "sidecar_status_error p (Deserialise q) = StatusParse q"
| "sidecar_status_error p (Io q err) = StatusIo q err"
| "sidecar_status_error p _ = StatusIo p (OtherIo 0)"

fun load_delivered_loop :: "'b codec \<Rightarrow> string list \<Rightarrow> ('b, status_error, clip_queue_entry list) io" where
  "load_delivered_loop cd [] = ret []"
| "load_delivered_loop cd (n # ns) =
     bind_io (map_err (StatusIo (dir_path DeliveredDir)) fs_next_entry) (\<lambda>_.
     if \<not> has_ext ''json'' n then load_delivered_loop cd ns
     else
       bind_io (map_err (sidecar_status_error (DeliveredDir, n)) (read_sidecar cd (DeliveredDir, n))) (\<lambda>e.
       bind_io (load_delivered_loop cd ns) (\<lambda>es. ret (e # es))))"

definition load_delivered :: "'b codec \<Rightarrow> ('b, status_error, clip_queue_entry list) io" where
  "load_delivered cd =
     match_io (fs_read_dir DeliveredDir) (load_delivered_loop cd)
       (\<lambda>err. if err = NotFound then ret [] else throw (StatusIo (dir_path DeliveredDir) err))"

section \<open>What is shown of the delivered clips\<close>

text \<open>\<^verbatim>\<open>Iterator::max_by_key\<close>: the last of the largest elements.\<close>

definition max_by_key :: "('a \<Rightarrow> instant) \<Rightarrow> 'a list \<Rightarrow> 'a option" where
  "max_by_key key xs =
     foldl (\<lambda>best x. case best of None \<Rightarrow> Some x | Some b \<Rightarrow> if key x < key b then Some b else Some x) None xs"

definition pick_last_success :: "clip_queue_entry list \<Rightarrow> success_snapshot option" where
  "pick_last_success delivered =
     map_option (\<lambda>e. \<lparr> ss_at = the (delivered_at e), ss_clip_id = clip_id e, ss_task_id = classify_task_id e,
        ss_classify_status = last_classify_status e \<rparr>)
       (max_by_key (\<lambda>e. the (delivered_at e))
         (filter (\<lambda>e. delivered_at e \<noteq> None) (filter (\<lambda>e. entry_outcome e = Some Delivered) delivered)))"

definition failed_at :: "clip_queue_entry \<Rightarrow> instant option" where
  "failed_at e = (case delivered_at e of Some t \<Rightarrow> Some t | None \<Rightarrow> last_attempt_at e)"

definition pick_last_failure :: "clip_queue_entry list \<Rightarrow> delivery_failure_snapshot option" where
  "pick_last_failure delivered =
     map_option (\<lambda>e.
        let (kind, status, message) =
              (case last_err e of None \<Rightarrow> (''undeliverable'', None, []) | Some le \<Rightarrow> (le_kind le, le_status le, le_message le)) in
        \<lparr> df_at = the (failed_at e), df_clip_id = clip_id e, df_kind = kind, df_status = status, df_message = message \<rparr>)
       (max_by_key (\<lambda>e. the (failed_at e))
         (filter (\<lambda>e. delivered_at e \<noteq> None \<or> last_attempt_at e \<noteq> None)
           (filter (\<lambda>e. entry_outcome e = Some Undeliverable) delivered)))"

definition recent_limit :: nat where
  "recent_limit = 3"

definition build_recent :: "clip_queue_entry list \<Rightarrow> recent_entry list" where
  "build_recent delivered =
     map (\<lambda>e. \<lparr> re_clip_id = clip_id e, re_classify_status = last_classify_status e, re_delivered_at = the (delivered_at e) \<rparr>)
       (take recent_limit (sort_key (\<lambda>e. - the (delivered_at e)) (filter (\<lambda>e. delivered_at e \<noteq> None) delivered)))"

section \<open>The snapshot\<close>

definition take_snapshot ::
  "'k cred_lib \<Rightarrow> 'b codec \<Rightarrow> instant \<Rightarrow> capture_state option \<Rightarrow> cdir world \<times> cdir fault list \<Rightarrow> 'b world \<times> 'b fault list
     \<Rightarrow> (status_error, status_snapshot) res \<times> cdir world \<times> 'b world" where
  "take_snapshot cl cd now capture creds queue =
     (case take_enrollment_snapshot cl now (fst creds) (snd creds) of
        (Err err, cw, _) \<Rightarrow> (Err err, cw, fst queue)
      | (Crashed, cw, _) \<Rightarrow> (Crashed, cw, fst queue)
      | (Ok enrollment, cw, _) \<Rightarrow>
          (case bind_io (take_queue_snapshot cd) (\<lambda>q. bind_io (load_delivered cd) (\<lambda>delivered. ret (q, delivered))) (fst queue) (snd queue) of
             (Err err, w, _) \<Rightarrow> (Err err, cw, w)
           | (Crashed, w, _) \<Rightarrow> (Crashed, cw, w)
           | (Ok (q, delivered), w, _) \<Rightarrow>
               (Ok \<lparr> st_enrollment = enrollment, st_queue = q, st_last_success = pick_last_success delivered,
                     st_last_failure = pick_last_failure delivered, st_recent = build_recent delivered,
                     st_capture = (case capture of Some c \<Rightarrow> c | None \<Rightarrow> new_capture_state) \<rparr>, cw, w)))"

text \<open>The command runs outside the process that captures, so it has no capture projection to show.\<close>

definition run_status ::
  "'k cred_lib \<Rightarrow> 'b codec \<Rightarrow> instant \<Rightarrow> cdir world \<times> cdir fault list \<Rightarrow> 'b world \<times> 'b fault list
     \<Rightarrow> (status_error, status_snapshot) res \<times> cdir world \<times> 'b world" where
  "run_status cl cd now creds queue = take_snapshot cl cd now None creds queue"

section \<open>A snapshot is a pure read\<close>

lemma uniform_status [simp]:
  "uniform (take_enrollment_snapshot cl now)" "uniform (count_sidecars d)" "uniform (sum_mp4_bytes cd d)"
  "uniform (load_delivered_loop cd ns)"
proof -
  show "uniform (take_enrollment_snapshot cl now)" by (auto simp: take_enrollment_snapshot_def split: sum.split)
  show "uniform (count_sidecars d)" by (auto simp: count_sidecars_def sum_dir_def)
  show "uniform (sum_mp4_bytes cd d)" by (auto simp: sum_mp4_bytes_def sum_dir_def)
  show "uniform (load_delivered_loop cd ns)" by (induction ns) auto
qed

lemma uniform_load_delivered [simp]: "uniform (load_delivered cd)"
  by (auto simp: load_delivered_def)

lemma uniform_queue_snapshot [simp]: "uniform (take_queue_snapshot cd)"
  by (simp add: take_queue_snapshot_def)

lemma enrollment_snapshot_wlp:
  "wlp (take_enrollment_snapshot cl now) (\<lambda>_ w'. w' = w) (\<lambda>_ w'. w' = w) (\<lambda>w'. w' = w) w"
  by (auto simp: take_enrollment_snapshot_def load_identity_def read_to_string_def wlp_simps split: option.split sum.split)

definition json_count :: "dir \<Rightarrow> 'b world \<Rightarrow> nat" where
  "json_count d w = length (filter (has_ext ''json'') (listing d (files w)))"

definition mp4_bytes :: "'b codec \<Rightarrow> dir \<Rightarrow> 'b world \<Rightarrow> nat" where
  "mp4_bytes cd d w = sum_list (map (\<lambda>n. blen cd (the (look w (d, n)))) (filter (has_ext ''mp4'') (listing d (files w))))"

text \<open>The scan reads every name once; a file that is gone by the time it is read ends the scan.\<close>

lemma dir_scan_wlp:
  assumes "\<And>n. n \<in> set ns \<Longrightarrow> wlp (size_of n) (\<lambda>v w'. v = f n \<and> w' = w) (\<lambda>_ w'. w' = w) (\<lambda>w'. w' = w) w"
    and "\<And>n. uniform (size_of n)"
  shows "wlp (sum_dir_loop size_of ns tot)
     (\<lambda>v w'. v = foldl (sat_add u64_max) tot (map f ns) \<and> w' = w) (\<lambda>_ w'. w' = w) (\<lambda>w'. w' = w) w"
  using assms(1)
proof (induction ns arbitrary: tot)
  case Nil
  show ?case by (simp add: wlp_simps)
next
  case (Cons n ns)
  have rest: "wlp (sum_dir_loop size_of ns t) (\<lambda>v w'. v = foldl (sat_add u64_max) t (map f ns) \<and> w' = w) (\<lambda>_ w'. w' = w) (\<lambda>w'. w' = w) w" for t
    using Cons by auto
  have n: "wlp (size_of n) (\<lambda>v w'. v = f n \<and> w' = w) (\<lambda>_ w'. w' = w) (\<lambda>w'. w' = w) w"
    using Cons.prems by simp
  show ?case
    using assms(2) by (simp add: wlp_simps) (rule wlp_mono [OF n], auto intro: rest)
qed

lemma sum_dir_wlp:
  assumes "\<And>n. n \<in> set (listing d (files w)) \<Longrightarrow> wlp (size_of n) (\<lambda>v w'. v = f n \<and> w' = w) (\<lambda>_ w'. w' = w) (\<lambda>w'. w' = w) w"
    and "\<And>n. uniform (size_of n)"
  shows "wlp (sum_dir d size_of)
     (\<lambda>v w'. v = min (sum_list (map f (listing d (files w)))) u64_max \<and> w' = w) (\<lambda>_ w'. w' = w) (\<lambda>w'. w' = w) w"
proof -
  have "wlp (sum_dir_loop size_of (listing d (files w)) 0)
     (\<lambda>v w'. v = min (sum_list (map f (listing d (files w)))) u64_max \<and> w' = w) (\<lambda>_ w'. w' = w) (\<lambda>w'. w' = w) w"
    by (rule wlp_mono [OF dir_scan_wlp [where f = f, OF assms]]) (auto simp: foldl_sat_add)
  then show ?thesis
    using assms(2) by (auto simp: sum_dir_def wlp_match wlp_simps)
qed

lemma count_sidecars_wlp:
  "wlp (count_sidecars d) (\<lambda>v w'. v = min (json_count d w) u32_max \<and> w' = w) (\<lambda>_ w'. w' = w) (\<lambda>w'. w' = w) w"
proof -
  have sum: "sum_list (map (\<lambda>n. if has_ext ''json'' n then 1 else 0) ns) = length (filter (has_ext ''json'') ns)" for ns
    by (induction ns) auto
  have scan: "wlp (sum_dir d (\<lambda>n. ret (if has_ext ''json'' n then 1 else 0)))
     (\<lambda>v w'. v = min (json_count d w) u64_max \<and> w' = w) (\<lambda>_ w'. w' = w) (\<lambda>w'. w' = w) w"
    by (rule wlp_mono [OF sum_dir_wlp [where f = "\<lambda>n. if has_ext ''json'' n then 1 else 0"]])
      (auto simp: wlp_simps sum json_count_def)
  have u: "uniform (sum_dir d (\<lambda>n. ret (if has_ext ''json'' n then 1 else 0)))" by (simp add: sum_dir_def)
  have "u32_max \<le> u64_max" by (simp add: u32_max_def u64_max_def)
  then show ?thesis
    by (auto simp: count_sidecars_def wlp_simps u min_def intro!: wlp_mono [OF scan])
qed

lemma sum_mp4_wlp:
  "wlp (sum_mp4_bytes cd d) (\<lambda>v w'. v = min (mp4_bytes cd d w) u64_max \<and> w' = w) (\<lambda>_ w'. w' = w) (\<lambda>w'. w' = w) w"
proof -
  let ?f = "\<lambda>n. if has_ext ''mp4'' n then blen cd (the (look w (d, n))) else 0"
  have sum: "sum_list (map ?f ns) = sum_list (map (\<lambda>n. blen cd (the (look w (d, n)))) (filter (has_ext ''mp4'') ns))" for ns
    by (induction ns) auto
  have "wlp (sum_dir d (\<lambda>n. if has_ext ''mp4'' n then fs_metadata_len cd (d, n) else ret 0))
     (\<lambda>v w'. v = min (mp4_bytes cd d w) u64_max \<and> w' = w) (\<lambda>_ w'. w' = w) (\<lambda>w'. w' = w) w"
    by (rule wlp_mono [OF sum_dir_wlp [where f = ?f]])
      (auto simp: wlp_simps sum mp4_bytes_def split: option.split)
  then show ?thesis
    by (simp add: sum_mp4_bytes_def wlp_simps sum_dir_def)
qed

definition queue_view :: "'b codec \<Rightarrow> 'b world \<Rightarrow> queue_snapshot" where
  "queue_view cd w = \<lparr> qs_pending = min (json_count PendingDir w) u32_max, qs_inflight = min (json_count InflightDir w) u32_max,
     qs_bytes_on_disk = wrap_u64 (min (mp4_bytes cd PendingDir w) u64_max + min (mp4_bytes cd InflightDir w) u64_max) \<rparr>"

lemma queue_snapshot_wlp:
  "wlp (take_queue_snapshot cd) (\<lambda>q w'. q = queue_view cd w \<and> w' = w) (\<lambda>_ w'. w' = w) (\<lambda>w'. w' = w) w"
  unfolding take_queue_snapshot_def
  by (auto simp: wlp_simps queue_view_def intro!: wlp_mono [OF count_sidecars_wlp] wlp_mono [OF sum_mp4_wlp])

definition parsed :: "'b codec \<Rightarrow> 'b world \<Rightarrow> string list \<Rightarrow> clip_queue_entry list \<Rightarrow> bool" where
  "parsed cd w ns es \<longleftrightarrow>
     map (\<lambda>n. Option.bind (look w (DeliveredDir, n)) (dec cd)) (filter (has_ext ''json'') ns) = map Some es"

lemma load_delivered_loop_wlp:
  "wlp (load_delivered_loop cd ns) (\<lambda>es w'. parsed cd w ns es \<and> w' = w) (\<lambda>_ w'. w' = w) (\<lambda>w'. w' = w) w"
proof (induction ns)
  case Nil
  show ?case by (simp add: wlp_simps parsed_def)
next
  case (Cons n ns)
  have keep: "wlp (load_delivered_loop cd ns) (\<lambda>es w'. parsed cd w (n # ns) es \<and> w' = w) (\<lambda>_ w'. w' = w) (\<lambda>w'. w' = w) w"
    if "\<not> has_ext ''json'' n"
    by (rule wlp_mono [OF Cons.IH]) (use that in \<open>auto simp: parsed_def\<close>)
  have add: "wlp (load_delivered_loop cd ns) (\<lambda>es w'. parsed cd w (n # ns) (e # es) \<and> w' = w) (\<lambda>_ w'. w' = w) (\<lambda>w'. w' = w) w"
    if "has_ext ''json'' n" "look w (DeliveredDir, n) = Some b" "dec cd b = Some e" for b e
    by (rule wlp_mono [OF Cons.IH]) (use that in \<open>auto simp: parsed_def\<close>)
  show ?case
    by (auto simp: wlp_simps keep add read_sidecar_def split: option.split)
qed

lemma load_delivered_wlp:
  "wlp (load_delivered cd) (\<lambda>es w'. parsed cd w (listing DeliveredDir (files w)) es \<and> w' = w) (\<lambda>_ w'. w' = w) (\<lambda>w'. w' = w) w"
  by (auto simp: load_delivered_def wlp_match wlp_simps load_delivered_loop_wlp)

section \<open>What is picked\<close>

lemma max_by_key_spec:
  "case max_by_key key xs of None \<Rightarrow> xs = [] | Some x \<Rightarrow> x \<in> set xs \<and> (\<forall>y \<in> set xs. key y \<le> key x)"
proof (induction xs rule: rev_induct)
  case (snoc x xs)
  then show ?case
    by (auto simp: max_by_key_def split: option.splits)
qed (simp add: max_by_key_def)

lemma last_success_spec:
  "case pick_last_success es of
     None \<Rightarrow> \<forall>e \<in> set es. entry_outcome e = Some Delivered \<longrightarrow> delivered_at e = None
   | Some s \<Rightarrow> \<exists>e \<in> set es. entry_outcome e = Some Delivered \<and> delivered_at e = Some (ss_at s) \<and> ss_clip_id s = clip_id e \<and>
       ss_task_id s = classify_task_id e \<and> ss_classify_status s = last_classify_status e \<and>
       (\<forall>e' \<in> set es. \<forall>t. entry_outcome e' = Some Delivered \<longrightarrow> delivered_at e' = Some t \<longrightarrow> t \<le> ss_at s)"
proof -
  let ?xs = "filter (\<lambda>e. delivered_at e \<noteq> None) (filter (\<lambda>e. entry_outcome e = Some Delivered) es)"
  show ?thesis
    using max_by_key_spec [where key = "\<lambda>e. the (delivered_at e)" and xs = ?xs]
    by (auto simp: pick_last_success_def filter_empty_conv split: option.splits) force
qed

lemma last_failure_spec:
  "case pick_last_failure es of
     None \<Rightarrow> \<forall>e \<in> set es. entry_outcome e = Some Undeliverable \<longrightarrow> failed_at e = None
   | Some f \<Rightarrow> \<exists>e \<in> set es. entry_outcome e = Some Undeliverable \<and> failed_at e = Some (df_at f) \<and> df_clip_id f = clip_id e \<and>
       (\<forall>e' \<in> set es. \<forall>t. entry_outcome e' = Some Undeliverable \<longrightarrow> failed_at e' = Some t \<longrightarrow> t \<le> df_at f)"
proof -
  have at: "delivered_at e \<noteq> None \<or> last_attempt_at e \<noteq> None \<longleftrightarrow> failed_at e \<noteq> None" for e
    by (auto simp: failed_at_def split: option.split)
  let ?xs = "filter (\<lambda>e. failed_at e \<noteq> None) (filter (\<lambda>e. entry_outcome e = Some Undeliverable) es)"
  show ?thesis
  proof (cases "max_by_key (\<lambda>e. the (failed_at e)) ?xs")
    case None
    then have "?xs = []" using max_by_key_spec [where key = "\<lambda>e. the (failed_at e)" and xs = ?xs] by simp
    then show ?thesis using None unfolding pick_last_failure_def at by (auto simp: filter_empty_conv)
  next
    case (Some e)
    then have e: "e \<in> set ?xs" "\<forall>y \<in> set ?xs. the (failed_at y) \<le> the (failed_at e)"
      using max_by_key_spec [where key = "\<lambda>e. the (failed_at e)" and xs = ?xs] by simp_all
    then have "\<forall>e' \<in> set es. \<forall>t. entry_outcome e' = Some Undeliverable \<longrightarrow> failed_at e' = Some t \<longrightarrow> t \<le> the (failed_at e)"
      by force
    then show ?thesis
      using Some e(1) unfolding pick_last_failure_def at by (auto simp: Let_def split: option.splits intro!: bexI [of _ e])
  qed
qed

lemma recent_spec:
  "\<exists>shown hidden. mset (shown @ hidden) = mset (filter (\<lambda>e. delivered_at e \<noteq> None) es) \<and>
     map re_clip_id (build_recent es) = map clip_id shown \<and> length shown = min 3 (length (shown @ hidden)) \<and>
     sorted_wrt (\<lambda>a b. the (delivered_at b) \<le> the (delivered_at a)) (shown @ hidden)"
proof -
  let ?s = "sort_key (\<lambda>e. - the (delivered_at e)) (filter (\<lambda>e. delivered_at e \<noteq> None) es)"
  have "sorted (map (\<lambda>e. - the (delivered_at e)) ?s)" by simp
  then have "sorted_wrt (\<lambda>a b. the (delivered_at b) \<le> the (delivered_at a)) ?s"
    by (simp add: sorted_wrt_map)
  then show ?thesis
    by (intro exI [of _ "take 3 ?s"] exI [of _ "drop 3 ?s"])
      (auto simp: build_recent_def recent_limit_def simp del: sort_key_simps)
qed

section \<open>The snapshot is exact\<close>

lemma take_snapshot_exact:
  assumes "take_snapshot cl cd now capture (cw, cfs) (w, fs) = (r, cw', w')"
  shows "cw' = cw" "w' = w"
    "r = Ok s \<Longrightarrow> st_queue s = queue_view cd w \<and>
      (\<exists>es. parsed cd w (listing DeliveredDir (files w)) es \<and> st_last_success s = pick_last_success es \<and>
         st_last_failure s = pick_last_failure es \<and> st_recent s = build_recent es)"
proof -
  let ?m = "bind_io (take_queue_snapshot cd) (\<lambda>q. bind_io (load_delivered cd) (\<lambda>delivered. ret (q, delivered)))"
  have m: "wlp ?m (\<lambda>(q, es) w'. q = queue_view cd w \<and> parsed cd w (listing DeliveredDir (files w)) es \<and> w' = w)
     (\<lambda>_ w'. w' = w) (\<lambda>w'. w' = w) w"
    by (auto simp: wlp_simps intro!: wlp_mono [OF queue_snapshot_wlp] wlp_mono [OF load_delivered_wlp])
  obtain re cw1 cfs1 where e: "take_enrollment_snapshot cl now cw cfs = (re, cw1, cfs1)" using prod_cases3 by blast
  have cw1: "cw1 = cw" using wlp_run [OF enrollment_snapshot_wlp e] by (simp split: res.splits)
  obtain rq w1 fs1 where q: "?m w fs = (rq, w1, fs1)" using prod_cases3 by blast
  have w1: "w1 = w" using wlp_run [OF m q] by (auto split: res.splits)
  have ok: "rq = Ok (q, es) \<Longrightarrow> q = queue_view cd w \<and> parsed cd w (listing DeliveredDir (files w)) es" for q es
    using wlp_run [OF m q] by (auto split: res.splits)
  show "cw' = cw" "w' = w" using assms e q cw1 w1 by (auto simp: take_snapshot_def split: res.splits)
  show "st_queue s = queue_view cd w \<and>
      (\<exists>es. parsed cd w (listing DeliveredDir (files w)) es \<and> st_last_success s = pick_last_success es \<and>
         st_last_failure s = pick_last_failure es \<and> st_recent s = build_recent es)" if "r = Ok s"
    using assms e q ok that by (auto simp: take_snapshot_def split: res.splits)
qed

text \<open>
  C32: The status command only reads, and what it reports is what is there. Whatever the host injects, neither
  the credentials nor the queue nor the journal changes. A report counts the sidecars and the bytes
  of the recordings exactly (up to the width of its fields); the last success is a delivered clip that no other one
  follows, the last failure likewise, and the recent list shows the three newest finished records,
  newest first.
\<close>

theorem status_exact:
  assumes "run_status cl cd now (cw, cfs) (w, fs) = (r, cw', w')"
  shows "cw' = cw \<and> w' = w \<and>
    (case r of
       Ok s \<Rightarrow> qs_pending (st_queue s) = min (json_count PendingDir w) u32_max \<and>
         qs_inflight (st_queue s) = min (json_count InflightDir w) u32_max \<and>
         (mp4_bytes cd PendingDir w + mp4_bytes cd InflightDir w \<le> u64_max \<longrightarrow>
            qs_bytes_on_disk (st_queue s) = mp4_bytes cd PendingDir w + mp4_bytes cd InflightDir w) \<and>
         (\<exists>es. parsed cd w (listing DeliveredDir (files w)) es \<and>
            (case st_last_success s of
               None \<Rightarrow> \<forall>e \<in> set es. entry_outcome e = Some Delivered \<longrightarrow> delivered_at e = None
             | Some x \<Rightarrow> \<exists>e \<in> set es. entry_outcome e = Some Delivered \<and> delivered_at e = Some (ss_at x) \<and> ss_clip_id x = clip_id e \<and>
                 ss_task_id x = classify_task_id e \<and> ss_classify_status x = last_classify_status e \<and>
                 (\<forall>e' \<in> set es. \<forall>t. entry_outcome e' = Some Delivered \<longrightarrow> delivered_at e' = Some t \<longrightarrow> t \<le> ss_at x)) \<and>
            (case st_last_failure s of
               None \<Rightarrow> \<forall>e \<in> set es. entry_outcome e = Some Undeliverable \<longrightarrow> failed_at e = None
             | Some f \<Rightarrow> \<exists>e \<in> set es. entry_outcome e = Some Undeliverable \<and> failed_at e = Some (df_at f) \<and> df_clip_id f = clip_id e \<and>
                 (\<forall>e' \<in> set es. \<forall>t. entry_outcome e' = Some Undeliverable \<longrightarrow> failed_at e' = Some t \<longrightarrow> t \<le> df_at f)) \<and>
            (\<exists>shown hidden. mset (shown @ hidden) = mset (filter (\<lambda>e. delivered_at e \<noteq> None) es) \<and>
               map re_clip_id (st_recent s) = map clip_id shown \<and> length shown = min 3 (length (shown @ hidden)) \<and>
               sorted_wrt (\<lambda>a b. the (delivered_at b) \<le> the (delivered_at a)) (shown @ hidden)))
     | _ \<Rightarrow> True)"
proof -
  note ex = take_snapshot_exact [OF assms [unfolded run_status_def]]
  have bytes: "wrap_u64 (a + b) = a + b" if "a + b \<le> u64_max" for a b
    using that by (simp add: wrap_u64_def u64_max_def)
  show ?thesis
  proof (cases r)
    case (Ok s)
    obtain es where es: "parsed cd w (listing DeliveredDir (files w)) es" "st_last_success s = pick_last_success es"
      "st_last_failure s = pick_last_failure es" "st_recent s = build_recent es"
      using ex(3) [OF Ok] by blast
    have "st_queue s = queue_view cd w" using ex(3) [OF Ok] by blast
    then have "qs_pending (st_queue s) = min (json_count PendingDir w) u32_max"
      "qs_inflight (st_queue s) = min (json_count InflightDir w) u32_max"
      "mp4_bytes cd PendingDir w + mp4_bytes cd InflightDir w \<le> u64_max \<longrightarrow>
         qs_bytes_on_disk (st_queue s) = mp4_bytes cd PendingDir w + mp4_bytes cd InflightDir w"
      by (simp_all add: queue_view_def bytes)
    then show ?thesis
      using ex(1,2) es(1) last_success_spec [of es, folded es(2)] last_failure_spec [of es, folded es(3)]
        recent_spec [of es, folded es(4)]
      unfolding Ok res.case by blast
  qed (use ex in auto)
qed

text \<open>
  Beside a running station the scan can trip over a clip that moves: a recording that was listed and is gone
  when its size is asked for fails the whole command.
\<close>

lemma moved_clip_fails_status:
  "has_ext ''mp4'' n \<Longrightarrow> look w (d, n) = None \<Longrightarrow>
     sum_dir_loop (\<lambda>n. if has_ext ''mp4'' n then fs_metadata_len cd (d, n) else ret 0) (n # ns) tot w [] = (Err NotFound, w, [])"
  by (simp add: run_simps)

section \<open>A concrete report\<close>

definition ex_queue :: "blob world" where
  "ex_queue = \<lparr> files = [((PendingDir, ''a.json''), Sidecar (new_entry ''a'' 0 0 3)), ((PendingDir, ''a.mp4''), Bytes 3),
     ((DeliveredDir, ''b.json''), Sidecar ((new_entry ''b'' 0 0 3)\<lparr>entry_outcome := Some Delivered, delivered_at := Some 9\<rparr>))],
     seq = 0, journal = [] \<rparr>"

lemma ex_status_run:
  "\<exists>s. run_status ex_cred_lib blob_codec 5 (ex_fresh, []) (ex_queue, []) = (Ok s, ex_fresh, ex_queue)"
  by (simp add: run_status_def take_snapshot_def take_enrollment_snapshot_def take_queue_snapshot_def count_sidecars_def sum_mp4_bytes_def
      sum_dir_def load_delivered_def read_sidecar_def ex_queue_def ex_fresh_def cred_calls exec_simps blob_codec_def)

theorem status_exact_witness:
  "\<exists>s. run_status ex_cred_lib blob_codec 5 (ex_fresh, []) (ex_queue, []) = (Ok s, ex_fresh, ex_queue) \<and>
     qs_pending (st_queue s) = min (json_count PendingDir ex_queue) u32_max"
proof -
  obtain s where run: "run_status ex_cred_lib blob_codec 5 (ex_fresh, []) (ex_queue, []) = (Ok s, ex_fresh, ex_queue)"
    using ex_status_run by blast
  show ?thesis using status_exact [OF run] run by auto
qed

end
