(* ===== verification/Status_Text.thy ===== *)
theory Status_Text
  imports Status
begin

text \<open>
  The text that \<^verbatim>\<open>perchstation status\<close> prints, \<^verbatim>\<open>crates/perchstation-core/src/observability/status.rs\<close>: line by line, with the
  formatting of instants, identifiers and floating-point numbers as a parameter. What an operator decides on is
  shown to be readable from it.
\<close>

section \<open>Rendering\<close>

text \<open>
  The formats \<^verbatim>\<open>%Y-%m-%d\<close>, with minutes, and with seconds and \<^verbatim>\<open>UTC\<close>; the hyphenated identifier; the quotient of
  two numbers as doubles with one decimal.
\<close>

record text_lib =
  tx_date :: "instant \<Rightarrow> string"
  tx_minute :: "instant \<Rightarrow> string"
  tx_second :: "instant \<Rightarrow> string"
  tx_uuid :: "uuid \<Rightarrow> string"
  tx_decimal :: "u64 \<Rightarrow> u64 \<Rightarrow> string"

abbreviation newline :: char where "newline \<equiv> CHR 0x0A"

definition push_line :: "string \<Rightarrow> string \<Rightarrow> string" where
  "push_line buf line = buf @ line @ [newline]"

definition short_uuid :: "text_lib \<Rightarrow> uuid option \<Rightarrow> string" where
  "short_uuid tx i = (case i of None \<Rightarrow> ''?'' | Some u \<Rightarrow> take 8 (tx_uuid tx u) @ ''..'')"

definition format_cert_date :: "text_lib \<Rightarrow> instant option \<Rightarrow> string" where
  "format_cert_date tx dt = (case dt of None \<Rightarrow> ''?'' | Some d \<Rightarrow> tx_date tx d)"

definition pretty_bytes :: "text_lib \<Rightarrow> u64 \<Rightarrow> string" where
  "pretty_bytes tx n =
     (if 1000000000 \<le> n then tx_decimal tx n 1000000000 @ '' GB''
      else if 1000000 \<le> n then tx_decimal tx n 1000000 @ '' MB''
      else if 1000 \<le> n then tx_decimal tx n 1000 @ '' kB''
      else show_nat n @ '' B'')"

definition format_degraded_sensor :: "text_lib \<Rightarrow> string \<Rightarrow> instant option \<Rightarrow> string" where
  "format_degraded_sensor tx kind since =
     (case since of Some t \<Rightarrow> kind @ '' (since '' @ tx_second tx t @ '')'' | None \<Rightarrow> kind)"

text \<open>The derived \<^verbatim>\<open>Debug\<close>.\<close>

fun status_debug :: "classify_task_status \<Rightarrow> string" where
  "status_debug Prepared = ''Prepared''"
| "status_debug Queued = ''Queued''"
| "status_debug Processing = ''Processing''"
| "status_debug Success = ''Success''"
| "status_debug Failed = ''Failed''"
| "status_debug Unknown = ''Unknown''"

definition render_enrollment :: "text_lib \<Rightarrow> enrollment_snapshot \<Rightarrow> string" where
  "render_enrollment tx en =
     (let sid = short_uuid tx (es_station_id en); exp = format_cert_date tx (es_cert_not_after en) in
      case es_state en of
        EnrollmentOk \<Rightarrow> ''Enrollment:    OK (station '' @ sid @ '', cert expires '' @ exp @ '')''
      | EnrollmentMissing \<Rightarrow> ''Enrollment:    not enrolled (no credentials on disk)''
      | EnrollmentExpired \<Rightarrow> ''Enrollment:    EXPIRED (station '' @ sid @ '', cert expired '' @ exp @ '')'')"

definition render_success :: "text_lib \<Rightarrow> success_snapshot \<Rightarrow> string" where
  "render_success tx s =
     ''Last success:  '' @ tx_second tx (ss_at s) @ ''  '' @ ss_clip_id s @
     (case ss_classify_status s of Some c \<Rightarrow> '' classify='' @ status_debug c | None \<Rightarrow> [])"

definition render_failure :: "text_lib \<Rightarrow> delivery_failure_snapshot \<Rightarrow> string" where
  "render_failure tx f =
     ''Last failure:  '' @ tx_second tx (df_at f) @ ''  '' @
     (case df_status f of Some code \<Rightarrow> ''perchpub '' @ show_nat code | None \<Rightarrow> df_kind f)"

definition render_recent :: "text_lib \<Rightarrow> recent_entry \<Rightarrow> string" where
  "render_recent tx r =
     ''  '' @ tx_minute tx (re_delivered_at r) @ ''  '' @ re_clip_id r @ ''  classify='' @
     (case re_classify_status r of None \<Rightarrow> ''?'' | Some c \<Rightarrow> status_debug c)"

definition render_sensor :: "text_lib \<Rightarrow> capture_state \<Rightarrow> string" where
  "render_sensor tx c =
     (case sensor_snapshot c of
        SnapNeverObserved \<Rightarrow> ''(never observed)''
      | SnapHealthy \<Rightarrow> ''healthy''
      | SnapStuckAsserted \<Rightarrow> format_degraded_sensor tx ''stuck_asserted'' (sensor_degraded_since c)
      | SnapUnavailable \<Rightarrow> format_degraded_sensor tx ''unavailable'' (sensor_degraded_since c))"

definition render_capture :: "text_lib \<Rightarrow> capture_state \<Rightarrow> string list" where
  "render_capture tx c =
     [''Capture:'',
      (case (last_recording_at c, last_clip_id c) of
         (Some at_time, Some clip) \<Rightarrow> ''  Last recording:  '' @ tx_second tx at_time @ ''  '' @ clip
       | _ \<Rightarrow> ''  Last recording:  (none)''),
      (case last_failure c of
         Some f \<Rightarrow> ''  Last failure:    '' @ tx_second tx (fail_at f) @ ''  '' @ fail_kind f @ '': '' @ fail_message f
       | None \<Rightarrow> ''  Last failure:    (none)''),
      ''  Sensor:          '' @ render_sensor tx c]"

definition render_text :: "text_lib \<Rightarrow> status_snapshot \<Rightarrow> string" where
  "render_text tx st =
     (let total_clips = sat_add u32_max (qs_pending (st_queue st)) (qs_inflight (st_queue st));
          bytes_pretty = pretty_bytes tx (qs_bytes_on_disk (st_queue st));
          out = push_line [] (render_enrollment tx (st_enrollment st));
          out = push_line out (''Queue depth:   '' @ show_nat total_clips @ '' clips ('' @ bytes_pretty @ '' on disk)'');
          out = (case st_last_success st of Some s \<Rightarrow> push_line out (render_success tx s) | None \<Rightarrow> out);
          out = (case st_last_failure st of Some f \<Rightarrow> push_line out (render_failure tx f) | None \<Rightarrow> out);
          out = (if st_recent st = [] then out
                 else foldl push_line (push_line out (''Last '' @ show_nat (length (st_recent st)) @ '' deliveries:''))
                        (map (render_recent tx) (st_recent st))) in
      foldl push_line out (render_capture tx (st_capture st)))"

section \<open>Reading it back\<close>

definition first_line :: "string \<Rightarrow> string" where
  "first_line s = takeWhile (\<lambda>c. c \<noteq> newline) s"

definition later_lines :: "string \<Rightarrow> string" where
  "later_lines s = tl (dropWhile (\<lambda>c. c \<noteq> newline) s)"

definition last_line :: "string \<Rightarrow> string" where
  "last_line s = rev (first_line (rev (butlast s)))"

definition read_state :: "string \<Rightarrow> enrollment_state" where
  "read_state s =
     (if starts_with ''Enrollment:    OK'' s then EnrollmentOk
      else if starts_with ''Enrollment:    EXPIRED'' s then EnrollmentExpired else EnrollmentMissing)"

definition read_depth :: "string \<Rightarrow> nat" where
  "read_depth s = digits_value (takeWhile is_digit (drop (length ''Queue depth:   '') (first_line (later_lines s))))"

definition read_sensor :: "string \<Rightarrow> liveness_snapshot" where
  "read_sensor s =
     (let l = drop (length ''  Sensor:          '') (last_line s) in
      if starts_with ''healthy'' l then SnapHealthy
      else if starts_with ''stuck_asserted'' l then SnapStuckAsserted
      else if starts_with ''unavailable'' l then SnapUnavailable else SnapNeverObserved)"

text \<open>What the formatting functions promise: no line breaks.\<close>

definition text_lib_ok :: "text_lib \<Rightarrow> bool" where
  "text_lib_ok tx \<longleftrightarrow> (\<forall>t. newline \<notin> set (tx_date tx t)) \<and> (\<forall>t. newline \<notin> set (tx_second tx t)) \<and> (\<forall>u. newline \<notin> set (tx_uuid tx u)) \<and>
     (\<forall>n d. newline \<notin> set (tx_decimal tx n d))"

lemma first_line_append [simp]: "newline \<notin> set a \<Longrightarrow> first_line (a @ newline # b) = a"
  unfolding first_line_def by (simp add: takeWhile_append)

lemma later_lines_append [simp]: "newline \<notin> set a \<Longrightarrow> later_lines (a @ newline # b) = b"
  unfolding later_lines_def by (simp add: dropWhile_append)

lemma last_line_append [simp]: "newline \<notin> set b \<Longrightarrow> last_line (a @ newline # b @ [newline]) = b"
  by (simp add: last_line_def butlast_append)

lemma starts_with_append [simp]: "starts_with p (p @ s)"
  by (simp add: starts_with_def)

lemma foldl_push_line: "foldl push_line out ls = out @ concat (map (\<lambda>l. l @ [newline]) ls)"
  by (induction ls arbitrary: out) (simp_all add: push_line_def)

text \<open>The text between the second line and the last.\<close>

lemma render_text_shape:
  "\<exists>mid. render_text tx st =
     render_enrollment tx (st_enrollment st) @ newline #
     (''Queue depth:   '' @ show_nat (sat_add u32_max (qs_pending (st_queue st)) (qs_inflight (st_queue st))) @ '' clips ('' @
        pretty_bytes tx (qs_bytes_on_disk (st_queue st)) @ '' on disk)'') @ newline # mid @ newline #
     (''  Sensor:          '' @ render_sensor tx (st_capture st)) @ [newline]"
proof -
  define s where "s = (case st_last_success st of Some x \<Rightarrow> render_success tx x @ [newline] | None \<Rightarrow> [])"
  define f where "f = (case st_last_failure st of Some x \<Rightarrow> render_failure tx x @ [newline] | None \<Rightarrow> [])"
  define r where "r = (if st_recent st = [] then [] else (''Last '' @ show_nat (length (st_recent st)) @ '' deliveries:'') @ [newline] @
     concat (map (\<lambda>l. l @ [newline]) (map (render_recent tx) (st_recent st))))"
  obtain a b c where cap: "render_capture tx (st_capture st) = [a, b, c, ''  Sensor:          '' @ render_sensor tx (st_capture st)]"
    by (simp add: render_capture_def)
  have mid: "render_text tx st = push_line (push_line [] (render_enrollment tx (st_enrollment st)))
      (''Queue depth:   '' @ show_nat (sat_add u32_max (qs_pending (st_queue st)) (qs_inflight (st_queue st))) @ '' clips ('' @
        pretty_bytes tx (qs_bytes_on_disk (st_queue st)) @ '' on disk)'') @ s @ f @ r @
      concat (map (\<lambda>l. l @ [newline]) (render_capture tx (st_capture st)))"
    by (simp add: render_text_def foldl_push_line s_def f_def r_def Let_def push_line_def split: option.split)
  show ?thesis
    unfolding mid cap by (rule exI [of _ "s @ f @ r @ a @ [newline] @ b @ [newline] @ c"]) (simp add: push_line_def)
qed

lemma show_nat_no_newline: "newline \<notin> set (show_nat n)"
  using show_nat_digits [of n] by (auto simp: list_all_iff is_digit_def)

lemma render_parts_no_newline:
  assumes "text_lib_ok tx"
  shows "newline \<notin> set (render_enrollment tx en)" "newline \<notin> set (pretty_bytes tx n)" "newline \<notin> set (render_sensor tx c)"
proof -
  have "newline \<notin> set (short_uuid tx i)" for i
    using assms by (auto simp: short_uuid_def text_lib_ok_def split: option.split dest: in_set_takeD)
  moreover have "newline \<notin> set (format_cert_date tx d)" for d
    using assms by (auto simp: format_cert_date_def text_lib_ok_def split: option.split)
  ultimately show "newline \<notin> set (render_enrollment tx en)"
    by (simp add: render_enrollment_def Let_def split: enrollment_state.split)
  show "newline \<notin> set (pretty_bytes tx n)"
    using assms show_nat_no_newline by (simp add: pretty_bytes_def text_lib_ok_def)
  show "newline \<notin> set (render_sensor tx c)"
    using assms by (simp add: render_sensor_def format_degraded_sensor_def text_lib_ok_def split: liveness_snapshot.split option.split)
qed

lemma read_depth_digits: "digits_value (takeWhile is_digit (show_nat n @ '' clips ('' @ s)) = n"
proof -
  have "takeWhile is_digit (show_nat n @ '' clips ('' @ s) = show_nat n"
    using show_nat_digits [of n] by (simp add: list_all_iff takeWhile_append is_digit_def)
  then show ?thesis using show_nat_digits [of n] by simp
qed

section \<open>Properties\<close>

text \<open>
  C33: What the operator decides on can be read off the text: whether the station is enrolled, missing its credentials or
  expired from the first line, the number of clips that are not delivered yet from the second, the state of the sensor from
  the last; whatever identifiers, kinds and messages stand in between, line breaks included.
\<close>

theorem status_text_readable:
  assumes "text_lib_ok tx"
  shows "read_state (render_text tx st) = es_state (st_enrollment st) \<and>
    read_depth (render_text tx st) = min u32_max (qs_pending (st_queue st) + qs_inflight (st_queue st)) \<and>
    read_sensor (render_text tx st) = sensor_snapshot (st_capture st)"
proof -
  let ?n = "sat_add u32_max (qs_pending (st_queue st)) (qs_inflight (st_queue st))"
  let ?depth = "''Queue depth:   '' @ show_nat ?n @ '' clips ('' @ pretty_bytes tx (qs_bytes_on_disk (st_queue st)) @ '' on disk)''"
  let ?sensor = "''  Sensor:          '' @ render_sensor tx (st_capture st)"
  obtain mid where shape: "render_text tx st = render_enrollment tx (st_enrollment st) @ newline # ?depth @ newline # mid @ newline # ?sensor @ [newline]"
    using render_text_shape [of tx st] by blast
  have nl: "newline \<notin> set (render_enrollment tx (st_enrollment st))" "newline \<notin> set ?depth" "newline \<notin> set ?sensor"
    using render_parts_no_newline [OF assms] show_nat_no_newline by auto
  have "read_state (render_text tx st) = es_state (st_enrollment st)"
    unfolding shape by (simp add: read_state_def starts_with_def render_enrollment_def Let_def split: enrollment_state.split)
  moreover have "read_depth (render_text tx st) = ?n"
    unfolding shape read_depth_def later_lines_append [OF nl(1)] first_line_append [OF nl(2)] using read_depth_digits by simp
  moreover have "last_line (render_text tx st) = ?sensor"
    unfolding shape using last_line_append [OF nl(3), of "render_enrollment tx (st_enrollment st) @ newline # ?depth @ newline # mid"] by simp
  then have "read_sensor (render_text tx st) = sensor_snapshot (st_capture st)"
    by (simp add: read_sensor_def starts_with_def render_sensor_def format_degraded_sensor_def Let_def split: liveness_snapshot.split option.split)
  ultimately show ?thesis by (simp add: sat_add_def min_def)
qed

definition ex_text :: text_lib where
  "ex_text = \<lparr> tx_date = (\<lambda>_. ''date''), tx_minute = (\<lambda>_. ''minute''), tx_second = (\<lambda>_. ''second''), tx_uuid = show_nat, tx_decimal = (\<lambda>n d. show_nat (n div d)) \<rparr>"

definition ex_snapshot :: status_snapshot where
  "ex_snapshot = \<lparr> st_enrollment = \<lparr> es_state = EnrollmentExpired, es_station_id = Some 4, es_cert_not_after = None, es_perchpub_url = None \<rparr>,
     st_queue = \<lparr> qs_pending = 11, qs_inflight = 1, qs_bytes_on_disk = 5000 \<rparr>, st_last_success = None, st_last_failure = None, st_recent = [],
     st_capture = new_capture_state\<lparr>sensor_snapshot := SnapHealthy, last_clip_id := Some [newline]\<rparr> \<rparr>"

theorem status_text_readable_witness:
  "read_state (render_text ex_text ex_snapshot) = EnrollmentExpired \<and> read_depth (render_text ex_text ex_snapshot) = 12 \<and>
   read_sensor (render_text ex_text ex_snapshot) = SnapHealthy"
proof -
  have "text_lib_ok ex_text" using show_nat_no_newline by (simp add: text_lib_ok_def ex_text_def)
  from status_text_readable [OF this] show ?thesis by (simp add: ex_snapshot_def u32_max_def)
qed

end
