(* ===== verification/Program.thy ===== *)
theory Program
  imports Qr_Camera Status_Text
begin

text \<open>
  The binary, \<^verbatim>\<open>crates/perchstation/src/main.rs\<close> with the exit codes of \<^verbatim>\<open>cli.rs\<close>: logging, configuration, one of the three commands,
  the exit code. After a successful start of \<^verbatim>\<open>serve\<close> its workers run as in \<open>Station\<close>, until a signal ends the process. The
  command line is parsed by \<^verbatim>\<open>clap\<close>, whose result is an argument of the model: a command, or the code with which \<^verbatim>\<open>clap\<close> itself ends the
  process (after a usage error, \<^verbatim>\<open>--help\<close> or \<^verbatim>\<open>--version\<close>). Of what is printed, only the output of \<^verbatim>\<open>status\<close> is modelled.
\<close>

datatype command = EnrollCommand enroll_args | ServeCommand | StatusCommand bool

record ('c, 'k, 'p, 'b, 'u, 'i) program =
  pg_log_ok :: bool
  pg_toml :: "string \<Rightarrow> config option"
  pg_config_path :: string
  pg_config_text :: "io_kind + string"
  pg_enroll :: "('c, 'k, 'p) enroll_lib"
  pg_enroll_env :: "('k, 'p) enroll_env"
  pg_still :: "'p still_host"
  pg_serve :: "('u, 'i, 'k) serve_lib"
  pg_plant :: "('b, 'u, 'i) plant"
  pg_tick0 :: nat
  pg_now :: instant
  pg_text :: text_lib
  pg_json :: "status_snapshot \<Rightarrow> string option"

text \<open>The process ends with a code and what \<^verbatim>\<open>status\<close> printed, its workers run, or it died on the way.\<close>

datatype ('b, 'u, 'i) outcome = Exited int "string option" | Running registry "('b, 'u, 'i) service" | Died

definition exit_ok :: int where "exit_ok = 0"

definition exit_usage :: int where "exit_usage = 64"

fun exit_with :: "config_error \<Rightarrow> int" where
  "exit_with (ConfigIo _ _) = 74"
| "exit_with (Parse _) = 70"
| "exit_with (MissingRequired _) = 70"
| "exit_with (OutOfRange _ _) = 70"

definition status_output :: "('c, 'k, 'p, 'b, 'u, 'i) program \<Rightarrow> bool \<Rightarrow> status_snapshot \<Rightarrow> string option" where
  "status_output pg json snap = (if json then pg_json pg snap else Some (render_text (pg_text pg) snap))"

definition run_command ::
  "('c, 'k, 'p, 'b, 'u, 'i) program \<Rightarrow> command \<Rightarrow> config \<Rightarrow> cdir world \<times> cdir fault list \<Rightarrow> 'b world \<times> 'b fault list
     \<Rightarrow> ('b, 'u, 'i) outcome \<times> cdir world \<times> 'b world" where
  "run_command pg cmd cfg creds queue =
     (case cmd of
        EnrollCommand args \<Rightarrow>
          (case run_enroll (pg_enroll pg) (sl_creds (pg_serve pg))
               (with_still_camera (pt_hw (pg_plant pg)) (pg_still pg) (pg_enroll_env pg)) cfg args new_registry (fst creds) (snd creds) of
             (Ok _, cw, _) \<Rightarrow> (Exited exit_ok None, cw, fst queue)
           | (Err (_, err), cw, _) \<Rightarrow> (Exited (exit_code err) None, cw, fst queue)
           | (Crashed, cw, _) \<Rightarrow> (Died, cw, fst queue))
      | ServeCommand \<Rightarrow>
          (case serve_start (pg_serve pg) (pg_plant pg) cfg (pg_tick0 pg) new_registry creds queue of
             (Ok (reg, sr), cw, w) \<Rightarrow> (Running reg sr, cw, w)
           | (Err err, cw, w) \<Rightarrow> (Exited (exit_code err) None, cw, w)
           | (Crashed, cw, w) \<Rightarrow> (Died, cw, w))
      | StatusCommand json \<Rightarrow>
          (case run_status (sl_creds (pg_serve pg)) (pt_codec (pg_plant pg)) (pg_now pg) creds queue of
             (Ok snap, cw, w) \<Rightarrow>
               (case status_output pg json snap of
                  Some out \<Rightarrow> (Exited exit_ok (Some out), cw, w)
                | None \<Rightarrow> (Exited (exit_code CmdIo) None, cw, w))
           | (Err _, cw, w) \<Rightarrow> (Exited (exit_code CmdIo) None, cw, w)
           | (Crashed, cw, w) \<Rightarrow> (Died, cw, w)))"

definition log_failure :: "('b, 'u, 'i) outcome \<times> cdir world \<times> 'b world \<Rightarrow> ('b, 'u, 'i) outcome \<times> cdir world \<times> 'b world" where
  "log_failure r =
     (case r of
        (Exited code out, cw, w) \<Rightarrow>
          if code = exit_ok then r else (Exited code out, cw, w\<lparr>journal := journal w @ [Warn ''command failed'']\<rparr>)
      | _ \<Rightarrow> r)"

definition perchstation ::
  "('c, 'k, 'p, 'b, 'u, 'i) program \<Rightarrow> int + command \<Rightarrow> cdir world \<times> cdir fault list \<Rightarrow> 'b world \<times> 'b fault list
     \<Rightarrow> ('b, 'u, 'i) outcome \<times> cdir world \<times> 'b world" where
  "perchstation pg cli creds queue =
     (case cli of
        Inl code \<Rightarrow> (Exited code None, fst creds, fst queue)
      | Inr cmd \<Rightarrow>
     if \<not> pg_log_ok pg then (Exited exit_usage None, fst creds, fst queue)
     else
       (case load_config (pg_toml pg) (pg_config_path pg) (pg_config_text pg) of
          Inl err \<Rightarrow>
            (Exited (exit_with err) None, fst creds,
             (fst queue)\<lparr>journal := journal (fst queue) @ [ServiceEv (ServiceConfigInvalid (pg_config_path pg))]\<rparr>)
        | Inr cfg \<Rightarrow> log_failure (run_command pg cmd cfg creds queue)))"

text \<open>
  The end of \<^verbatim>\<open>serve\<close>: \<open>installed\<close> says whether the signal handlers could be installed, \<open>sigs\<close> are the signals that arrive, and \<open>w\<close> is the
  queue as the workers left it. The two seconds each worker is given to stop are not modelled here.
\<close>

definition end_serve ::
  "bool \<Rightarrow> 'i signal list \<Rightarrow> registry \<Rightarrow> ('b, 'u, 'i) service \<Rightarrow> cdir world \<Rightarrow> 'b world \<Rightarrow> ('b, 'u, 'i) outcome \<times> cdir world \<times> 'b world" where
  "end_serve installed sigs reg sr cw w =
     log_failure
       (if \<not> installed then (Exited (exit_code CmdIo) None, cw, w)
        else
          (case await_shutdown sigs sr w [] of
             (Ok (Some reason, _), w', _) \<Rightarrow>
               (Exited exit_ok None, cw, w'\<lparr>journal := journal w' @ [ServiceEv (ServiceShutdown reason)]\<rparr>)
           | (Ok (None, sr'), w', _) \<Rightarrow> (Running reg sr', cw, w')
           | (_, w', _) \<Rightarrow> (Died, cw, w')))"

section \<open>Errors of the commands\<close>

lemma confirm_error_codes: "snd (map_confirm_error err) \<noteq> CmdConfig"
  by (cases err) simp_all

lemma enroll_errors:
  "only_errs (\<lambda>e. snd e \<noteq> CmdConfig) (fail_with kind reg err) \<longleftrightarrow> err \<noteq> CmdConfig"
  "only_errs (\<lambda>e. snd e \<noteq> CmdConfig) (obtain_csr lib cl fresh forced reg)"
  "only_errs (\<lambda>e. snd e \<noteq> CmdConfig) (finish_enroll lib cl env cfg forced previous material csr reused reg)"
proof -
  have fail: "only_errs (\<lambda>e. snd e \<noteq> CmdConfig) (fail_with kind reg err) \<longleftrightarrow> err \<noteq> CmdConfig" for kind reg err
    by (auto simp: only_errs_def fail_with_def bind_io_def match_io_def emit_def throw_def)
  then show "only_errs (\<lambda>e. snd e \<noteq> CmdConfig) (fail_with kind reg err) \<longleftrightarrow> err \<noteq> CmdConfig" .
  show "only_errs (\<lambda>e. snd e \<noteq> CmdConfig) (obtain_csr lib cl fresh forced reg)"
    by (auto simp: obtain_csr_def build_fresh_csr_def fail split: prod.split sum.split identity_error.split io_error.split)
  show "only_errs (\<lambda>e. snd e \<noteq> CmdConfig) (finish_enroll lib cl env cfg forced previous material csr reused reg)"
    by (auto simp: finish_enroll_def persist_identity_def fail confirm_error_codes Let_def
        split: sum.split option.split identity_error.split)
qed

lemma peek_pure:
  "wlp (peek_existing_station_id cl) (\<lambda>_ w'. w' = w) (\<lambda>_ w'. w' = w) (\<lambda>w'. w' = w) w"
  by (auto simp: peek_existing_station_id_def read_to_string_def wlp_simps wlp_match split: option.split)

lemma enroll_config_error:
  assumes run: "run_enroll lib cl env cfg args reg w fs = (Err (reg', CmdConfig), w', fs')"
  shows "w' = w"
proof (cases "ensure_runtime_ready cfg = Inr () \<and> is_set (perchpub_url cfg)")
  case False
  then show ?thesis using run by (cases "ensure_runtime_ready cfg") (auto simp: run_enroll_def throw_def split: if_splits)
next
  case True
  obtain r1 w1 fs1 where peek: "peek_existing_station_id cl w fs = (r1, w1, fs1)" by (cases "peek_existing_station_id cl w fs") auto
  have w1: "w1 = w" using wlp_run [OF peek_pure peek] by (cases r1) auto
  define rest where "rest previous = (case acquire_frame lib env args of
         Inl None \<Rightarrow> throw (reg, CmdConfig)
       | Inl (Some _) \<Rightarrow> fail_with ''qr_source'' reg CmdIo
       | Inr frame \<Rightarrow>
           (case decode_enrollment_session lib (now_decoded env) frame reg of
              (Inl _, reg1) \<Rightarrow> fail_with ''qr_decode'' reg1 CmdIo
            | (Inr material, reg1) \<Rightarrow>
                bind_io (emit (EnrollmentEv (EnrollmentQrDecoded (esm_session_id material)))) (\<lambda>_.
                bind_io (obtain_csr lib cl (fresh_key env) (force args) reg1) (\<lambda>(csr, reused, reg2).
                bind_io (emit (EnrollmentEv (EnrollmentCsrGenerated reused))) (\<lambda>_.
                finish_enroll lib cl env cfg (force args) previous material csr reused reg2)))))" for previous
  have only: "only_errs (\<lambda>e. snd e \<noteq> CmdConfig) (rest previous)" if "acquire_frame lib env args \<noteq> Inl None" for previous
    using that by (auto simp: rest_def enroll_errors split: sum.split option.split prod.split)
  have "rest previous w fs1 = (Err (reg', CmdConfig), w', fs') \<Longrightarrow> w' = w" for previous
  proof (cases "acquire_frame lib env args = Inl None")
    case False
    then show "w' = w" if "rest previous w fs1 = (Err (reg', CmdConfig), w', fs')"
      using only [OF False, unfolded only_errs_def] that by (metis snd_conv)
  qed (simp add: rest_def throw_def)
  then show ?thesis using run True peek w1
    by (cases r1) (auto simp: run_enroll_def bind_io_def match_io_def ret_def rest_def)
qed

lemma exit_code_inj [simp]: "exit_code e = 70 \<longleftrightarrow> e = CmdConfig" "exit_code e \<noteq> 64" "exit_code e \<noteq> 0"
  "exit_code e \<in> {70, 74, 75, 76}"
  by (cases e; simp)+

section \<open>What the log of an enrollment ends with\<close>

text \<open>The exit code that goes with the event an enrollment ends with.\<close>

fun code_logged :: "enrollment_event \<Rightarrow> int option" where
  "code_logged (EnrollmentPersisted _ _ _) = Some 0"
| "code_logged (EnrollmentSessionInvalid _) = Some 76"
| "code_logged (EnrollmentRefusedOverwrite _) = Some 76"
| "code_logged (EnrollmentFailed kind) =
     Some (if kind \<in> {''refused'', ''server_rejected''} then 76 else if kind = ''transient_exhausted'' then 75 else 74)"
| "code_logged _ = None"

definition log_ends :: "int \<Rightarrow> 'b world \<Rightarrow> bool" where
  "log_ends code w \<longleftrightarrow> (\<exists>before ev. journal w = before @ [EnrollmentEv ev] \<and> code_logged ev = Some code)"

lemma log_ends_emit [simp]: "log_ends code (w\<lparr>journal := before @ [EnrollmentEv ev]\<rparr>) \<longleftrightarrow> code_logged ev = Some code"
  by (simp add: log_ends_def)

abbreviation told_err :: "registry \<times> command_error \<Rightarrow> cdir world \<Rightarrow> bool" where
  "told_err e w \<equiv> snd e \<noteq> CmdConfig \<longrightarrow> log_ends (exit_code (snd e)) w"

lemma confirm_error_logged: "code_logged (fst (map_confirm_error err)) = Some (exit_code (snd (map_confirm_error err)))"
  by (cases err) simp_all

lemma wlp_any: "(\<And>x w'. Q x w') \<Longrightarrow> (\<And>e w'. E e w') \<Longrightarrow> (\<And>w'. C w') \<Longrightarrow> wlp m Q E C w"
  by (rule wlp_mono [OF wlp_trivial]) auto

lemma obtain_csr_logged: "wlp (obtain_csr lib cl fresh forced reg) (\<lambda>_ _. True) told_err (\<lambda>_. True) w"
  by (auto simp: obtain_csr_def build_fresh_csr_def wlp_match wlp_simps intro!: wlp_any [where m = "load_keypair cl"]
      split: prod.split sum.split identity_error.split io_error.split)

lemma finish_logged:
  "wlp (finish_enroll lib cl env cfg forced previous material csr reused reg) (\<lambda>_. log_ends 0) told_err (\<lambda>_. True) w"
proof -
  have told: "uniform (case previous of Some prev \<Rightarrow> if reused then ret () else emit (EnrollmentEv (EnrollmentOverwritten prev sid)) | None \<Rightarrow> ret ())"
    "(\<And>w'. Q () w') \<Longrightarrow> wlp (case previous of Some prev \<Rightarrow> if reused then ret () else emit (EnrollmentEv (EnrollmentOverwritten prev sid)) | None \<Rightarrow> ret ()) Q E C w1"
    for sid Q E C w1
    by (simp_all add: wlp_simps split: option.split)
  have persist: "wlp (persist_identity cl opts reg) Q told_err (\<lambda>_. True) w1" if "\<And>i w'. Q i w'" for Q opts w1
    using that by (auto simp: persist_identity_def wlp_match wlp_simps intro!: wlp_any [where m = "save cl opts"]
        split: identity_error.split)
  show ?thesis
    by (auto simp: finish_enroll_def Let_def wlp_simps told confirm_error_logged intro!: persist split: sum.split)
qed

lemma run_enroll_logged:
  "wlp (run_enroll lib cl env cfg args reg) (\<lambda>_. log_ends 0) told_err (\<lambda>_. True) w"
proof -
  have csr: "wlp (obtain_csr lib cl fresh forced reg1) Q told_err (\<lambda>_. True) w1" if "\<And>x w'. Q x w'" for fresh forced reg1 Q w1
    by (rule wlp_mono [OF obtain_csr_logged]) (use that in auto)
  show ?thesis
    by (auto simp: run_enroll_def wlp_match wlp_simps intro!: wlp_any [where m = "peek_existing_station_id cl"] csr finish_logged
        split: sum.split option.split prod.split)
qed

section \<open>What an outcome tells\<close>

text \<open>
  What an outcome tells about a command that was run with a configuration, and which half of the disk the command leaves
  alone. \<open>cl\<close> decodes credentials.
\<close>

definition told :: "'k cred_lib \<Rightarrow> command \<Rightarrow> cdir world \<Rightarrow> cdir world \<Rightarrow> 'b world \<Rightarrow> 'b world \<Rightarrow> ('b, 'u, 'i) outcome \<Rightarrow> bool" where
  "told cl cmd cw cw' w w' out \<longleftrightarrow>
     (case out of
        Exited code printed \<Rightarrow> code \<in> {0, 70, 74, 75, 76} \<and> (code = 70 \<longrightarrow> files cw' = files cw \<and> files w' = files w) \<and>
          (case cmd of
             EnrollCommand args \<Rightarrow> printed = None \<and> (code \<noteq> 70 \<longrightarrow> log_ends code cw') \<and>
               (code = 0 \<longrightarrow> (\<exists>opts i. creds_saved cl opts i (look cw')))
           | ServeCommand \<Rightarrow> printed = None \<and> code \<in> {70, 74, 76}
           | StatusCommand json \<Rightarrow> code \<in> {0, 74} \<and> (printed \<noteq> None \<longleftrightarrow> code = 0))
      | Running _ _ \<Rightarrow> cmd = ServeCommand
      | Died \<Rightarrow> True) \<and>
     ((\<forall>args. cmd \<noteq> EnrollCommand args) \<longrightarrow> files cw' = files cw) \<and> (cmd \<noteq> ServeCommand \<longrightarrow> files w' = files w)"

lemma enroll_told:
  assumes lib: "cred_lib_ok (sl_creds (pg_serve pg))"
    and run: "run_command pg (EnrollCommand args) cfg (cw, cfs) (w, fs) = (out, cw', w')"
  shows "told (sl_creds (pg_serve pg)) (EnrollCommand args) cw cw' w w' out"
proof -
  let ?env = "with_still_camera (pt_hw (pg_plant pg)) (pg_still pg) (pg_enroll_env pg)" and ?cl = "sl_creds (pg_serve pg)"
  obtain r cw1 cfs1 where r: "run_enroll (pg_enroll pg) ?cl ?env cfg args new_registry cw cfs = (r, cw1, cfs1)"
    by (cases "run_enroll (pg_enroll pg) ?cl ?env cfg args new_registry cw cfs") auto
  note log = wlp_run [OF run_enroll_logged r] and safe = wlp_run [OF run_enroll_wlp [OF lib] r]
  show ?thesis
  proof (cases r)
    case (Ok reg')
    then have "\<exists>opts i. creds_saved ?cl opts i (look cw1)" using safe unfolding run_done_def by auto
    moreover have "out = Exited 0 None" "cw' = cw1" "w' = w" using run r Ok by (simp_all add: run_command_def exit_ok_def)
    ultimately show ?thesis using log Ok by (simp add: told_def)
  next
    case (Err e)
    then show ?thesis using run r log exit_code_inj(4) [of "snd e"] enroll_config_error [of "pg_enroll pg" ?cl ?env cfg args new_registry cw cfs "fst e" cw1 cfs1]
      by (cases e) (auto simp: run_command_def told_def)
  qed (use run r in \<open>auto simp: run_command_def told_def\<close>)
qed

lemma status_told:
  assumes "run_command pg (StatusCommand json) cfg (cw, cfs) (w, fs) = (out, cw', w')"
  shows "told cl (StatusCommand json) cw cw' w w' out"
  using assms
  by (auto simp: run_command_def told_def exit_ok_def run_status_def dest: take_snapshot_exact split: prod.splits res.splits option.splits)

lemma serve_credentials_errors: "only_errs (\<lambda>e. snd e \<noteq> CmdTransient) (serve_credentials lib cfg reg)"
proof -
  have "only_errs (\<lambda>e. snd e \<noteq> CmdTransient) (register_station_key_secrets cl reg)" for cl
    by (auto simp: register_station_key_secrets_def)
  moreover have "only_errs P (build_from_disk x509 tls :: (registry \<times> command_error, _) cred_io)" for P x509 tls
    by (auto simp: build_from_disk_def attempt_def split: sum.split)
  ultimately show ?thesis
    by (auto simp: serve_credentials_def intro!: only_errs_match only_errs_bind split: sum.split identity_error.split io_error.split)
qed

lemma serve_told:
  assumes "run_command pg ServeCommand cfg (cw, cfs) (w, fs) = (out, cw', w')"
  shows "told cl ServeCommand cw cw' w w' out"
proof -
  have boot: "serve_boot pt cfg tick0 identity cl v gs = (Err err, v', gs') \<Longrightarrow> err = CmdIo" for pt tick0 identity cl v gs err v' gs'
    using serve_boot_errors [unfolded only_errs_def] by blast
  obtain r cw1 cfs1 where c: "serve_credentials (pg_serve pg) cfg new_registry cw cfs = (r, cw1, cfs1)"
    by (cases "serve_credentials (pg_serve pg) cfg new_registry cw cfs") auto
  have cw1: "cw1 = cw" using serve_credentials_pure [OF c] by simp
  show ?thesis
  proof (cases r)
    case (Err e)
    then have "exit_code (snd e) \<in> {70, 74, 76}"
      using serve_credentials_errors [unfolded only_errs_def, rule_format, OF c [unfolded Err]] by (cases "snd e") auto
    then show ?thesis using assms c Err cw1 by (cases e) (auto simp: run_command_def told_def serve_start_def)
  qed (use assms c cw1 in \<open>auto simp: run_command_def told_def serve_start_def dest!: boot split: prod.splits res.splits\<close>)
qed

text \<open>The signals: a hangup reloads the credentials, the first of the other two ends the wait.\<close>

lemma await_ends:
  "\<exists>reason sr' w'. await_shutdown sigs sr w fs = (Ok (reason, sr'), w', fs) \<and> files w' = files w \<and>
     (reason \<noteq> None \<longleftrightarrow> SigTerm \<in> set sigs \<or> SigInt \<in> set sigs)"
proof (induction sigs sr arbitrary: w rule: await_shutdown.induct)
  case (4 built sigs sr)
  obtain sr1 w1 where hup: "reload_service built sr w fs = (Ok sr1, w1, fs)" "files w1 = files w"
    by (cases built) (auto simp: reload_service_def reload_client_def run_simps)
  then show ?case using 4 [of sr1 w1] by (auto simp: run_simps)
qed (auto simp: run_simps)

lemma end_serve_told:
  assumes "end_serve installed sigs reg sr cw w = (out, cw', w')"
  shows "cw' = cw \<and> files w' = files w \<and>
    (case out of
       Exited code printed \<Rightarrow> printed = None \<and> (if installed then code = 0 \<and> (SigTerm \<in> set sigs \<or> SigInt \<in> set sigs) else code = 74)
     | Running _ _ \<Rightarrow> installed \<and> SigTerm \<notin> set sigs \<and> SigInt \<notin> set sigs
     | Died \<Rightarrow> False)"
proof -
  obtain reason sr1 w1 where a: "await_shutdown sigs sr w [] = (Ok (reason, sr1), w1, [])" "files w1 = files w"
    and s: "reason \<noteq> None \<longleftrightarrow> SigTerm \<in> set sigs \<or> SigInt \<in> set sigs"
    using await_ends [of sigs sr w "[]"] by (elim exE conjE)
  show ?thesis
  proof (cases "installed \<and> reason \<noteq> None")
    case True
    then show ?thesis using assms a s by (auto simp: end_serve_def log_failure_def exit_ok_def)
  next
    case False
    then show ?thesis using assms a s by (cases installed) (auto simp: end_serve_def log_failure_def exit_ok_def)
  qed
qed

section \<open>Properties\<close>

text \<open>
  C4: The exit code tells what happened, under every fault. Past the command line (where \<^verbatim>\<open>clap\<close> may end the process with a code of its own,
  nothing having been touched) a run ends with one of six codes, unless the process died or its workers run, which only \<^verbatim>\<open>serve\<close> does.
  64 is answered exactly when logging could not be set up, and a configuration file that cannot be read or is invalid gives 74 or 70; with 64 and 70
  nothing on disk has changed. For \<^verbatim>\<open>enroll\<close> the code is the one of the event its log ends with: 0 after the new
  credentials were persisted, and then they are on disk, 75 after transient answers used up the tries, 76 after a refusal, 74 after any other failure.
  \<^verbatim>\<open>serve\<close> does not start with 70, 74 or 76; once it runs it ends with 0 exactly after a terminating signal, and with 74 when the handlers cannot be installed. \<^verbatim>\<open>status\<close>
  prints its report exactly when it answers 0, and fails with 74. Only \<^verbatim>\<open>enroll\<close> writes credentials, only \<^verbatim>\<open>serve\<close> writes the queue.
\<close>

theorem exit_codes_tell:
  assumes lib: "cred_lib_ok (sl_creds (pg_serve pg))"
    and run: "perchstation pg cli (cw, cfs) (w, fs) = (out, cw', w')"
    and ends: "end_serve installed sigs reg sr cv v = (out1, cv', v')"
  shows "(case cli of
      Inl code \<Rightarrow> out = Exited code None \<and> cw' = cw \<and> w' = w
    | Inr cmd \<Rightarrow>
        (case out of
           Exited code printed \<Rightarrow> code \<in> {0, 64, 70, 74, 75, 76} \<and> (code = 64 \<longleftrightarrow> \<not> pg_log_ok pg) \<and>
             (code \<in> {64, 70} \<longrightarrow> files cw' = files cw \<and> files w' = files w) \<and>
             (if code = 64 then printed = None else
              case load_config (pg_toml pg) (pg_config_path pg) (pg_config_text pg) of
                Inl err \<Rightarrow> printed = None \<and> code = (if \<exists>p k. err = ConfigIo p k then 74 else 70)
              | Inr cfg \<Rightarrow>
                  (case cmd of
                     EnrollCommand args \<Rightarrow> printed = None \<and>
                       (code \<noteq> 70 \<longrightarrow> (\<exists>before ev. journal cw' = before @ [EnrollmentEv ev] \<and> code_logged ev = Some code)) \<and>
                       (code = 0 \<longrightarrow> (\<exists>opts i. creds_saved (sl_creds (pg_serve pg)) opts i (look cw')))
                   | ServeCommand \<Rightarrow> printed = None \<and> code \<in> {70, 74, 76}
                   | StatusCommand json \<Rightarrow> code \<in> {0, 74} \<and> (printed \<noteq> None \<longleftrightarrow> code = 0)))
         | Running _ _ \<Rightarrow> cmd = ServeCommand
         | Died \<Rightarrow> True) \<and>
        ((\<forall>args. cmd \<noteq> EnrollCommand args) \<longrightarrow> files cw' = files cw) \<and> (cmd \<noteq> ServeCommand \<longrightarrow> files w' = files w)) \<and>
    cv' = cv \<and> files v' = files v \<and>
    (case out1 of
       Exited code printed \<Rightarrow> printed = None \<and> (if installed then code = 0 \<and> (SigTerm \<in> set sigs \<or> SigInt \<in> set sigs) else code = 74)
     | Running _ _ \<Rightarrow> installed \<and> SigTerm \<notin> set sigs \<and> SigInt \<notin> set sigs
     | Died \<Rightarrow> False)"
proof (rule conjI [rotated], rule end_serve_told [OF ends], cases cli, goal_cases Line Command)
  case (Line code)
  then show ?case using run by (simp add: perchstation_def)
next
  case Inr: (Command cmd)
  let ?conf = "load_config (pg_toml pg) (pg_config_path pg) (pg_config_text pg)" and ?cl = "sl_creds (pg_serve pg)"
  show ?case
  proof (cases "\<exists>cfg. pg_log_ok pg \<and> ?conf = Inr cfg")
    case True
    then obtain cfg where cfg: "pg_log_ok pg" "?conf = Inr cfg" by blast
    obtain out2 cw2 w2 where c: "run_command pg cmd cfg (cw, cfs) (w, fs) = (out2, cw2, w2)"
      by (cases "run_command pg cmd cfg (cw, cfs) (w, fs)") auto
    have t: "told ?cl cmd cw cw2 w w2 out2"
      using c by (cases cmd) (auto intro: enroll_told [OF lib] serve_told status_told)
    have "out = out2" "cw' = cw2" "files w' = files w2"
      using run cfg c Inr by (auto simp: perchstation_def log_failure_def split: outcome.splits if_splits)
    then show ?thesis
      using t cfg Inr by (cases out2; cases cmd) (auto simp: told_def log_ends_def)
  next
    case False
    have code: "exit_with err = (if \<exists>p k. err = ConfigIo p k then 74 else 70)" for err by (cases err) simp_all
    show ?thesis using run False Inr
      by (cases "pg_log_ok pg"; cases ?conf) (auto simp: perchstation_def exit_usage_def code)
  qed
qed

definition ex_still :: "unit still_host" where
  "ex_still = \<lparr> sh_tempdir = Inr ''tmp'', sh_command = (\<lambda>_. Inl ''no camera''), sh_decode = (\<lambda>_. Inl ''no image''), sh_io_text = (\<lambda>_. ''io'') \<rparr>"

definition ex_program :: "(string, string, unit, blob, string, unit) program" where
  "ex_program = \<lparr> pg_log_ok = True, pg_toml = (\<lambda>_. None), pg_config_path = ''config.toml'', pg_config_text = Inr ''?'', pg_enroll = ex_enroll_lib,
     pg_enroll_env = ex_enroll_env, pg_still = ex_still, pg_serve = ex_serve_lib, pg_plant = ex_plant, pg_tick0 = 0, pg_now = 0, pg_text = ex_text, pg_json = (\<lambda>_. None) \<rparr>"

definition ex_service :: "(blob, string, unit) service" where
  "ex_service = \<lparr> sr_runner = ex_runner, sr_logged = False, sr_flight = None, sr_poller = ex_poller, sr_polled = ({}, 0), sr_capture = None \<rparr>"

theorem exit_codes_tell_witness:
  "\<exists>cw' w' v'. perchstation ex_program (Inr ServeCommand) (ex_creds, []) (ex_flying, [Crash None]) = (Exited 70 None, cw', w') \<and>
     files cw' = files ex_creds \<and> files w' = files ex_flying \<and>
     end_serve True [SigTerm] new_registry ex_service ex_creds ex_flying = (Exited 0 None, ex_creds, v')"
proof -
  obtain out cw' w' where run: "perchstation ex_program (Inr ServeCommand) (ex_creds, []) (ex_flying, [Crash None]) = (out, cw', w')"
    by (cases "perchstation ex_program (Inr ServeCommand) (ex_creds, []) (ex_flying, [Crash None])") auto
  then have "out = Exited 70 None" by (auto simp: perchstation_def ex_program_def load_config_def)
  moreover obtain out1 cv' v' where ends: "end_serve True [SigTerm] new_registry ex_service ex_creds ex_flying = (out1, cv', v')"
    by (cases "end_serve True [SigTerm] new_registry ex_service ex_creds ex_flying") auto
  moreover have "cred_lib_ok (sl_creds (pg_serve ex_program))" by (simp add: ex_program_def ex_serve_lib_def)
  ultimately show ?thesis using exit_codes_tell [OF _ run ends] run by (auto split: outcome.splits)
qed

end
