(* ===== verification/Spec2Isabelle.thy ===== *)
theory Spec2Isabelle
  imports Station Program
begin

text \<open>
  \<^bold>\<open>Perchstation.\<close> A station at a bird perch records a clip when its motion sensor fires, keeps the clip in a
  queue on disk, uploads it to the perchpub service over mutual TLS and follows the classification of what it
  uploaded. This development models the station's own code under \<^verbatim>\<open>src/crates\<close> and proves what an
  unattended device relies on: that a clip which was accepted is not lost and not delivered without a record of it, that
  retries, requests and disk usage stay within their budgets, and that the station keeps its identity.

  \<^bold>\<open>The parts and how they meet.\<close> The capture supervisor (\<^verbatim>\<open>capture/\<close>, \<^verbatim>\<open>camera_recorder.rs\<close>) records into a staging
  directory and submits the file to the policy-guarded inbox (\<^verbatim>\<open>queue/policy.rs\<close>, \<^verbatim>\<open>queue/inbox.rs\<close>), which
  evicts old clips if a ceiling is breached and moves the recording into the store (\<^verbatim>\<open>queue/store.rs\<close>). A clip is
  a recording and a sidecar record; the three directories \<^verbatim>\<open>pending\<close>, \<^verbatim>\<open>inflight\<close> and \<^verbatim>\<open>delivered\<close> are its states. The
  delivery runner (\<^verbatim>\<open>delivery/runner.rs\<close>) claims the oldest eligible clip, uploads it through the client
  (\<^verbatim>\<open>perchpub/client.rs\<close>) and completes it, hands it back with a retry time (\<^verbatim>\<open>delivery/retry.rs\<close>) or
  gives up. The classify poller (\<^verbatim>\<open>delivery/classify.rs\<close>) updates and prunes the delivered records.
  Enrollment (\<^verbatim>\<open>enrollment/\<close>, \<^verbatim>\<open>commands/enroll.rs\<close>) creates the credentials (\<^verbatim>\<open>identity.rs\<close>) that the client presents; the
  status command (\<^verbatim>\<open>observability/status.rs\<close>) reads everything and changes nothing. The command
  \<^verbatim>\<open>serve\<close> checks the configuration, loads the credentials, brings the queue in order after the last run and
  runs the three workers beside each other until a signal ends it.

  \<^bold>\<open>Theories.\<close> Paths are relative to \<^verbatim>\<open>crates/perchstation-core/src\<close> unless they begin with \<^verbatim>\<open>crates\<close>.

    \<^item> \<open>Prelude\<close>: results, saturating and wrapping arithmetic, instants, file names, fact collections.
    \<^item> \<open>Queue_Entry\<close>: the sidecar record, errors and log events (\<^verbatim>\<open>queue/mod.rs\<close>, \<^verbatim>\<open>perchpub/types.rs\<close>, the codes of
      \<^verbatim>\<open>observability/tracing.rs\<close>).
    \<^item> \<open>Fs\<close>: the file system as a state monad with a fault schedule. Every system call may succeed, fail with an
      error of the host's choice (a write leaving partial contents) or be the point where the process dies. \<open>wlp\<close> is the
      weakest precondition over all schedules, \<open>wlpf\<close> the one over schedules with a bounded number of failed calls, \<open>footprint\<close> the set of
      paths a program can change.
    \<^item> \<open>Queue_Store\<close>, \<open>Queue_Crash\<close>, \<open>Queue_Order\<close>: every operation of \<^verbatim>\<open>QueueStore\<close>, call by call; what is on disk when an
      operation is cut short and after the boot that follows; the order of picking and the registration of clips.
    \<^item> \<open>Queue_Policy\<close>: census, eviction, guarded submission, pruning (\<^verbatim>\<open>queue/policy.rs\<close>, \<^verbatim>\<open>queue/inbox.rs\<close>).
    \<^item> \<open>Config\<close>, \<open>Client\<close>, \<open>Retry\<close>: \<^verbatim>\<open>config.rs\<close>, \<^verbatim>\<open>perchpub/client.rs\<close>, \<^verbatim>\<open>delivery/retry.rs\<close>. The rounding of
      IEEE doubles is an argument of \<open>Retry\<close>; \<open>fp_ok\<close> states what the backoff computation needs of it (that \<^verbatim>\<open>powi\<close> is exact on
      powers of two is an assumption about the platform, its documentation leaves the precision open).
    \<^item> \<open>Delivery_Runner\<close>, \<open>Classify_Poller\<close>: \<^verbatim>\<open>delivery/runner.rs\<close> and \<^verbatim>\<open>delivery/classify.rs\<close>, one attempt and one round
      as programs, the loops as recursion over the inputs of their iterations.
    \<^item> \<open>Capture_Liveness\<close>, \<open>Capture_Staging\<close>, \<open>Camera_Recorder\<close>, \<open>Capture\<close>: the liveness tracker, cooldown and projection; purge, probe and
      bounded recording; the production camera (\<^verbatim>\<open>crates/perchstation-hw/src/camera_recorder.rs\<close>); the
      supervisor with its handlers and its select loop over an explicit sequence of inputs.
    \<^item> Interfaces are locales: \<open>clip_op\<close> (an operation that stays within the paths of its clip, interpreted on five store
      operations), \<open>inbox\<close> (interpreted on the plain and on the policy-guarded inbox), \<open>camera\<close> (interpreted on the production
      camera) and \<open>capture_parts\<close>, which joins an inbox and a camera for the supervisor.
    \<^item> \<open>Identity\<close>: \<^verbatim>\<open>identity.rs\<close> over a world whose entries are directories.
    \<^item> \<open>Confirm\<close>: \<^verbatim>\<open>enrollment/confirm.rs\<close> and \<^verbatim>\<open>tls.rs\<close>; \<open>Redaction\<close>: the secret registry and the scrubbing writer of
      \<^verbatim>\<open>observability/tracing.rs\<close>; \<open>Enrollment\<close>: \<^verbatim>\<open>enrollment/mod.rs\<close>, \<^verbatim>\<open>csr.rs\<close>, \<^verbatim>\<open>file_source.rs\<close> and
      \<^verbatim>\<open>crates/perchstation/src/commands/enroll.rs\<close>.
    \<^item> \<open>Sensor\<close>: the GPIO motion sensor (\<^verbatim>\<open>crates/perchstation-hw/src/motion_sensor.rs\<close>) and the select loop with it;
      \<open>Qr_Camera\<close>: the still camera of the enrollment (\<^verbatim>\<open>crates/perchstation-hw/src/camera_qr.rs\<close>).
    \<^item> \<open>Status\<close>, \<open>Status_Text\<close>: \<^verbatim>\<open>observability/status.rs\<close>, the snapshot and the text that is printed.
    \<^item> \<open>Serve\<close>: \<^verbatim>\<open>crates/perchstation/src/commands/serve.rs\<close> and \<^verbatim>\<open>crates/perchstation-hw/src/capture_config.rs\<close>: the checks,
      the boot sequence, the construction of the workers, the signals; the iteration of the delivery loop cut at its upload.
    \<^item> \<open>Station\<close>: the process as a transition system. \<open>turn\<close> is a boot, what a worker does between two points where it
      waits, a signal, or the death of the process; a run of the station is any sequence of turns.
    \<^item> \<open>Program\<close>: \<^verbatim>\<open>crates/perchstation/src/main.rs\<close>: logging, configuration, dispatch, the end of \<^verbatim>\<open>serve\<close> and the exit codes.

  \<^bold>\<open>What is proved.\<close>

    \<^item> Queue: an operation that is cut short anywhere and followed by a boot leaves a clip waiting with its
      recording or done with its record, with one exception that is proved as such (a process that dies in the gap between the rename
      of a recording and the write of its sidecar, or two failed calls there; a single failure is rolled back); boot reconciliation restores a whole store; picking is the minimum of the eligible
      records; eviction takes a prefix of the candidates while a ceiling is breached; the census and the pruning are exact.
    \<^item> Delivery: one attempt keeps the recording or a terminal record under every fault and every answer; on a working
      host it implements \<open>attempt_spec\<close>, a function of the record, the answer and the clock; a clip is attempted at most as often as
      configured; the clip is given up exactly when a budget is spent, and until then the backoff equals the capped doubling and stays within
      its jitter; requests depend on the network only through the configured authority. An answer that is too long makes an accepted
      clip be uploaded again, which is proved as such.
    \<^item> Classification: a round only moves classification states forward; the skip set does not change what a scan answers; along any
      run the invariant of the poller holds, and only a delivered record whose classification is over and whose retention has passed is removed.
    \<^item> Capture: a trigger that passes the gates ends in a recorded failure or in a clip that is in the queue; the cooldown spaces
      recordings; the triggers are the asserting edges of the sensor's line, and a resting loop knows its level; the
      tracker computes the state that the history of probes determines; the projection shows it; a recording that is returned is
      complete, and a failed one leaves no partial file on a working host. A sensor whose event stream is closed is reported as recovered, which is proved as such.
    \<^item> Identity and enrollment: replacing the credentials never mixes two sets, and puts the old one back when a single call fails; what is saved loads again; the exchange
      keeps to its three requests; a confirmed certificate is for the station's key, valid and issued by a pinned authority;
      an enrollment keeps the station's key unless it is told not to, and completes when it can; registered
      secrets do not reach the log.
    \<^item> The command: a start only reads the credentials, ends with the right exit code, and comes up on a working host with
      every interrupted clip back in the queue; renewed credentials reach the connection but not the expiry check, which is
      proved as such. Every exit code of the binary means what it says about the disk and agrees with the log.
    \<^item> Across the parts: in no run of the station, with any interleaving, faults outside the capture worker, crashes and reboots, does
      a clip disappear without a terminal record or a line of the log; the clip of a trigger that recorded no failure is,
      when its turn comes and perchpub takes it, filed as delivered by the next attempt on a working host.
    \<^item> Status: a pure read with exact counts and the latest events; the report can be read back.

  \<^bold>\<open>Bounds and fuel.\<close> No definition uses fuel. Loops over directory listings and over inputs recurse on the list; the eviction loop
  recurses on its candidates; the retry loop of the enrollment terminates by the attempts that are left.
  The run of a worker is the run over any finite sequence of iterations, with what each iteration reads (clock, answers,
  cancellation) as its input, so a statement about all runs is a statement about all such sequences.
  Fixed-width integers are naturals with the saturating and wrapping operations written out.

  \<^bold>\<open>Parameters.\<close> Libraries are arguments: the sidecar codec (\<open>codec_ok\<close>: encoding does not fail and decodes back), JSON, TOML, URLs,
  X.509, TLS, QR detection, key pairs and hashing, and the command-line parser (a command, or the code with which it ends the process);
  the kernel's queue of GPIO events is unbounded; the network answers any function of the request. The host chooses faults
  freely, except that a missing file is reported only for a missing file.

  \<^bold>\<open>Not modelled.\<close> The tokio runtime with \<^verbatim>\<open>supervision.rs\<close> (a panic aborts the process under the release
  profile, so it is the death of the process here), \<^verbatim>\<open>sd_notify\<close> and the bounded waits at shutdown; interleavings inside a
  turn, that is between two system calls without a wait; faults inside a turn of the capture worker in \<open>Station\<close>, because an
  eviction that is cut short leaves no trace (the single operations are proved under faults; a panic of the capture worker is a turn); what survives a power cut
  without \<^verbatim>\<open>fsync\<close>; the parsing of the command line and the installation of the log subscriber; the texts of log messages, the
  closing sentence of \<^verbatim>\<open>enroll\<close> and the JSON rendering of the status, which is the library's; the system clock; the development
  tools \<^verbatim>\<open>fakepub\<close> and \<^verbatim>\<open>mint-enroll-qr\<close>.
\<close>

section \<open>From the trigger to the delivery\<close>

lemma waiting_clip:
  assumes "holds_entry cd w (sidecar_at PendingDir cid) e" "look w (media_at PendingDir cid) = Some b"
    and "look w (media_at InflightDir cid) = None" "look w (sidecar_at InflightDir cid) = None" "look w (sidecar_at DeliveredDir cid) = None"
  shows "phase_of cd cid w = Waiting e b"
  using assms by (auto simp: phase_of_Waiting holds_entry_def)

lemma accepted_attempt_spec:
  assumes "0 < blen (rn_codec rn) b" "blen (rn_codec rn) b \<le> max_upload_bytes" "upload_answer rn (t_http ts) b = Inr task"
  shows "attempt_spec rn ts e b = Some (Done (mark_delivered (t_stamp ts) task (mark_attempt (t_pick ts) e)))"
  using assms by (simp add: attempt_spec_def preflight_verdict_def Let_def)

text \<open>
  C9: From trigger to delivery. Let a trigger pass the gates, whatever the host and the camera do
  meanwhile, and let it end without a recorded failure. If the identifier of its clip is new, the clip is the
  oldest one that is due, it is within the upload limit and perchpub takes it, then the next attempt on a working host
  delivers it: the record of this trigger is filed as delivered with perchpub's task, and the recording is gone.
\<close>

theorem trigger_is_delivered:
  assumes ok: "station_ok (rn_codec rn) lims"
    and gates: "\<not> is_active (gate_now clk) (sv_cooldown sv)" "\<not> is_degraded (sv_liveness sv)"
    and run: "handle_trigger (station_env (rn_codec rn) h cam pol fmt cfg lims it pt jt) clk (Inr t) sv w fs = (Ok sv', w1, fs1)"
    and success: "last_failure (sv_state sv') = None" and cid: "last_clip_id (sv_state sv') = Some cid"
    and fresh: "wf_world w1" "look w1 (media_at InflightDir cid) = None" "look w1 (sidecar_at InflightDir cid) = None"
      "look w1 (sidecar_at DeliveredDir cid) = None"
    and oldest: "\<And>n e. eligible (rn_codec rn) (t_pick ts) w1 n e \<Longrightarrow> sidecar_name cid \<le> n"
    and taken: "\<And>b. look w1 (media_at PendingDir cid) = Some b \<Longrightarrow>
      blen (rn_codec rn) b \<le> max_upload_bytes \<and> upload_answer rn (t_http ts) b = Inr task"
  shows "\<exists>e w2. clip_id e = cid \<and> captured_at e = t \<and> try_once rn ts False w1 [] = (Ok Progress, w2, []) \<and>
    phase_of (rn_codec rn) cid w2 = Done (mark_delivered (t_stamp ts) task (mark_attempt (t_pick ts) e))"
proof -
  let ?cd = "rn_codec rn"
  have "accounted (station_env ?cd h cam pol fmt cfg lims it pt jt) clk t sv (Ok sv') w1"
    using capture_parts.trigger_accounted [OF station_parts [OF ok] gates run] by blast
  then have "delivered_as (station_env ?cd h cam pol fmt cfg lims it pt jt) t sv sv' w1"
    using success by (auto simp: accounted_def failed_as_def record_failure_def)
  then obtain e b where e: "clip_id e = cid" "captured_at e = t" "next_attempt_after e = None" "cid \<noteq> []"
    and on_disk: "holds_entry ?cd w1 (sidecar_at PendingDir cid) e" "look w1 (media_at PendingDir cid) = Some b" "0 < blen ?cd b"
    using cid by (auto simp: delivered_as_def record_success_def)
  have waiting: "phase_of ?cd cid w1 = Waiting e b"
    using waiting_clip [OF on_disk(1,2) fresh(2-4)] .
  have due: "eligible ?cd (t_pick ts) w1 (sidecar_name cid) e"
    using on_disk(1) e(3,4) by (simp add: eligible_def in_backoff_def has_ext_json_iff)
  have spec: "attempt_spec rn ts e b = Some (Done (mark_delivered (t_stamp ts) task (mark_attempt (t_pick ts) e)))"
    using accepted_attempt_spec [OF on_disk(3)] taken [OF on_disk(2)] by simp
  have codec: "codec_ok ?cd" using ok by (simp add: station_ok_def)
  obtain r w2 where "try_once rn ts False w1 [] = (r, w2, [])"
    "case attempt_spec rn ts e b of None \<Rightarrow> r = Crashed | Some p \<Rightarrow> r = Ok Progress \<and> phase_of ?cd cid w2 = p"
    using attempt_refines [OF codec fresh(1) e(4,1) waiting due] oldest by blast
  then show ?thesis using e(1,2) spec by auto
qed

definition ex_recorded :: "blob world \<Rightarrow> bool" where
  "ex_recorded w \<longleftrightarrow> files w =
     [(media_at PendingDir ''T-000'', Bytes 9), (sidecar_at PendingDir ''T-000'', Sidecar (new_entry ''T-000'' 10 20 9))]"

lemma ex_recorded_world:
  assumes "ex_recorded w"
  shows "wf_world w" "look w (media_at InflightDir ''T-000'') = None" "look w (sidecar_at InflightDir ''T-000'') = None"
    "look w (sidecar_at DeliveredDir ''T-000'') = None" "look w (media_at PendingDir ''T-000'') = Some (Bytes 9)"
    and "eligible blob_codec now w n e \<Longrightarrow> n = sidecar_name ''T-000''"
  using assms
  by (auto simp: ex_recorded_def wf_world_def eligible_def holds_entry_def has_ext_json_iff split: if_splits)

theorem trigger_is_delivered_witness:
  "\<exists>sv' w1 e w2. handle_trigger ex_station ex_readings (Inr 10) ex_sv ex_empty [] = (Ok sv', w1, []) \<and> clip_id e = ''T-000'' \<and> captured_at e = 10 \<and>
     try_once ex_runner ex_reads False w1 [] = (Ok Progress, w2, []) \<and>
     phase_of blob_codec ''T-000'' w2 =
       Done (mark_delivered 33 \<lparr> task_id = 7, task_status = Queued, task_observation = None \<rparr> (mark_attempt 30 e))"
proof -
  let ?sv = "ex_sv\<lparr>sv_state := record_success ''T-000'' 10 new_capture_state, sv_cooldown := Some 30000000023\<rparr>"
  obtain w1 where run: "handle_trigger ex_station ex_readings (Inr 10) ex_sv ex_empty [] = (Ok ?sv, w1, [])"
    and disk: "ex_recorded w1"
    using ex_trigger unfolding ex_recorded_def by auto
  have "last_failure (sv_state ?sv) = None" "last_clip_id (sv_state ?sv) = Some ''T-000''"
    by (simp_all add: record_success_def new_capture_state_def)
  from trigger_is_delivered [where rn = ex_runner and ts = ex_reads, simplified,
      OF ex_station_ok ex_gates run [unfolded ex_station_def] this ex_recorded_world(1-4) [OF disk]]
  show ?thesis using run ex_recorded_world(5,6) [OF disk] ex_answer by (auto simp: max_upload_bytes_def)
qed

end
